(* ===== verification/Prelude.thy ===== *)
theory Prelude
  imports Main "HOL-Library.Word" "HOL-Library.List_Lexorder" "HOL-Library.Sublist"
begin

text \<open>
  Shared vocabulary of the development: machine integers at their width, Rust
  strings, saturating arithmetic, decimal printing and parsing as done by the Rust
  standard library, splitting of strings, results with errors as values, and the
  generic facts on words, lists and the lexicographic order that the component
  theories rely on.

  A Rust \<open>String\<close> is the list of its Unicode scalar values.  Comparing two strings
  by their UTF-8 bytes is the same as comparing these lists lexicographically, so
  the order of \<open>List_Lexorder\<close> is the order of \<open>String\<close>.
\<close>

section \<open>Types\<close>

type_synonym u8 = "8 word"
type_synonym u16 = "16 word"
type_synonym u32 = "32 word"
type_synonym u64 = "64 word"
type_synonym i64 = "64 word"
type_synonym bytes = "u8 list"
type_synonym rstring = "nat list"

text \<open>Errors are values.  Of an \<open>io::Error\<close> the kind is kept and the message text is dropped; a panic
  inside a fallible operation is the last kind.\<close>

datatype io_error = InvalidData | InvalidInput | UnexpectedEof | OtherError | Panicked

type_synonym 'a io_result = "io_error + 'a"

text \<open>The \<open>?\<close> operator: stop at the first error.\<close>

fun rbind :: "'e + 'a \<Rightarrow> ('a \<Rightarrow> 'e + 'b) \<Rightarrow> 'e + 'b" where
  "rbind (Inl e) f = Inl e"
| "rbind (Inr a) f = f a"

definition rmap :: "('a \<Rightarrow> 'b) \<Rightarrow> 'e + 'a \<Rightarrow> 'e + 'b" where
  "rmap f r = rbind r (\<lambda>a. Inr (f a))"

definition ok_or :: "'e \<Rightarrow> 'a option \<Rightarrow> 'e + 'a" where
  "ok_or e x = (case x of None \<Rightarrow> Inl e | Some a \<Rightarrow> Inr a)"

text \<open>\<open>collect\<close> of an iterator of results into a result of a list.\<close>

fun rcollect :: "('e + 'a) list \<Rightarrow> 'e + 'a list" where
  "rcollect [] = Inr []"
| "rcollect (x # xs) = rbind x (\<lambda>a. rbind (rcollect xs) (\<lambda>as. Inr (a # as)))"

text \<open>The same for \<open>Option\<close>.\<close>

fun ocollect :: "'a option list \<Rightarrow> 'a list option" where
  "ocollect [] = Some []"
| "ocollect (x # xs) =
    (case x of None \<Rightarrow> None
     | Some a \<Rightarrow> (case ocollect xs of None \<Rightarrow> None | Some as \<Rightarrow> Some (a # as)))"

section \<open>Machine integers\<close>

definition u64_max :: u64 where
  "u64_max = - 1"

definition sat_add :: "u64 \<Rightarrow> u64 \<Rightarrow> u64" where
  "sat_add a b = (if unat a + unat b < 2 ^ 64 then a + b else u64_max)"

definition sat_sub :: "u64 \<Rightarrow> u64 \<Rightarrow> u64" where
  "sat_sub a b = (if b \<le> a then a - b else 0)"

text \<open>\<open>u64::saturating_add_signed\<close>; the second argument is read as an \<open>i64\<close>.\<close>

definition saturating_add_signed :: "u64 \<Rightarrow> i64 \<Rightarrow> u64" where
  "saturating_add_signed a d =
    (let r = uint a + sint d
     in if r < 0 then 0 else if 2 ^ 64 \<le> r then u64_max else word_of_int r)"

section \<open>Strings\<close>

definition ascii :: "string \<Rightarrow> rstring" where
  "ascii s = map of_char s"

text \<open>What \<open>char::from_u32\<close> accepts.\<close>

definition is_scalar :: "nat \<Rightarrow> bool" where
  "is_scalar c \<longleftrightarrow> c < 0x110000 \<and> \<not> (0xD800 \<le> c \<and> c < 0xE000)"

definition valid_str :: "rstring \<Rightarrow> bool" where
  "valid_str s \<longleftrightarrow> list_all is_scalar s"

fun strip_prefix :: "rstring \<Rightarrow> rstring \<Rightarrow> rstring option" where
  "strip_prefix [] s = Some s"
| "strip_prefix (p # ps) [] = None"
| "strip_prefix (p # ps) (c # cs) = (if p = c then strip_prefix ps cs else None)"

text \<open>\<open>str::split\<close> on one character: there is always at least one piece.\<close>

fun split_on :: "'a \<Rightarrow> 'a list \<Rightarrow> 'a list list" where
  "split_on c [] = [[]]"
| "split_on c (x # xs) =
    (if x = c then [] # split_on c xs
     else (case split_on c xs of [] \<Rightarrow> [[x]] | y # ys \<Rightarrow> (x # y) # ys))"

text \<open>\<open>str::splitn(2, c)\<close>: the first piece, and the rest when the character occurs.\<close>

fun splitn2 :: "'a \<Rightarrow> 'a list \<Rightarrow> 'a list \<times> 'a list option" where
  "splitn2 c [] = ([], None)"
| "splitn2 c (x # xs) =
    (if x = c then ([], Some xs) else (case splitn2 c xs of (a, r) \<Rightarrow> (x # a, r)))"

section \<open>Decimal numbers\<close>

text \<open>\<open>Display\<close> of an unsigned integer, without leading zeros.\<close>

fun show_nat :: "nat \<Rightarrow> rstring" where
  "show_nat n = (if n < 10 then [48 + n] else show_nat (n div 10) @ [48 + n mod 10])"

declare show_nat.simps [simp del]

definition show_u64 :: "u64 \<Rightarrow> rstring" where
  "show_u64 w = show_nat (unat w)"

text \<open>The width of a format such as \<open>{:020}\<close>: zeros on the left, never a truncation.\<close>

definition pad0 :: "nat \<Rightarrow> rstring \<Rightarrow> rstring" where
  "pad0 w s = replicate (w - length s) 48 @ s"

definition digit_val :: "nat \<Rightarrow> nat option" where
  "digit_val c = (if 48 \<le> c \<and> c \<le> 57 then Some (c - 48) else None)"

fun parse_acc :: "nat \<Rightarrow> rstring \<Rightarrow> nat option" where
  "parse_acc a [] = Some a"
| "parse_acc a (c # cs) =
    (case digit_val c of None \<Rightarrow> None | Some d \<Rightarrow> parse_acc (10 * a + d) cs)"

text \<open>
  \<open>FromStr\<close> of the unsigned integers: the empty string and a lone sign are errors, a
  leading plus sign is accepted, and a value that does not fit is an error.
\<close>

definition parse_dec :: "rstring \<Rightarrow> nat option" where
  "parse_dec s =
    (case s of [] \<Rightarrow> None
     | c # cs \<Rightarrow> if c = 43 then (if cs = [] then None else parse_acc 0 cs) else parse_acc 0 s)"

definition parse_u64 :: "rstring \<Rightarrow> u64 option" where
  "parse_u64 s =
    (case parse_dec s of None \<Rightarrow> None
     | Some n \<Rightarrow> if n < 2 ^ 64 then Some (word_of_nat n) else None)"

definition parse_u16 :: "rstring \<Rightarrow> u16 option" where
  "parse_u16 s =
    (case parse_dec s of None \<Rightarrow> None
     | Some n \<Rightarrow> if n < 2 ^ 16 then Some (word_of_nat n) else None)"

text \<open>The number a list of digit characters denotes.\<close>

fun dec_val :: "rstring \<Rightarrow> nat" where
  "dec_val [] = 0"
| "dec_val (c # cs) = (c - 48) * 10 ^ length cs + dec_val cs"

definition is_digit :: "nat \<Rightarrow> bool" where
  "is_digit c \<longleftrightarrow> 48 \<le> c \<and> c \<le> 57"

section \<open>Collections of facts\<close>

named_theorems result_simps \<open>unfolding the result combinators\<close>
named_theorems word_bounds \<open>words read as natural numbers\<close>

lemmas [result_simps] = rmap_def ok_or_def

section \<open>Results\<close>

lemma rbind_Inr_iff [simp]:
  "rbind r f = Inr b \<longleftrightarrow> (\<exists>a. r = Inr a \<and> f a = Inr b)"
  by (cases r) auto

lemma rbind_cong [fundef_cong]:
  "r = r' \<Longrightarrow> (\<And>a. r' = Inr a \<Longrightarrow> f a = g a) \<Longrightarrow> rbind r f = rbind r' g"
  by (cases r') auto

lemma rmap_Inr_iff [simp]: "rmap f r = Inr b \<longleftrightarrow> (\<exists>a. r = Inr a \<and> b = f a)"
  by (cases r) (auto simp: rmap_def)

lemma rmap_simps [simp]: "rmap f (Inl e) = Inl e" "rmap f (Inr a) = Inr (f a)"
  by (simp_all add: rmap_def)

lemma ok_or_simps [simp]: "ok_or e None = Inl e" "ok_or e (Some a) = Inr a"
  by (simp_all add: ok_or_def)

lemma rcollect_map_Inr:
  "(\<And>x. x \<in> set xs \<Longrightarrow> f x = Inr (g x)) \<Longrightarrow> rcollect (map f xs) = Inr (map g xs)"
  by (induction xs) auto

lemma ocollect_map_Some:
  "(\<And>x. x \<in> set xs \<Longrightarrow> f x = Some (g x)) \<Longrightarrow> ocollect (map f xs) = Some (map g xs)"
  by (induction xs) auto

lemma ocollect_Some_nth:
  "ocollect xs = Some ys \<Longrightarrow> length ys = length xs \<and> (\<forall>i < length xs. xs ! i = Some (ys ! i))"
proof (induction xs arbitrary: ys)
  case (Cons x xs)
  then obtain a as where "x = Some a" "ocollect xs = Some as" "ys = a # as"
    by (auto split: option.splits)
  with Cons.IH [of as] show ?case by (auto simp: nth_Cons split: nat.splits)
qed simp

section \<open>Words\<close>

lemma unat_lt_u64 [word_bounds]: "unat (w :: u64) < 2 ^ 64"
  using unsigned_less [of w] by simp

lemma unat_u64_max [simp]: "unat u64_max = 2 ^ 64 - 1"
  by (simp add: u64_max_def unsigned_minus_1_eq_mask mask_eq_exp_minus_1)

lemma le_u64_max [simp]: "w \<le> u64_max"
  by (simp add: u64_max_def)

lemma u64_less_inc: "w \<noteq> u64_max \<Longrightarrow> w < w + 1"
proof -
  assume "w \<noteq> u64_max"
  then have "unat w \<noteq> 2 ^ 64 - 1" by (metis unat_u64_max word_unat_eq_iff)
  then have "unat w + 1 < 2 ^ 64" using unat_lt_u64 [of w] by simp
  then show ?thesis by (simp add: word_less_nat_alt unat_word_ariths)
qed

lemma unat_sat_add: "unat (sat_add a b) = min (unat a + unat b) (2 ^ 64 - 1)"
  by (auto simp: sat_add_def unat_word_ariths min_def)

lemma unat_sat_sub: "unat (sat_sub a b) = unat a - unat b"
  by (auto simp: sat_sub_def unat_sub word_le_nat_alt)

lemma uint_saturating_add_signed:
  "uint (saturating_add_signed a d) = max 0 (min (uint a + sint d) (2 ^ 64 - 1))"
proof -
  consider "uint a + sint d < 0" | "2 ^ 64 \<le> uint a + sint d"
    | "0 \<le> uint a + sint d" "uint a + sint d < 2 ^ 64" by linarith
  then show ?thesis
  proof cases
    case 3
    then show ?thesis
      by (simp del: of_int_add
          add: saturating_add_signed_def take_bit_int_eq_self unsigned_of_int)
  qed (simp_all add: saturating_add_signed_def u64_max_def unsigned_minus_1_eq_mask
      mask_eq_exp_minus_1)
qed

lemma word_of_nat_unat_u64 [simp]: "n < 2 ^ 64 \<Longrightarrow> unat (word_of_nat n :: u64) = n"
  by (simp add: unat_of_nat)

section \<open>Lexicographic order on lists\<close>

lemma prefix_imp_le: "prefix p s \<Longrightarrow> (p :: 'a :: linorder list) \<le> s"
proof (induction p arbitrary: s)
  case (Cons x xs)
  then show ?case by (cases s) auto
qed simp

lemma append_less_cancel [simp]: "(p @ a < p @ b) = ((a :: 'a :: linorder list) < b)"
  by (induction p) auto

lemma append_le_cancel [simp]: "(p @ a \<le> p @ b) = ((a :: 'a :: linorder list) \<le> b)"
  by (induction p) auto

text \<open>Equally long keys decide the order of longer strings that start with them.\<close>

lemma append_less_same_length:
  "length a = length c \<Longrightarrow>
   (a @ b < c @ d) = ((a :: 'a :: linorder list) < c \<or> a = c \<and> b < d)"
  by (induction a c rule: list_induct2) auto

text \<open>The strings that start with \<open>p\<close> and a smaller character than \<open>c\<close>, as an interval.\<close>

lemma less_snoc_iff:
  "((s :: 'a :: linorder list) < p @ [c]) =
   (s < p \<or> prefix p s \<and> (\<forall>x xs. s = p @ x # xs \<longrightarrow> x < c))"
proof (induction p arbitrary: s)
  case Nil
  show ?case by (cases s) auto
next
  case (Cons y ys)
  show ?case
  proof (cases s)
    case (Cons z zs)
    then show ?thesis using Cons.IH [of zs] by auto
  qed simp
qed

section \<open>Strings\<close>

lemma ascii_simps [simp]: "ascii [] = []" "ascii (c # s) = of_char c # ascii s"
  by (simp_all add: ascii_def)

lemma valid_str_simps [simp]:
  "valid_str []" "valid_str (c # s) \<longleftrightarrow> is_scalar c \<and> valid_str s"
  "valid_str (s @ t) \<longleftrightarrow> valid_str s \<and> valid_str t"
  by (simp_all add: valid_str_def)

lemma strip_prefix_append [simp]: "strip_prefix p (p @ s) = Some s"
  by (induction p) auto

lemma strip_prefix_Some_iff: "strip_prefix p s = Some t \<longleftrightarrow> s = p @ t"
  by (induction p s rule: strip_prefix.induct) auto

lemma strip_prefix_None_iff: "strip_prefix p s = None \<longleftrightarrow> \<not> prefix p s"
  by (induction p s rule: strip_prefix.induct) auto

lemma split_on_absent [simp]: "c \<notin> set xs \<Longrightarrow> split_on c xs = [xs]"
  by (induction xs) auto

lemma split_on_append [simp]:
  "c \<notin> set xs \<Longrightarrow> split_on c (xs @ c # ys) = xs # split_on c ys"
  by (induction xs) auto

lemma splitn2_absent [simp]: "c \<notin> set xs \<Longrightarrow> splitn2 c xs = (xs, None)"
  by (induction xs) auto

lemma splitn2_append [simp]: "c \<notin> set xs \<Longrightarrow> splitn2 c (xs @ c # ys) = (xs, Some ys)"
  by (induction xs) auto

section \<open>Decimal numbers\<close>

lemma parse_acc_append:
  "parse_acc a (xs @ ys) =
   (case parse_acc a xs of None \<Rightarrow> None | Some b \<Rightarrow> parse_acc b ys)"
  by (induction a xs rule: parse_acc.induct) (auto split: option.splits)

lemma parse_acc_dec_val:
  "list_all is_digit xs \<Longrightarrow> parse_acc a xs = Some (a * 10 ^ length xs + dec_val xs)"
proof (induction xs arbitrary: a)
  case (Cons c cs)
  then have "digit_val c = Some (c - 48)" by (simp add: digit_val_def is_digit_def)
  with Cons show ?case by (simp add: add_mult_distrib mult.assoc)
qed simp

lemma parse_acc_Some:
  "parse_acc a xs = Some n \<Longrightarrow> list_all is_digit xs"
  by (induction a xs rule: parse_acc.induct)
    (auto simp: digit_val_def is_digit_def split: option.splits if_splits)

lemma dec_val_append: "dec_val (xs @ ys) = dec_val xs * 10 ^ length ys + dec_val ys"
  by (induction xs) (simp_all add: add_mult_distrib power_add)

lemma dec_val_less: "list_all is_digit xs \<Longrightarrow> dec_val xs < 10 ^ length xs"
proof (induction xs)
  case (Cons c cs)
  then have "c - 48 \<le> 9" "dec_val cs < 10 ^ length cs" by (auto simp: is_digit_def)
  then have "(c - 48) * 10 ^ length cs + dec_val cs < 9 * 10 ^ length cs + 10 ^ length cs"
    by (intro add_le_less_mono mult_le_mono1)
  then show ?case by simp
qed simp

lemma show_nat_small: "n < 10 \<Longrightarrow> show_nat n = [48 + n]"
  by (subst show_nat.simps) simp

lemma show_nat_large: "\<not> n < 10 \<Longrightarrow> show_nat n = show_nat (n div 10) @ [48 + n mod 10]"
  by (subst show_nat.simps) simp

lemma show_nat_digits: "list_all is_digit (show_nat n)"
proof (induction n rule: show_nat.induct)
  case (1 n)
  have "is_digit (48 + n mod 10)" by (simp add: is_digit_def)
  with 1 show ?case
    by (cases "n < 10") (simp_all add: show_nat_small show_nat_large)
qed

lemma dec_val_show_nat [simp]: "dec_val (show_nat n) = n"
proof (induction n rule: show_nat.induct)
  case (1 n)
  then show ?case
    by (cases "n < 10") (simp_all add: show_nat_small show_nat_large dec_val_append)
qed

lemma show_nat_not_Nil [simp]: "show_nat n \<noteq> []"
  by (cases "n < 10") (simp_all add: show_nat_small show_nat_large)

lemma show_nat_mem: "c \<in> set (show_nat n) \<Longrightarrow> is_digit c"
  using show_nat_digits [of n] by (auto simp: list_all_iff)

lemma show_nat_not_mem [simp]: "\<not> is_digit c \<Longrightarrow> c \<notin> set (show_nat n)"
  using show_nat_mem by blast

lemma is_digit_numeral [simp]:
  "is_digit (numeral k) \<longleftrightarrow> (48 :: nat) \<le> numeral k \<and> numeral k \<le> (57 :: nat)"
  by (simp add: is_digit_def)

lemma length_show_nat: "n < 10 ^ k \<Longrightarrow> 0 < k \<Longrightarrow> length (show_nat n) \<le> k"
proof (induction n arbitrary: k rule: show_nat.induct)
  case (1 n)
  show ?case
  proof (cases "n < 10")
    case True
    then show ?thesis using 1 by (simp add: show_nat_small)
  next
    case False
    with 1 obtain j where k: "k = Suc j" by (cases k) auto
    with 1 have "n < 10 ^ j * 10" by simp
    then have "n div 10 < 10 ^ j" by (rule less_mult_imp_div_less)
    moreover from this False have "0 < j" by (cases j) auto
    ultimately have "length (show_nat (n div 10)) \<le> j" using "1.IH" False by blast
    then show ?thesis using False k by (simp add: show_nat_large)
  qed
qed

lemma pad0_digits: "list_all is_digit (pad0 w (show_nat n))"
  using show_nat_digits [of n] by (auto simp: pad0_def list_all_iff)

lemma dec_val_replicate0 [simp]: "dec_val (replicate k 48) = 0"
  by (induction k) auto

lemma dec_val_pad0 [simp]: "dec_val (pad0 w (show_nat n)) = n"
  by (simp add: pad0_def dec_val_append)

lemma length_pad0: "length (show_nat n) \<le> w \<Longrightarrow> length (pad0 w (show_nat n)) = w"
  by (simp add: pad0_def)

lemma pad0_not_Nil [simp]: "pad0 w (show_nat n) \<noteq> []"
  by (simp add: pad0_def)

text \<open>Equally long digit strings are ordered as the numbers they denote.\<close>

lemma dec_val_less_iff:
  assumes "length xs = length ys" "list_all is_digit xs" "list_all is_digit ys"
  shows "(xs < ys) = (dec_val xs < dec_val ys)"
  using assms
proof (induction xs ys rule: list_induct2)
  case (Cons x xs y ys)
  have IH: "(xs < ys) = (dec_val xs < dec_val ys)" using Cons by simp
  have xs: "dec_val xs < 10 ^ length ys" and ys: "dec_val ys < 10 ^ length ys"
    using Cons dec_val_less [of xs] dec_val_less [of ys] by simp_all
  have step: "a * p + m < b * p + n" if "a < b" "m < p" for a b m n p :: nat
  proof -
    have "a * p + m < (a + 1) * p" using that by simp
    also have "\<dots> \<le> b * p" using that by (intro mult_le_mono1) simp
    finally show ?thesis by simp
  qed
  consider "x < y" | "x = y" | "y < x" by linarith
  then show ?case
  proof cases
    case 1
    with Cons have "x - 48 < y - 48" by (auto simp: is_digit_def)
    from step [OF this xs] 1 Cons show ?thesis by simp
  next
    case 2
    with IH Cons show ?thesis by simp
  next
    case 3
    with Cons have "y - 48 < x - 48" by (auto simp: is_digit_def)
    from step [OF this ys, of "dec_val xs"] 3 Cons show ?thesis by simp
  qed
qed simp

lemma pad0_show_less_iff:
  assumes "length (show_nat m) \<le> w" "length (show_nat n) \<le> w"
  shows "(pad0 w (show_nat m) < pad0 w (show_nat n)) = (m < n)"
  using assms by (simp add: dec_val_less_iff length_pad0 pad0_digits)

lemma pad0_show_inj: "pad0 w (show_nat m) = pad0 w (show_nat n) \<longleftrightarrow> m = n"
  by (metis dec_val_pad0)

text \<open>Reading back a printed number, with or without zeros on the left.\<close>

lemma parse_dec_digits:
  assumes "list_all is_digit xs" "xs \<noteq> []"
  shows "parse_dec xs = Some (dec_val xs)"
proof -
  from assms obtain c cs where "xs = c # cs" "is_digit c" by (cases xs) auto
  then have "parse_dec xs = parse_acc 0 xs" by (simp add: parse_dec_def is_digit_def)
  with assms show ?thesis by (simp add: parse_acc_dec_val)
qed

lemma parse_u64_show [simp]: "parse_u64 (show_u64 w) = Some w"
  using unat_lt_u64 [of w]
  by (simp add: parse_u64_def show_u64_def parse_dec_digits show_nat_digits)

lemma parse_u64_pad0 [simp]: "parse_u64 (pad0 k (show_u64 w)) = Some w"
  using unat_lt_u64 [of w]
  by (simp add: parse_u64_def show_u64_def parse_dec_digits pad0_digits)

lemma parse_u16_show [simp]: "parse_u16 (show_nat (unat (w :: u16))) = Some w"
  using unsigned_less [of w] by (simp add: parse_u16_def parse_dec_digits show_nat_digits)

lemma length_show_u64: "length (show_u64 w) \<le> 20"
  using length_show_nat [of "unat w" 20] unat_lt_u64 [of w] by (simp add: show_u64_def)

lemma length_pad0_u64 [simp]: "20 \<le> k \<Longrightarrow> length (pad0 k (show_u64 w)) = k"
  using length_show_u64 [of w] by (simp add: show_u64_def length_pad0)

lemma pad0_u64_less_iff:
  "20 \<le> k \<Longrightarrow> (pad0 k (show_u64 a) < pad0 k (show_u64 b)) = (a < b)"
  using length_show_u64 [of a] length_show_u64 [of b]
  by (simp add: show_u64_def pad0_show_less_iff word_less_nat_alt)

lemma pad0_u64_inj [simp]: "pad0 k (show_u64 a) = pad0 k (show_u64 b) \<longleftrightarrow> a = b"
  by (simp add: show_u64_def pad0_show_inj word_unat_eq_iff)

lemma show_u64_inj [simp]: "show_u64 a = show_u64 b \<longleftrightarrow> a = b"
  by (metis parse_u64_show option.inject)

lemma show_u64_not_Nil [simp]: "show_u64 w \<noteq> []"
  by (simp add: show_u64_def)

lemma show_u64_not_mem [simp]: "\<not> is_digit c \<Longrightarrow> c \<notin> set (show_u64 w)"
  by (simp add: show_u64_def)

lemma pad0_u64_not_mem [simp]: "\<not> is_digit c \<Longrightarrow> c \<notin> set (pad0 k (show_u64 w))"
  using pad0_digits [of k "unat w"] by (auto simp: show_u64_def list_all_iff)

end
