(* ===== verification/Versions.thy ===== *)
theory Versions
  imports Prelude
begin

text \<open>
  Versions and feature lifetimes: \<open>version.rs\<close> and \<open>feature_span.rs\<close> of the crate
  \<open>common/version\<close>.  A version is a triple of \<open>u64\<close> with the derived lexicographic order.
  A feature span is the half open interval of versions in which a feature exists; a
  feature specification holds the spans on the server and on the client side, from
  which the ranges of compatible peers are computed.  A panic is the value \<open>None\<close>; the
  flag \<open>dbg\<close> says whether the build has debug assertions.
\<close>

section \<open>Version\<close>

datatype version = Version (major: u64) (minor: u64) (patch: u64)

instantiation version :: linorder
begin

definition less_eq_version :: "version \<Rightarrow> version \<Rightarrow> bool" where
  "less_eq_version a b \<longleftrightarrow>
    major a < major b \<or> major a = major b \<and>
    (minor a < minor b \<or> minor a = minor b \<and> patch a \<le> patch b)"

definition less_version :: "version \<Rightarrow> version \<Rightarrow> bool" where
  "less_version a b \<longleftrightarrow>
    major a < major b \<or> major a = major b \<and>
    (minor a < minor b \<or> minor a = minor b \<and> patch a < patch b)"

instance
  by intro_classes (auto simp: less_eq_version_def less_version_def intro: version.expand)

end

definition version_display :: "version \<Rightarrow> rstring" where
  "version_display v =
    show_u64 (major v) @ ascii ''.'' @ show_u64 (minor v) @ ascii ''.'' @ show_u64 (patch v)"

text \<open>The multiplications and additions wrap as in a build without overflow checks.\<close>

definition to_digit :: "version \<Rightarrow> u64" where
  "to_digit v = major v * 1000000 + minor v * 1000 + patch v"

definition from_digit :: "u64 \<Rightarrow> version" where
  "from_digit u = Version (u div 1000000) (u div 1000 mod 1000) (u mod 1000)"

definition version_min :: version where
  "version_min = Version 0 0 0"

definition version_max :: version where
  "version_max = Version u64_max u64_max u64_max"

definition version_parse :: "rstring \<Rightarrow> version option" where
  "version_parse s =
    (case split_on 46 s of
       [a, b, c] \<Rightarrow>
         (case (parse_u64 a, parse_u64 b, parse_u64 c) of
            (Some x, Some y, Some z) \<Rightarrow> Some (Version x y z)
          | _ \<Rightarrow> None)
     | _ \<Rightarrow> None)"

section \<open>Feature spans\<close>

record 'f feature_span =
  feature :: 'f
  since :: version
  until :: version
  optional_since :: "version option"

type_synonym 'f features = "'f \<rightharpoonup> 'f feature_span"

definition span_new :: "'f \<Rightarrow> version \<Rightarrow> 'f feature_span" where
  "span_new f v =
    \<lparr>feature = f, since = v, until = version_max, optional_since = None\<rparr>"

definition span_until :: "'f feature_span \<Rightarrow> version \<Rightarrow> 'f feature_span" where
  "span_until sp v = sp\<lparr>until := v\<rparr>"

definition span_until3 :: "'f feature_span \<Rightarrow> u64 \<Rightarrow> u64 \<Rightarrow> u64 \<Rightarrow> 'f feature_span" where
  "span_until3 sp a b c = span_until sp (Version a b c)"

definition is_active_at :: "'f feature_span \<Rightarrow> version \<Rightarrow> bool" where
  "is_active_at sp v \<longleftrightarrow> since sp \<le> v \<and> v < until sp"

text \<open>\<open>entry(feature).or_insert_with(..)\<close>: the entry, or a fresh one from the minimal version.\<close>

definition span_entry :: "'f features \<Rightarrow> 'f \<Rightarrow> 'f feature_span" where
  "span_entry fs f = (case fs f of None \<Rightarrow> span_new f version_min | Some sp \<Rightarrow> sp)"

definition add :: "bool \<Rightarrow> 'f features \<Rightarrow> 'f \<Rightarrow> version \<Rightarrow> 'f features option" where
  "add dbg fs f v =
    (let sp = span_entry fs f in
     if dbg \<and> \<not> (since sp = version_min \<or> since sp = version_max) then None
     else if dbg \<and> until sp \<noteq> version_max then None
     else if dbg \<and> (case optional_since sp of None \<Rightarrow> False | Some opt \<Rightarrow> \<not> opt \<le> v) then None
     else Some (fs(f \<mapsto> sp\<lparr>since := v\<rparr>)))"

definition add_optional :: "bool \<Rightarrow> 'f features \<Rightarrow> 'f \<Rightarrow> version \<Rightarrow> 'f features option" where
  "add_optional dbg fs f v =
    (let sp = span_entry fs f in
     if dbg \<and> since sp \<noteq> version_min then None
     else if dbg \<and> optional_since sp \<noteq> None then None
     else Some (fs(f \<mapsto> sp\<lparr>since := version_max, optional_since := Some v\<rparr>)))"

definition remove :: "bool \<Rightarrow> 'f features \<Rightarrow> 'f \<Rightarrow> version \<Rightarrow> 'f features option" where
  "remove dbg fs f v =
    (let sp = span_entry fs f in
     if dbg \<and> since sp = version_min then None
     else if dbg \<and> until sp \<noteq> version_max then None
     else if dbg \<and> \<not> since sp < v then None
     else Some (fs(f \<mapsto> sp\<lparr>until := v\<rparr>)))"

section \<open>Feature specification\<close>

record 'f feature_spec =
  spec_version :: version
  server_features :: "'f features"
  client_features :: "'f features"

text \<open>The argument \<open>all\<close> is \<open>F::all()\<close> of the trait \<open>FeatureSet\<close>.\<close>

definition assert_all_features :: "'f list \<Rightarrow> 'f features \<Rightarrow> bool" where
  "assert_all_features all fs \<longleftrightarrow> list_all (\<lambda>f. fs f \<noteq> None) all"

definition build ::
  "'f list \<Rightarrow> version \<Rightarrow> 'f features \<Rightarrow> 'f features \<Rightarrow> 'f feature_spec option" where
  "build all v srv cli =
    (if \<not> assert_all_features all srv then None
     else if \<not> assert_all_features all cli then None
     else Some \<lparr>spec_version = v, server_features = srv, client_features = cli\<rparr>)"

text \<open>The loop of \<open>compatible_server_range\<close>; \<open>None\<close> is the panic of \<open>unwrap\<close>.\<close>

fun server_range_loop ::
  "'f feature_spec \<Rightarrow> version \<Rightarrow> 'f list \<Rightarrow> version \<Rightarrow> version \<Rightarrow> (version \<times> version) option" where
  "server_range_loop spec cv [] lo hi = Some (lo, hi)"
| "server_range_loop spec cv (f # fs) lo hi =
    (case (client_features spec f, server_features spec f) of
       (Some c, Some s) \<Rightarrow>
         if is_active_at c cv
         then server_range_loop spec cv fs (max lo (since s)) (min hi (until s))
         else server_range_loop spec cv fs lo hi
     | _ \<Rightarrow> None)"

definition compatible_server_range ::
  "'f list \<Rightarrow> 'f feature_spec \<Rightarrow> version \<Rightarrow> (version \<times> version) option" where
  "compatible_server_range all spec cv = server_range_loop spec cv all version_min version_max"

definition min_compatible_server_version :: "'f list \<Rightarrow> 'f feature_spec \<Rightarrow> version option" where
  "min_compatible_server_version all spec =
    map_option fst (compatible_server_range all spec (spec_version spec))"

text \<open>The loop of \<open>compatible_client_range\<close>.\<close>

fun client_range_loop ::
  "'f feature_spec \<Rightarrow> version \<Rightarrow> 'f list \<Rightarrow> version \<Rightarrow> version \<Rightarrow> (version \<times> version) option" where
  "client_range_loop spec sv [] lo hi = Some (lo, hi)"
| "client_range_loop spec sv (f # fs) lo hi =
    (case (client_features spec f, server_features spec f) of
       (Some c, Some s) \<Rightarrow>
         if since c = version_max then client_range_loop spec sv fs lo hi
         else if sv < since s then client_range_loop spec sv fs lo (min hi (since c))
         else if until s \<le> sv then client_range_loop spec sv fs (max lo (until c)) hi
         else client_range_loop spec sv fs lo hi
     | _ \<Rightarrow> None)"

definition compatible_client_range ::
  "'f list \<Rightarrow> 'f feature_spec \<Rightarrow> version \<Rightarrow> (version \<times> version) option" where
  "compatible_client_range all spec sv = client_range_loop spec sv all version_min version_max"

definition min_compatible_client_version :: "'f list \<Rightarrow> 'f feature_spec \<Rightarrow> version option" where
  "min_compatible_client_version all spec =
    map_option fst (compatible_client_range all spec (spec_version spec))"

section \<open>What compatibility means\<close>

text \<open>
  The contract behind the two ranges: the server at version \<open>sv\<close> serves the client at
  version \<open>cv\<close> when every feature active on the client at \<open>cv\<close> is active on the server
  at \<open>sv\<close>.
\<close>

definition active :: "'f features \<Rightarrow> 'f \<Rightarrow> version \<Rightarrow> bool" where
  "active fs f v = (case fs f of None \<Rightarrow> False | Some sp \<Rightarrow> is_active_at sp v)"

definition serves :: "'f list \<Rightarrow> 'f feature_spec \<Rightarrow> version \<Rightarrow> version \<Rightarrow> bool" where
  "serves all spec sv cv \<longleftrightarrow>
    list_all (\<lambda>f. active (client_features spec) f cv \<longrightarrow> active (server_features spec) f sv) all"

section \<open>Order and digits\<close>

lemma version_min_le [simp]: "version_min \<le> v"
  by (auto simp: version_min_def less_eq_version_def word_gt_0)

lemma le_version_max [simp]: "v \<le> version_max"
  using le_u64_max by (auto simp: version_max_def less_eq_version_def order_less_le)

lemma less_Version [simp]:
  "(Version a b c < Version x y z) = (a < x \<or> a = x \<and> (b < y \<or> b = y \<and> c < z))"
  by (simp add: less_version_def)

lemma le_Version [simp]:
  "(Version a b c \<le> Version x y z) = (a < x \<or> a = x \<and> (b < y \<or> b = y \<and> c \<le> z))"
  by (simp add: less_eq_version_def)

text \<open>A version whose digits do not overlap and whose encoding fits 64 bits.\<close>

definition digit_safe :: "version \<Rightarrow> bool" where
  "digit_safe v \<longleftrightarrow> unat (minor v) < 1000 \<and> unat (patch v) < 1000 \<and>
    unat (major v) * 1000000 + unat (minor v) * 1000 + unat (patch v) < 2 ^ 64"

lemma unat_to_digit:
  assumes "digit_safe v"
  shows "unat (to_digit v) = unat (major v) * 1000000 + unat (minor v) * 1000 + unat (patch v)"
proof -
  have "to_digit v =
    word_of_nat (unat (major v) * 1000000 + unat (minor v) * 1000 + unat (patch v))"
    by (simp add: to_digit_def)
  with assms show ?thesis by (simp only: digit_safe_def word_of_nat_unat_u64)
qed

lemma unat_from_digit:
  "unat (major (from_digit d)) = unat d div 1000000"
  "unat (minor (from_digit d)) = unat d div 1000 mod 1000"
  "unat (patch (from_digit d)) = unat d mod 1000"
  by (simp_all add: from_digit_def unat_div unat_mod)

lemma mixed_radix_split:
  "n div 1000000 * 1000000 + n div 1000 mod 1000 * 1000 + n mod 1000 = (n :: nat)"
proof -
  have "n div 1000000 = n div 1000 div 1000" by (simp add: div_mult2_eq [symmetric])
  then have "n div 1000000 * 1000000 + n div 1000 mod 1000 * 1000 + n mod 1000 =
    (n div 1000 div 1000 * 1000 + n div 1000 mod 1000) * 1000 + n mod 1000"
    by (simp only: add_mult_distrib mult.assoc)
  then show ?thesis by (simp only: div_mult_mod_eq)
qed

lemma digit_safe_from_digit: "digit_safe (from_digit d)"
  using unat_lt_u64 [of d]
  by (simp add: digit_safe_def unat_from_digit mixed_radix_split)

lemma to_digit_from_digit: "to_digit (from_digit d) = d"
proof -
  have "unat (to_digit (from_digit d)) = unat d"
    by (simp only: unat_to_digit [OF digit_safe_from_digit] unat_from_digit mixed_radix_split)
  then show ?thesis by (simp add: word_unat_eq_iff)
qed

lemma mixed_radix_less:
  fixes a b c x y z :: nat
  assumes "b < 1000" "c < 1000" "y < 1000" "z < 1000"
  shows "a * 1000000 + b * 1000 + c < x * 1000000 + y * 1000 + z \<longleftrightarrow>
    a < x \<or> a = x \<and> (b < y \<or> b = y \<and> c < z)"
proof -
  let ?l = "a * 1000000 + b * 1000 + c" and ?r = "x * 1000000 + y * 1000 + z"
  consider "a < x" | "x < a" | "a = x" "b < y" | "a = x" "y < b" | "a = x" "b = y"
    by linarith
  then show ?thesis
  proof cases
    case 1
    with assms have "?l < ?r" by linarith
    with 1 show ?thesis by blast
  next
    case 2
    with assms have "\<not> ?l < ?r" by linarith
    with 2 show ?thesis by (metis less_asym less_irrefl)
  next
    case 3
    with assms have "?l < ?r" by linarith
    with 3 show ?thesis by blast
  next
    case 4
    with assms have "\<not> ?l < ?r" by linarith
    with 4 show ?thesis by (metis less_asym less_irrefl)
  qed simp
qed

lemma to_digit_less_iff:
  assumes "digit_safe v" "digit_safe w"
  shows "to_digit v < to_digit w \<longleftrightarrow> v < w"
proof -
  have "to_digit v < to_digit w \<longleftrightarrow>
    unat (major v) < unat (major w) \<or> unat (major v) = unat (major w) \<and>
    (unat (minor v) < unat (minor w) \<or> unat (minor v) = unat (minor w) \<and>
     unat (patch v) < unat (patch w))"
    using assms unfolding word_less_nat_alt unat_to_digit [OF assms(1)] unat_to_digit [OF assms(2)]
    by (intro mixed_radix_less) (simp_all add: digit_safe_def)
  then show ?thesis by (simp add: less_version_def word_less_nat_alt word_unat_eq_iff)
qed

lemma from_digit_to_digit:
  assumes "digit_safe v"
  shows "from_digit (to_digit v) = v"
proof -
  have "\<not> from_digit (to_digit v) < v" "\<not> v < from_digit (to_digit v)"
    using to_digit_less_iff [OF digit_safe_from_digit assms, of "to_digit v"]
      to_digit_less_iff [OF assms digit_safe_from_digit, of "to_digit v"]
    by (simp_all add: to_digit_from_digit)
  then show ?thesis by simp
qed

section \<open>Compatible ranges\<close>

text \<open>A specification in which both sides know every feature, as \<open>build\<close> asserts.\<close>

locale complete_spec =
  fixes all :: "'f list" and spec :: "'f feature_spec"
  assumes server_complete: "assert_all_features all (server_features spec)"
    and client_complete: "assert_all_features all (client_features spec)"
begin

lemma spans:
  assumes "f \<in> set all"
  obtains c s where "client_features spec f = Some c" "server_features spec f = Some s"
  using assms server_complete client_complete
  by (auto simp: assert_all_features_def list_all_iff dest!: bspec)

lemma server_range_loop_exact:
  "set fs \<subseteq> set all \<Longrightarrow>
   \<exists>lo' hi'. server_range_loop spec cv fs lo hi = Some (lo', hi') \<and>
     (\<forall>v. lo' \<le> v \<and> v < hi' \<longleftrightarrow> lo \<le> v \<and> v < hi \<and> serves fs spec v cv)"
proof (induction fs arbitrary: lo hi)
  case (Cons f fs)
  from Cons.prems obtain c s where [simp]:
    "client_features spec f = Some c" "server_features spec f = Some s"
    by (auto elim: spans)
  have step: "serves (f # fs) spec v cv \<longleftrightarrow>
      (is_active_at c cv \<longrightarrow> is_active_at s v) \<and> serves fs spec v cv" for v
    by (simp add: serves_def active_def)
  show ?case
  proof (cases "is_active_at c cv")
    case True
    with Cons.IH [of "max lo (since s)" "min hi (until s)"] Cons.prems show ?thesis
      by (auto simp: step is_active_at_def [of s])
  next
    case False
    with Cons.IH [of lo hi] Cons.prems show ?thesis by (auto simp: step)
  qed
qed (simp add: serves_def)

lemma server_range_exact:
  "\<exists>lo hi. compatible_server_range all spec cv = Some (lo, hi) \<and>
    (\<forall>sv. lo \<le> sv \<and> sv < hi \<longleftrightarrow> sv < version_max \<and> serves all spec sv cv)"
  using server_range_loop_exact [of all cv version_min version_max]
  by (simp add: compatible_server_range_def)

lemma client_range_loop_sound:
  "set fs \<subseteq> set all \<Longrightarrow>
   \<exists>lo' hi'. client_range_loop spec sv fs lo hi = Some (lo', hi') \<and>
     (\<forall>v < version_max. lo' \<le> v \<and> v < hi' \<longrightarrow> lo \<le> v \<and> v < hi \<and> serves fs spec sv v)"
proof (induction fs arbitrary: lo hi)
  case (Cons f fs)
  from Cons.prems obtain c s where [simp]:
    "client_features spec f = Some c" "server_features spec f = Some s"
    by (auto elim: spans)
  have step: "serves (f # fs) spec sv v \<longleftrightarrow>
      (is_active_at c v \<longrightarrow> is_active_at s sv) \<and> serves fs spec sv v" for v
    by (simp add: serves_def active_def)
  consider "since c = version_max" | "since c \<noteq> version_max" "sv < since s"
    | "since c \<noteq> version_max" "\<not> sv < since s" "until s \<le> sv"
    | "since c \<noteq> version_max" "\<not> sv < since s" "\<not> until s \<le> sv"
    by blast
  then show ?case
  proof cases
    case 1
    with Cons.IH [of lo hi] Cons.prems show ?thesis
      by (auto simp: step is_active_at_def [of c])
  next
    case 2
    have "\<not> is_active_at c v" if "v < since c" for v
      using that by (auto simp: is_active_at_def)
    with 2 Cons.IH [of lo "min hi (since c)"] Cons.prems show ?thesis by (auto simp: step)
  next
    case 3
    have "\<not> is_active_at c v" if "until c \<le> v" for v
      using that by (auto simp: is_active_at_def)
    with 3 Cons.IH [of "max lo (until c)" hi] Cons.prems show ?thesis by (auto simp: step)
  next
    case 4
    then have "is_active_at s sv" by (auto simp: is_active_at_def)
    with 4 Cons.IH [of lo hi] Cons.prems show ?thesis by (auto simp: step)
  qed
qed (simp add: serves_def)

lemma client_range_sound:
  "\<exists>lo hi. compatible_client_range all spec sv = Some (lo, hi) \<and>
    (\<forall>cv. lo \<le> cv \<and> cv < hi \<longrightarrow> serves all spec sv cv)"
proof -
  obtain lo hi where r: "compatible_client_range all spec sv = Some (lo, hi)"
    and s: "\<forall>v < version_max. lo \<le> v \<and> v < hi \<longrightarrow> v < version_max \<and> serves all spec sv v"
    using client_range_loop_sound [of all sv version_min version_max]
    by (auto simp: compatible_client_range_def)
  have "cv < version_max" if "cv < hi" for cv
    using that le_version_max [of hi] by (rule less_le_trans)
  with r s show ?thesis by blast
qed

end

lemma build_complete_spec:
  assumes "build all v srv cli = Some spec"
  shows "complete_spec all spec"
  using assms by unfold_locales (auto simp: build_def split: if_splits)

section \<open>Properties\<close>

text \<open>
  Printing a version and parsing the text gives the version back, for all 64-bit
  components; the parser does not panic on it.
\<close>

theorem version_parse_display: "version_parse (version_display v) = Some v"
  by (cases v) (simp add: version_parse_def version_display_def)

text \<open>
  The integer encoding of versions.  Decoding inverts encoding in both directions and
  the order of the integers is the order of the versions, as long as minor and patch stay
  below 1000 and the encoding fits 64 bits.
\<close>

theorem version_digit_roundtrip:
  assumes "digit_safe v" "digit_safe w"
  shows "from_digit (to_digit v) = v \<and> to_digit (from_digit d) = d \<and>
    (to_digit v < to_digit w \<longleftrightarrow> v < w)"
  using assms by (simp add: from_digit_to_digit to_digit_from_digit to_digit_less_iff)

theorem version_digit_roundtrip_witness:
  "from_digit (to_digit (Version 260512 4 0)) = Version 260512 4 0 \<and>
   to_digit (from_digit 1002676) = 1002676 \<and>
   (to_digit (Version 260512 4 0) < to_digit (Version 260512 10 0) \<longleftrightarrow>
    Version 260512 4 0 < Version 260512 10 0)"
  by (rule version_digit_roundtrip) (simp_all add: digit_safe_def)

end
