(* ===== verification/Feature_Specs.thy ===== *)
theory Feature_Specs
  imports Versions
begin

text \<open>
  The feature histories of the crate \<open>common/version\<close>: the gRPC features between
  meta-client and meta-server (\<open>grpc_feat.rs\<close>, \<open>grpc_spec.rs\<close>), the raft features between
  nodes (\<open>raft_feat.rs\<close>, \<open>raft_spec.rs\<close>), the recorded changelog (\<open>grpc_changelog.rs\<close>)
  and the published minimal versions (\<open>lib.rs\<close>).  Each constructor \<open>new\<close> is a straight
  line of calls of \<open>add\<close>, \<open>add_optional\<close> and \<open>remove\<close>; the calls are listed in the order
  of the source and run from two empty maps.
\<close>

section \<open>Running a feature history\<close>

datatype side = Srv | Cli

datatype 'f call =
    Add side 'f version
  | AddOptional side 'f version
  | Remove side 'f version

fun on_side ::
  "side \<Rightarrow> ('f features \<Rightarrow> 'f features option) \<Rightarrow> 'f features \<times> 'f features \<Rightarrow>
   ('f features \<times> 'f features) option" where
  "on_side Srv g (srv, cli) = map_option (\<lambda>srv'. (srv', cli)) (g srv)"
| "on_side Cli g (srv, cli) = map_option (\<lambda>cli'. (srv, cli')) (g cli)"

fun run_call ::
  "bool \<Rightarrow> 'f call \<Rightarrow> 'f features \<times> 'f features \<Rightarrow> ('f features \<times> 'f features) option" where
  "run_call dbg (Add sd f v) m = on_side sd (\<lambda>fs. add dbg fs f v) m"
| "run_call dbg (AddOptional sd f v) m = on_side sd (\<lambda>fs. add_optional dbg fs f v) m"
| "run_call dbg (Remove sd f v) m = on_side sd (\<lambda>fs. remove dbg fs f v) m"

fun run_calls ::
  "bool \<Rightarrow> 'f call list \<Rightarrow> 'f features \<times> 'f features \<Rightarrow> ('f features \<times> 'f features) option" where
  "run_calls dbg [] m = Some m"
| "run_calls dbg (c # cs) m =
    (case run_call dbg c m of None \<Rightarrow> None | Some m' \<Rightarrow> run_calls dbg cs m')"

section \<open>gRPC features\<close>

datatype grpc_feature =
    KvApi | KvApiGetKv | KvApiMGetKv | KvApiListKv | KvReadV1 | Transaction
    | TransactionReplyError | TransactionPutWithTtl | TransactionPrevValue
    | TransactionRequestPrevValueFlag | TransactionConditionKeysPrefix
    | TransactionOperations | OperationAsIs | Export | ExportV1 | Watch | WatchInitialFlush
    | WatchResponseIsInit | MemberList | GetClusterStatus | GetClientInfo
    | PutResponseCurrent | FetchAddU64 | ExpireInMillis | PutSequential | ProposedAtMs
    | FetchIncreaseU64 | KvList | KvGetMany | KvTransaction | KvTransactionPutMatchSeq
    | RaftReplyError

definition grpc_all :: "grpc_feature list" where
  "grpc_all =
    [KvApi, KvApiGetKv, KvApiMGetKv, KvApiListKv, KvReadV1, Transaction,
     TransactionReplyError, TransactionPutWithTtl, TransactionPrevValue,
     TransactionRequestPrevValueFlag, TransactionConditionKeysPrefix,
     TransactionOperations, OperationAsIs, Export, ExportV1, Watch, WatchInitialFlush,
     WatchResponseIsInit, MemberList, GetClusterStatus, GetClientInfo, PutResponseCurrent,
     FetchAddU64, ExpireInMillis, PutSequential, ProposedAtMs, FetchIncreaseU64, KvList,
     KvGetMany, KvTransaction, KvTransactionPutMatchSeq, RaftReplyError]"

fun grpc_as_str :: "grpc_feature \<Rightarrow> rstring" where
  "grpc_as_str KvApi = ascii ''kv_api''"
| "grpc_as_str KvApiGetKv = ascii ''kv_api/get_kv''"
| "grpc_as_str KvApiMGetKv = ascii ''kv_api/mget_kv''"
| "grpc_as_str KvApiListKv = ascii ''kv_api/list_kv''"
| "grpc_as_str KvReadV1 = ascii ''kv_read_v1''"
| "grpc_as_str Transaction = ascii ''transaction''"
| "grpc_as_str TransactionReplyError = ascii ''transaction/reply_error''"
| "grpc_as_str TransactionPutWithTtl = ascii ''transaction/put_with_ttl''"
| "grpc_as_str TransactionPrevValue = ascii ''transaction/prev_value''"
| "grpc_as_str TransactionRequestPrevValueFlag = ascii ''transaction/request_prev_value_flag''"
| "grpc_as_str TransactionConditionKeysPrefix = ascii ''transaction/condition_keys_prefix''"
| "grpc_as_str TransactionOperations = ascii ''transaction/operations''"
| "grpc_as_str OperationAsIs = ascii ''operation/as_is''"
| "grpc_as_str Export = ascii ''export''"
| "grpc_as_str ExportV1 = ascii ''export_v1''"
| "grpc_as_str Watch = ascii ''watch''"
| "grpc_as_str WatchInitialFlush = ascii ''watch/initial_flush''"
| "grpc_as_str WatchResponseIsInit = ascii ''watch/init_flag''"
| "grpc_as_str MemberList = ascii ''member_list''"
| "grpc_as_str GetClusterStatus = ascii ''get_cluster_status''"
| "grpc_as_str GetClientInfo = ascii ''get_client_info''"
| "grpc_as_str PutResponseCurrent = ascii ''put_response/current''"
| "grpc_as_str FetchAddU64 = ascii ''fetch_add_u64''"
| "grpc_as_str ExpireInMillis = ascii ''expire_in_millis''"
| "grpc_as_str PutSequential = ascii ''put_sequential''"
| "grpc_as_str ProposedAtMs = ascii ''proposed_at_ms''"
| "grpc_as_str FetchIncreaseU64 = ascii ''fetch_increase_u64''"
| "grpc_as_str KvList = ascii ''kv_list''"
| "grpc_as_str KvGetMany = ascii ''kv_get_many''"
| "grpc_as_str KvTransaction = ascii ''kv_transaction''"
| "grpc_as_str KvTransactionPutMatchSeq = ascii ''kv_transaction/put_match_seq''"
| "grpc_as_str RaftReplyError = ascii ''raft_reply/error''"

text \<open>The calls of \<open>GrpcSpec::new\<close>, in three parts.\<close>

definition grpc_calls_2023 :: "grpc_feature call list" where
  "grpc_calls_2023 =
    [Add Srv OperationAsIs (Version 1 2 163),
     Add Srv KvApi (Version 1 2 163),
     Add Srv RaftReplyError (Version 1 2 163),
     Add Srv KvApiGetKv (Version 1 2 163),
     Add Srv KvApiMGetKv (Version 1 2 163),
     Add Srv KvApiListKv (Version 1 2 163),
     Add Srv KvReadV1 (Version 1 2 163),
     Add Srv TransactionRequestPrevValueFlag (Version 1 2 163),
     Add Cli OperationAsIs (Version 1 2 163),
     Add Cli KvApi (Version 1 2 163),
     Add Cli RaftReplyError (Version 1 2 163),
     Add Cli KvApiGetKv (Version 1 2 163),
     Add Cli KvApiMGetKv (Version 1 2 163),
     Add Cli KvApiListKv (Version 1 2 163),
     Add Cli TransactionRequestPrevValueFlag (Version 1 2 163),
     Add Cli KvReadV1 (Version 1 2 176),
     Add Srv Transaction (Version 1 2 258),
     Add Srv TransactionReplyError (Version 1 2 258),
     Add Srv TransactionPutWithTtl (Version 1 2 258),
     Add Cli TransactionReplyError (Version 1 2 258),
     Add Srv Export (Version 1 2 259),
     Add Srv Watch (Version 1 2 259),
     Add Srv MemberList (Version 1 2 259),
     Add Srv GetClusterStatus (Version 1 2 259),
     Add Srv GetClientInfo (Version 1 2 259),
     Add Cli Transaction (Version 1 2 259),
     Add Cli Export (Version 1 2 259),
     Add Cli Watch (Version 1 2 259),
     Add Cli MemberList (Version 1 2 259),
     Add Cli GetClusterStatus (Version 1 2 259),
     Add Cli GetClientInfo (Version 1 2 259),
     Remove Cli KvApiGetKv (Version 1 2 287),
     Remove Cli KvApiMGetKv (Version 1 2 287),
     Remove Cli KvApiListKv (Version 1 2 287)]"

definition grpc_calls_2024 :: "grpc_feature call list" where
  "grpc_calls_2024 =
    [Add Srv TransactionPrevValue (Version 1 2 304),
     Add Srv ExportV1 (Version 1 2 315),
     Add Cli TransactionPutWithTtl (Version 1 2 361),
     Remove Srv KvApiGetKv (Version 1 2 663),
     Remove Srv KvApiMGetKv (Version 1 2 663),
     Remove Srv KvApiListKv (Version 1 2 663),
     Remove Cli OperationAsIs (Version 1 2 663),
     Add Srv TransactionConditionKeysPrefix (Version 1 2 674),
     Add Srv TransactionOperations (Version 1 2 676),
     Remove Cli TransactionReplyError (Version 1 2 676),
     Add Srv WatchInitialFlush (Version 1 2 677),
     Add Cli WatchInitialFlush (Version 1 2 726),
     Add Cli WatchResponseIsInit (Version 1 2 726),
     Add Cli TransactionConditionKeysPrefix (Version 1 2 726),
     Add Cli TransactionOperations (Version 1 2 726),
     Add Srv WatchResponseIsInit (Version 1 2 736),
     Remove Srv TransactionReplyError (Version 1 2 755),
     Add Srv PutResponseCurrent (Version 1 2 756),
     Add Cli PutResponseCurrent (Version 1 2 756),
     Add Srv FetchAddU64 (Version 1 2 764),
     Add Srv ExpireInMillis (Version 1 2 770)]"

definition grpc_calls_2025 :: "grpc_feature call list" where
  "grpc_calls_2025 =
    [Add Srv PutSequential (Version 1 2 770),
     Add Cli FetchAddU64 (Version 1 2 821),
     Add Srv ProposedAtMs (Version 1 2 823),
     Remove Cli KvApi (Version 1 2 823),
     Add Srv FetchIncreaseU64 (Version 1 2 828),
     Add Srv KvList (Version 1 2 869),
     Add Srv KvGetMany (Version 1 2 869),
     Add Cli ExpireInMillis (Version 260205 0 0),
     Add Cli PutSequential (Version 260205 0 0),
     Add Cli KvGetMany (Version 260214 0 0),
     Add Cli TransactionPrevValue (Version 260214 0 0),
     Remove Cli TransactionRequestPrevValueFlag (Version 260214 0 0),
     Add Srv KvTransaction (Version 260217 0 0),
     Add Srv KvTransactionPutMatchSeq (Version 260217 0 0),
     Add Cli KvTransaction (Version 260217 0 0),
     Add Cli KvTransactionPutMatchSeq (Version 260217 0 0),
     Add Cli ExportV1 version_max,
     Add Cli ProposedAtMs version_max,
     Add Cli FetchIncreaseU64 version_max,
     Add Cli KvList version_max]"

definition grpc_spec_new :: "bool \<Rightarrow> version \<Rightarrow> grpc_feature feature_spec option" where
  "grpc_spec_new dbg v =
    (case run_calls dbg (grpc_calls_2023 @ grpc_calls_2024 @ grpc_calls_2025) (Map.empty, Map.empty) of
       None \<Rightarrow> None
     | Some (srv, cli) \<Rightarrow> build grpc_all v srv cli)"

section \<open>Raft features\<close>

datatype raft_feature =
    AppendEntries | Vote | VoteV001 | AppendV002 | SnapshotV003 | SnapshotV004
    | TransferLeader

definition raft_all :: "raft_feature list" where
  "raft_all =
    [AppendEntries, Vote, VoteV001, AppendV002, SnapshotV003, SnapshotV004, TransferLeader]"

fun raft_as_str :: "raft_feature \<Rightarrow> rstring" where
  "raft_as_str AppendEntries = ascii ''raft/append_entries''"
| "raft_as_str Vote = ascii ''raft/vote''"
| "raft_as_str VoteV001 = ascii ''raft/vote_v001''"
| "raft_as_str AppendV002 = ascii ''raft/append_v002''"
| "raft_as_str SnapshotV003 = ascii ''raft/snapshot_v003''"
| "raft_as_str SnapshotV004 = ascii ''raft/snapshot_v004''"
| "raft_as_str TransferLeader = ascii ''raft/transfer_leader''"

definition raft_calls :: "raft_feature call list" where
  "raft_calls =
    [Add Srv AppendEntries (Version 0 0 120),
     Add Srv Vote (Version 0 0 120),
     Add Cli AppendEntries (Version 0 0 120),
     Add Cli Vote (Version 0 0 120),
     Add Srv SnapshotV003 (Version 1 2 547),
     AddOptional Cli SnapshotV003 (Version 1 2 547),
     Add Cli SnapshotV003 (Version 1 2 769),
     Add Srv TransferLeader (Version 1 2 599),
     AddOptional Cli TransferLeader (Version 1 2 599),
     Add Srv VoteV001 (Version 1 2 777),
     AddOptional Cli VoteV001 (Version 1 2 777),
     Add Srv SnapshotV004 (Version 1 2 818),
     AddOptional Cli SnapshotV004 (Version 1 2 818),
     Add Srv AppendV002 (Version 260512 0 0),
     AddOptional Cli AppendV002 (Version 260512 0 0)]"

definition raft_spec_new :: "bool \<Rightarrow> version \<Rightarrow> raft_feature feature_spec option" where
  "raft_spec_new dbg v =
    (case run_calls dbg raft_calls (Map.empty, Map.empty) of
       None \<Rightarrow> None
     | Some (srv, cli) \<Rightarrow> build raft_all v srv cli)"

definition compatible_peer_range ::
  "raft_feature feature_spec \<Rightarrow> version \<Rightarrow> (version \<times> version) option" where
  "compatible_peer_range spec nv =
    (case (compatible_server_range raft_all spec nv, compatible_client_range raft_all spec nv) of
       (Some (server_lo, server_hi), Some (client_lo, client_hi)) \<Rightarrow>
         Some (max server_lo client_lo, min server_hi client_hi)
     | _ \<Rightarrow> None)"

section \<open>Published versions and changelog\<close>

definition MIN_CLIENT_VERSION :: version where
  "MIN_CLIENT_VERSION = Version 1 2 676"

definition MIN_SERVER_VERSION :: version where
  "MIN_SERVER_VERSION = Version 260217 0 0"

definition MIN_RAFT_SERVER_VERSION :: version where
  "MIN_RAFT_SERVER_VERSION = Version 1 2 547"

definition MIN_RAFT_CLIENT_VERSION :: version where
  "MIN_RAFT_CLIENT_VERSION = Version 0 0 0"

record grpc_version_compat =
  min_client :: version
  min_server :: version

text \<open>A \<open>BTreeMap\<close> built by insertions in ascending order of the key.\<close>

definition grpc_changelog :: "(version \<times> grpc_version_compat) list" where
  "grpc_changelog =
    [(Version 260205 0 0, \<lparr>min_client = Version 1 2 676, min_server = Version 1 2 770\<rparr>),
     (Version 260214 0 0, \<lparr>min_client = Version 1 2 676, min_server = Version 1 2 869\<rparr>),
     (Version 260217 0 0, \<lparr>min_client = Version 1 2 676, min_server = Version 260217 0 0\<rparr>),
     (Version 260312 0 0, \<lparr>min_client = Version 1 2 676, min_server = Version 260217 0 0\<rparr>),
     (Version 260312 1 0, \<lparr>min_client = Version 1 2 676, min_server = Version 260217 0 0\<rparr>),
     (Version 260312 2 0, \<lparr>min_client = Version 1 2 676, min_server = Version 260217 0 0\<rparr>),
     (Version 260312 3 0, \<lparr>min_client = Version 1 2 676, min_server = Version 260217 0 0\<rparr>),
     (Version 260312 4 0, \<lparr>min_client = Version 1 2 676, min_server = Version 260217 0 0\<rparr>),
     (Version 260312 5 0, \<lparr>min_client = Version 1 2 676, min_server = Version 260217 0 0\<rparr>),
     (Version 260312 6 0, \<lparr>min_client = Version 1 2 676, min_server = Version 260217 0 0\<rparr>),
     (Version 260312 7 0, \<lparr>min_client = Version 1 2 676, min_server = Version 260217 0 0\<rparr>),
     (Version 260312 8 0, \<lparr>min_client = Version 1 2 676, min_server = Version 260217 0 0\<rparr>),
     (Version 260312 9 0, \<lparr>min_client = Version 1 2 676, min_server = Version 260217 0 0\<rparr>),
     (Version 260312 10 0, \<lparr>min_client = Version 1 2 676, min_server = Version 260217 0 0\<rparr>),
     (Version 260428 0 0, \<lparr>min_client = Version 1 2 676, min_server = Version 260217 0 0\<rparr>),
     (Version 260428 1 0, \<lparr>min_client = Version 1 2 676, min_server = Version 260217 0 0\<rparr>),
     (Version 260428 2 0, \<lparr>min_client = Version 1 2 676, min_server = Version 260217 0 0\<rparr>),
     (Version 260428 3 0, \<lparr>min_client = Version 1 2 676, min_server = Version 260217 0 0\<rparr>),
     (Version 260512 0 0, \<lparr>min_client = Version 1 2 676, min_server = Version 260217 0 0\<rparr>),
     (Version 260512 1 0, \<lparr>min_client = Version 1 2 676, min_server = Version 260217 0 0\<rparr>),
     (Version 260512 2 0, \<lparr>min_client = Version 1 2 676, min_server = Version 260217 0 0\<rparr>),
     (Version 260512 3 0, \<lparr>min_client = Version 1 2 676, min_server = Version 260217 0 0\<rparr>),
     (Version 260512 4 0, \<lparr>min_client = Version 1 2 676, min_server = Version 260217 0 0\<rparr>)]"

section \<open>Debug assertions\<close>

text \<open>Where the debug assertions hold, a release build computes the same maps.\<close>

lemma add_release:
  "add True fs f v = Some r \<Longrightarrow> add dbg fs f v = Some r"
  "add_optional True fs f v = Some r \<Longrightarrow> add_optional dbg fs f v = Some r"
  "remove True fs f v = Some r \<Longrightarrow> remove dbg fs f v = Some r"
  by (simp_all add: add_def add_optional_def remove_def Let_def split: if_splits)

lemma on_side_mono:
  "on_side sd g m = Some r \<Longrightarrow> (\<And>x y. g x = Some y \<Longrightarrow> h x = Some y) \<Longrightarrow> on_side sd h m = Some r"
  by (cases sd; cases m) auto

lemma run_call_release: "run_call True c m = Some r \<Longrightarrow> run_call dbg c m = Some r"
  by (cases c) (simp_all, (erule on_side_mono, erule add_release)+)

lemma run_calls_release: "run_calls True cs m = Some r \<Longrightarrow> run_calls dbg cs m = Some r"
  by (induction cs arbitrary: m) (auto split: option.splits dest!: run_call_release [of _ _ _ dbg])

section \<open>Both histories build\<close>

definition grpc_maps :: "grpc_feature features \<times> grpc_feature features" where
  "grpc_maps =
    the (run_calls True (grpc_calls_2023 @ grpc_calls_2024 @ grpc_calls_2025) (Map.empty, Map.empty))"

definition raft_maps :: "raft_feature features \<times> raft_feature features" where
  "raft_maps = the (run_calls True raft_calls (Map.empty, Map.empty))"

lemma grpc_run_total:
  "case run_calls True (grpc_calls_2023 @ grpc_calls_2024 @ grpc_calls_2025) (Map.empty, Map.empty) of
     None \<Rightarrow> False
   | Some (srv, cli) \<Rightarrow> assert_all_features grpc_all srv \<and> assert_all_features grpc_all cli"
  by code_simp

lemma grpc_run:
  "run_calls dbg (grpc_calls_2023 @ grpc_calls_2024 @ grpc_calls_2025) (Map.empty, Map.empty) = Some grpc_maps"
  by (rule run_calls_release) (use grpc_run_total in \<open>simp add: grpc_maps_def split: option.splits\<close>)

lemma grpc_maps_complete:
  "assert_all_features grpc_all (fst grpc_maps)" "assert_all_features grpc_all (snd grpc_maps)"
  using grpc_run_total unfolding grpc_run by (simp_all add: case_prod_beta)

lemma grpc_spec_new_eq:
  "grpc_spec_new dbg v =
   Some \<lparr>spec_version = v, server_features = fst grpc_maps, client_features = snd grpc_maps\<rparr>"
  by (simp add: grpc_spec_new_def grpc_run build_def grpc_maps_complete case_prod_beta)

lemma raft_run_total:
  "case run_calls True raft_calls (Map.empty, Map.empty) of
     None \<Rightarrow> False
   | Some (srv, cli) \<Rightarrow> assert_all_features raft_all srv \<and> assert_all_features raft_all cli"
  by code_simp

lemma raft_run:
  "run_calls dbg raft_calls (Map.empty, Map.empty) = Some raft_maps"
  by (rule run_calls_release) (use raft_run_total in \<open>simp add: raft_maps_def split: option.splits\<close>)

lemma raft_maps_complete:
  "assert_all_features raft_all (fst raft_maps)" "assert_all_features raft_all (snd raft_maps)"
  using raft_run_total unfolding raft_run by (simp_all add: case_prod_beta)

lemma raft_spec_new_eq:
  "raft_spec_new dbg v =
   Some \<lparr>spec_version = v, server_features = fst raft_maps, client_features = snd raft_maps\<rparr>"
  by (simp add: raft_spec_new_def raft_run build_def raft_maps_complete case_prod_beta)

text \<open>So the build profile does not matter, and evaluation may assume debug assertions.\<close>

lemma spec_new_dbg:
  "grpc_spec_new dbg = grpc_spec_new True" "raft_spec_new dbg = raft_spec_new True"
  by (rule ext, simp add: grpc_spec_new_eq raft_spec_new_eq)+

interpretation grpc: complete_spec grpc_all "the (grpc_spec_new dbg v)" for dbg v
  by unfold_locales (simp_all add: grpc_spec_new_eq grpc_maps_complete)

interpretation raft: complete_spec raft_all "the (raft_spec_new dbg v)" for dbg v
  by unfold_locales (simp_all add: raft_spec_new_eq raft_maps_complete)

section \<open>Properties\<close>

text \<open>
  \<open>GrpcSpec::new\<close> and \<open>RaftSpec::new\<close> never panic: every debug assertion of the
  feature history holds, every feature is present on both sides, and a build with debug
  assertions computes the same specification as one without.
\<close>

theorem spec_new_total:
  "(\<exists>spec. grpc_spec_new True v = Some spec \<and> grpc_spec_new False v = Some spec) \<and>
   (\<exists>spec. raft_spec_new True v = Some spec \<and> raft_spec_new False v = Some spec)"
  by (simp add: grpc_spec_new_eq raft_spec_new_eq)

text \<open>
  C32: \<open>compatible_server_range\<close> is exact.  For every specification that \<open>build\<close> accepts the
  computation returns a range, and a server version below the maximal one is in it if and
  only if that server provides every feature the client uses.
\<close>

theorem compatible_server_range_exact:
  assumes "build all v srv cli = Some spec"
  shows "\<exists>lo hi. compatible_server_range all spec cv = Some (lo, hi) \<and>
    (\<forall>sv. (lo \<le> sv \<and> sv < hi) = (sv < version_max \<and> serves all spec sv cv))"
  using complete_spec.server_range_exact [OF build_complete_spec [OF assms]] .

theorem compatible_server_range_exact_witness:
  "\<exists>lo hi. compatible_server_range grpc_all (the (grpc_spec_new True (Version 260512 4 0)))
      (Version 1 2 800) = Some (lo, hi) \<and>
    (\<forall>sv. (lo \<le> sv \<and> sv < hi) =
      (sv < version_max \<and> serves grpc_all (the (grpc_spec_new True (Version 260512 4 0))) sv (Version 1 2 800)))"
proof (rule compatible_server_range_exact)
  show "build grpc_all (Version 260512 4 0) (fst grpc_maps) (snd grpc_maps) =
    Some (the (grpc_spec_new True (Version 260512 4 0)))"
    by (simp add: grpc_spec_new_eq build_def grpc_maps_complete)
qed

text \<open>
  C33: \<open>compatible_client_range\<close> is sound.  For every specification that \<open>build\<close> accepts the
  computation returns a range, and every client version in it only uses features that the
  server provides.
\<close>

theorem compatible_client_range_sound:
  assumes "build all v srv cli = Some spec"
  shows "\<exists>lo hi. compatible_client_range all spec sv = Some (lo, hi) \<and>
    (\<forall>cv. lo \<le> cv \<and> cv < hi \<longrightarrow> serves all spec sv cv)"
  using complete_spec.client_range_sound [OF build_complete_spec [OF assms]] .

theorem compatible_client_range_sound_witness:
  "\<exists>lo hi. compatible_client_range grpc_all (the (grpc_spec_new True (Version 260512 4 0)))
      (Version 1 2 760) = Some (lo, hi) \<and>
    (\<forall>cv. lo \<le> cv \<and> cv < hi \<longrightarrow>
      serves grpc_all (the (grpc_spec_new True (Version 260512 4 0))) (Version 1 2 760) cv)"
proof (rule compatible_client_range_sound)
  show "build grpc_all (Version 260512 4 0) (fst grpc_maps) (snd grpc_maps) =
    Some (the (grpc_spec_new True (Version 260512 4 0)))"
    by (simp add: grpc_spec_new_eq build_def grpc_maps_complete)
qed

text \<open>
  C34: a raft peer in \<open>compatible_peer_range\<close> works in both directions: as a server for this
  node's requests and as a client of this node.
\<close>

theorem compatible_peer_range_mutual:
  "\<exists>spec lo hi. raft_spec_new dbg v = Some spec \<and>
    compatible_peer_range spec nv = Some (lo, hi) \<and>
    (\<forall>pv. lo \<le> pv \<and> pv < hi \<longrightarrow> serves raft_all spec pv nv \<and> serves raft_all spec nv pv)"
proof -
  let ?spec = "the (raft_spec_new dbg v)"
  obtain slo shi where s: "compatible_server_range raft_all ?spec nv = Some (slo, shi)"
    "\<forall>sv. slo \<le> sv \<and> sv < shi \<longleftrightarrow> sv < version_max \<and> serves raft_all ?spec sv nv"
    using raft.server_range_exact by blast
  obtain clo chi where c: "compatible_client_range raft_all ?spec nv = Some (clo, chi)"
    "\<forall>cv. clo \<le> cv \<and> cv < chi \<longrightarrow> serves raft_all ?spec nv cv"
    using raft.client_range_sound by blast
  have "raft_spec_new dbg v = Some ?spec" by (simp add: raft_spec_new_eq)
  moreover have "compatible_peer_range ?spec nv = Some (max slo clo, min shi chi)"
    by (simp add: compatible_peer_range_def s(1) c(1))
  moreover have "\<forall>pv. max slo clo \<le> pv \<and> pv < min shi chi \<longrightarrow>
      serves raft_all ?spec pv nv \<and> serves raft_all ?spec nv pv"
    using s(2) c(2) by auto
  ultimately show ?thesis by blast
qed

theorem compatible_peer_range_mutual_witness:
  "\<exists>spec lo hi. raft_spec_new True (Version 260512 4 0) = Some spec \<and>
    compatible_peer_range spec (Version 1 2 800) = Some (lo, hi) \<and>
    (\<forall>pv. lo \<le> pv \<and> pv < hi \<longrightarrow>
      serves raft_all spec pv (Version 1 2 800) \<and> serves raft_all spec (Version 1 2 800) pv)"
  by (rule compatible_peer_range_mutual)

text \<open>
  The published minimal versions are the ones the feature histories give for the
  version 260512.4.0 of this tree.
\<close>

theorem published_min_versions:
  "Option.bind (grpc_spec_new dbg (Version 260512 4 0)) (min_compatible_client_version grpc_all)
     = Some MIN_CLIENT_VERSION \<and>
   Option.bind (grpc_spec_new dbg (Version 260512 4 0)) (min_compatible_server_version grpc_all)
     = Some MIN_SERVER_VERSION \<and>
   Option.bind (raft_spec_new dbg (Version 260512 4 0)) (min_compatible_client_version raft_all)
     = Some MIN_RAFT_CLIENT_VERSION \<and>
   Option.bind (raft_spec_new dbg (Version 260512 4 0)) (min_compatible_server_version raft_all)
     = Some MIN_RAFT_SERVER_VERSION"
  unfolding spec_new_dbg [of dbg] by (intro conjI) code_simp+

text \<open>
  The changelog agrees with the feature history.  For every recorded package version
  the minimal client and the minimal server computed at that version are the recorded ones.
\<close>

theorem changelog_matches_history:
  "map (\<lambda>(v, c). (Option.bind (grpc_spec_new dbg v) (min_compatible_client_version grpc_all),
                 Option.bind (grpc_spec_new dbg v) (min_compatible_server_version grpc_all)))
     grpc_changelog =
   map (\<lambda>(v, c). (Some (min_client c), Some (min_server c))) grpc_changelog"
  unfolding spec_new_dbg [of dbg] by code_simp

end
