(* ===== verification/Handshake.thy ===== *)
theory Handshake
  imports Feature_Specs
begin

text \<open>
  The version handshake that opens every client connection: the server side
  \<open>MetaServiceImpl::handshake\<close> (\<open>grpc_service.rs\<close>) and the client side \<open>handshake\<close>
  (\<open>grpc_client.rs\<close>).  The protobuf coding of the credentials and the creation of the
  token are library calls and are arguments; the connection is a function from a request to
  the stream of responses.
\<close>

section \<open>Messages\<close>

record handshake_request =
  req_protocol_version :: u64
  req_payload :: bytes

record handshake_response =
  resp_protocol_version :: u64
  resp_payload :: bytes

record basic_auth =
  username :: rstring
  password :: rstring

datatype status = Internal | InvalidArgument | Unauthenticated

datatype handshake_error =
  FailEncode | ConnectionFailure | ReturnedNothing | VersionMismatch version version

section \<open>Server\<close>

text \<open>
  \<open>decode\<close> is \<open>BasicAuth::decode\<close>, \<open>create_token\<close> is \<open>try_create_token\<close> followed by the
  conversion to bytes, \<open>server_version\<close> is \<open>self.version\<close> and the last argument is the
  first item of the request stream.
\<close>

definition server_handshake ::
  "(bytes \<Rightarrow> basic_auth option) \<Rightarrow> (rstring \<Rightarrow> bytes option) \<Rightarrow> version \<Rightarrow>
   (status + handshake_request) option \<Rightarrow> status + handshake_response" where
  "server_handshake decode create_token server_version first =
    rbind (ok_or Internal first) (\<lambda>item. rbind item (\<lambda>req.
      let min_compatible = to_digit MIN_CLIENT_VERSION in
      if 0 < req_protocol_version req \<and> req_protocol_version req < min_compatible
      then Inl InvalidArgument
      else rbind (ok_or Internal (decode (req_payload req))) (\<lambda>auth.
        if username auth = ascii ''root''
        then rbind (ok_or Internal (create_token (ascii ''root''))) (\<lambda>token.
          Inr \<lparr>resp_protocol_version = to_digit server_version, resp_payload = token\<rparr>)
        else Inl Unauthenticated)))"

section \<open>Client\<close>

text \<open>
  \<open>encode\<close> is \<open>BasicAuth::encode\<close> and \<open>rpc\<close> the call of the server.  The outer \<open>None\<close> is
  the panic of the assertion on a server that reports version 0.
\<close>

definition client_handshake ::
  "(basic_auth \<Rightarrow> bytes option) \<Rightarrow> (handshake_request \<Rightarrow> status + (status + handshake_response) list) \<Rightarrow>
   version \<Rightarrow> version \<Rightarrow> rstring \<Rightarrow> rstring \<Rightarrow> (handshake_error + bytes \<times> u64) option" where
  "client_handshake encode rpc client_version required_server_version user pass =
    (case encode \<lparr>username = user, password = pass\<rparr> of
       None \<Rightarrow> Some (Inl FailEncode)
     | Some payload \<Rightarrow>
       (case rpc \<lparr>req_protocol_version = to_digit client_version, req_payload = payload\<rparr> of
          Inl st \<Rightarrow> Some (Inl ConnectionFailure)
        | Inr [] \<Rightarrow> Some (Inl ReturnedNothing)
        | Inr (Inl st # rest) \<Rightarrow> Some (Inl ConnectionFailure)
        | Inr (Inr resp # rest) \<Rightarrow>
          if \<not> 0 < resp_protocol_version resp then None
          else
            let server_version = from_digit (resp_protocol_version resp) in
            if server_version < required_server_version
            then Some (Inl (VersionMismatch server_version required_server_version))
            else Some (Inr (resp_payload resp, resp_protocol_version resp))))"

text \<open>A client connected to a server: the request is the only item of the request stream.\<close>

definition connected ::
  "(bytes \<Rightarrow> basic_auth option) \<Rightarrow> (rstring \<Rightarrow> bytes option) \<Rightarrow> version \<Rightarrow>
   handshake_request \<Rightarrow> status + (status + handshake_response) list" where
  "connected decode create_token server_version req =
    rmap (\<lambda>resp. [Inr resp]) (server_handshake decode create_token server_version (Some (Inr req)))"

section \<open>Properties\<close>

lemma digit_safe_min_client: "digit_safe MIN_CLIENT_VERSION"
  by (simp add: digit_safe_def MIN_CLIENT_VERSION_def)

lemma to_digit_pos_iff: "digit_safe v \<Longrightarrow> 0 < to_digit v \<longleftrightarrow> v \<noteq> version_min"
  by (cases v) (auto simp: word_less_nat_alt unat_to_digit version_min_def unat_gt_0 word_gt_0)

text \<open>
  The server's test on the encoded version is the test on versions.  A request whose
  integer is not 0 is refused as incompatible exactly when the version it encodes is below
  the published minimal client version.
\<close>

theorem server_handshake_version_check:
  "(server_handshake decode create_token sv (Some (Inr req)) = Inl InvalidArgument) =
   (req_protocol_version req \<noteq> 0 \<and> from_digit (req_protocol_version req) < MIN_CLIENT_VERSION)"
proof -
  have "req_protocol_version req < to_digit MIN_CLIENT_VERSION \<longleftrightarrow>
      from_digit (req_protocol_version req) < MIN_CLIENT_VERSION"
    using to_digit_less_iff [OF digit_safe_from_digit digit_safe_min_client]
    by (simp add: to_digit_from_digit)
  then show ?thesis
    by (auto simp: server_handshake_def word_gt_0 ok_or_def split: option.splits)
qed

text \<open>
  C35: a client connected to a server.  Assuming that decoding inverts encoding of the
  credentials and that a token can be made, the handshake succeeds exactly when the client
  reports no version or one not below the minimal client version, and the server is not
  below the version the client requires; otherwise the client gets the matching error.
\<close>

theorem handshake_outcome:
  assumes codec: "encode \<lparr>username = ascii ''root'', password = pass\<rparr> = Some payload"
      "decode payload = Some \<lparr>username = ascii ''root'', password = pass\<rparr>"
    and token: "create_token (ascii ''root'') = Some tok"
    and safe: "digit_safe cv" "digit_safe sv" "sv \<noteq> version_min"
  shows "client_handshake encode (connected decode create_token sv) cv required (ascii ''root'') pass =
    (if cv \<noteq> version_min \<and> cv < MIN_CLIENT_VERSION then Some (Inl ConnectionFailure)
     else if sv < required then Some (Inl (VersionMismatch sv required))
     else Some (Inr (tok, to_digit sv)))"
proof -
  have "0 < to_digit cv \<and> to_digit cv < to_digit MIN_CLIENT_VERSION \<longleftrightarrow>
      cv \<noteq> version_min \<and> cv < MIN_CLIENT_VERSION"
    using safe by (simp add: to_digit_pos_iff to_digit_less_iff digit_safe_min_client)
  then show ?thesis
    using safe to_digit_pos_iff [of sv]
    by (simp add: client_handshake_def connected_def server_handshake_def Let_def from_digit_to_digit
        codec [simplified] token [simplified])
qed

text \<open>The witness codes the credentials as the bytes of the password.\<close>

theorem handshake_outcome_witness:
  "client_handshake (\<lambda>a. Some (map word_of_nat (password a)))
     (connected (\<lambda>b. Some \<lparr>username = ascii ''root'', password = map unat b\<rparr>) (\<lambda>u. Some [7])
       (Version 260512 4 0))
     (Version 260512 4 0) MIN_SERVER_VERSION (ascii ''root'') (ascii ''xxx'') =
   Some (Inr ([7], 260512004000))"
proof -
  have "client_handshake (\<lambda>a. Some (map word_of_nat (password a)))
     (connected (\<lambda>b. Some \<lparr>username = ascii ''root'', password = map unat b\<rparr>) (\<lambda>u. Some [7])
       (Version 260512 4 0))
     (Version 260512 4 0) MIN_SERVER_VERSION (ascii ''root'') (ascii ''xxx'') =
    (if Version 260512 4 0 \<noteq> version_min \<and> Version 260512 4 0 < MIN_CLIENT_VERSION
     then Some (Inl ConnectionFailure)
     else if Version 260512 4 0 < MIN_SERVER_VERSION
     then Some (Inl (VersionMismatch (Version 260512 4 0) MIN_SERVER_VERSION))
     else Some (Inr ([7], to_digit (Version 260512 4 0))))"
    by (rule handshake_outcome [where payload = "[120, 120, 120]"])
      (simp_all add: digit_safe_def version_min_def)
  then show ?thesis
    by (simp add: MIN_CLIENT_VERSION_def MIN_SERVER_VERSION_def to_digit_def)
qed

end
