(* ===== verification/Base.thy ===== *)
theory Base
  imports Prelude
begin

text \<open>
  The base types of the server (crate \<open>server/base\<close>, repeated in \<open>client/base\<close>) and the
  command context of \<open>server/types\<close>: time points and intervals, value metadata, the upsert
  request, the change of a key, endpoints and nodes, and the non-user data of the state
  machine.

  \<open>SeqV\<close>, \<open>KVMeta\<close> and \<open>MatchSeq\<close> are data types of other crates; their fields and
  constructors are transcribed as the sources use them.  Functions of those crates are
  arguments: here \<open>seq_of\<close>, the sequence number of an optional value (\<open>SeqValue::seq\<close>).
\<close>

section \<open>Time\<close>

text \<open>A \<open>std::time::Duration\<close> is its number of nanoseconds.\<close>

type_synonym duration = nat

definition duration_from_millis :: "u64 \<Rightarrow> duration" where
  "duration_from_millis ms = unat ms * 1000000"

definition duration_from_secs :: "u64 \<Rightarrow> duration" where
  "duration_from_secs s = unat s * 1000000000"

definition duration_as_millis :: "duration \<Rightarrow> nat" where
  "duration_as_millis d = d div 1000000"

datatype interval = Interval (interval_millis: u64)

definition interval_from_duration :: "duration \<Rightarrow> interval" where
  "interval_from_duration d = Interval (word_of_nat (duration_as_millis d))"

definition interval_to_duration :: "interval \<Rightarrow> duration" where
  "interval_to_duration i = duration_from_millis (interval_millis i)"

definition interval_from_millis :: "u64 \<Rightarrow> interval" where
  "interval_from_millis ms = interval_from_duration (duration_from_millis ms)"

definition interval_from_secs :: "u64 \<Rightarrow> interval" where
  "interval_from_secs s = interval_from_duration (duration_from_secs s)"

definition interval_seconds :: "interval \<Rightarrow> u64" where
  "interval_seconds i = interval_millis i div 1000"

definition interval_add :: "interval \<Rightarrow> interval \<Rightarrow> interval" where
  "interval_add a b = Interval (sat_add (interval_millis a) (interval_millis b))"

definition interval_sub :: "interval \<Rightarrow> interval \<Rightarrow> interval" where
  "interval_sub a b = Interval (sat_sub (interval_millis a) (interval_millis b))"

datatype time = Time (time_interval: interval)

definition time_from_millis :: "u64 \<Rightarrow> time" where
  "time_from_millis ms = Time (interval_from_millis ms)"

definition time_from_secs :: "u64 \<Rightarrow> time" where
  "time_from_secs s = Time (interval_from_secs s)"

definition time_millis :: "time \<Rightarrow> u64" where
  "time_millis t = interval_millis (time_interval t)"

definition time_add :: "time \<Rightarrow> interval \<Rightarrow> time" where
  "time_add t i = Time (interval_add (time_interval t) i)"

definition time_sub :: "time \<Rightarrow> interval \<Rightarrow> time" where
  "time_sub t i = Time (interval_sub (time_interval t) i)"

definition time_diff :: "time \<Rightarrow> time \<Rightarrow> interval" where
  "time_diff a b = interval_sub (time_interval a) (time_interval b)"

text \<open>A timestamp in seconds or in milliseconds, told apart by its magnitude.\<close>

definition flexible_timestamp_to_duration :: "u64 \<Rightarrow> duration" where
  "flexible_timestamp_to_duration ts =
    (if 100000000000 < ts then duration_from_millis ts else duration_from_secs ts)"

section \<open>Values\<close>

record kvmeta =
  expire_at :: "u64 option"
  proposed_at_ms :: "u64 option"

record 'a seqv =
  sv_seq :: u64
  sv_meta :: "kvmeta option"
  sv_data :: 'a

datatype match_seq = MS_Any | MS_Exact u64 | MS_GE u64

section \<open>Metadata of a request\<close>

record meta_spec =
  ms_expire_at :: "u64 option"
  ms_ttl :: "interval option"

definition meta_spec_new :: "u64 option \<Rightarrow> interval option \<Rightarrow> meta_spec" where
  "meta_spec_new e t = \<lparr>ms_expire_at = e, ms_ttl = t\<rparr>"

definition meta_spec_new_expire :: "u64 \<Rightarrow> meta_spec" where
  "meta_spec_new_expire e = \<lparr>ms_expire_at = Some e, ms_ttl = None\<rparr>"

definition meta_spec_new_ttl :: "duration \<Rightarrow> meta_spec" where
  "meta_spec_new_ttl d = \<lparr>ms_expire_at = None, ms_ttl = Some (interval_from_duration d)\<rparr>"

section \<open>Upsert\<close>

datatype 'a operation = Update 'a | Delete | AsIs

record upsert_kv =
  ukv_key :: rstring
  ukv_seq :: match_seq
  ukv_value :: "bytes operation"
  ukv_value_meta :: "meta_spec option"

definition upsert_kv_new ::
  "rstring \<Rightarrow> match_seq \<Rightarrow> bytes operation \<Rightarrow> meta_spec option \<Rightarrow> upsert_kv" where
  "upsert_kv_new k s v m = \<lparr>ukv_key = k, ukv_seq = s, ukv_value = v, ukv_value_meta = m\<rparr>"

definition upsert_kv_insert :: "rstring \<Rightarrow> bytes \<Rightarrow> upsert_kv" where
  "upsert_kv_insert k v =
    \<lparr>ukv_key = k, ukv_seq = MS_Exact 0, ukv_value = Update v, ukv_value_meta = None\<rparr>"

definition upsert_kv_update :: "rstring \<Rightarrow> bytes \<Rightarrow> upsert_kv" where
  "upsert_kv_update k v =
    \<lparr>ukv_key = k, ukv_seq = MS_GE 0, ukv_value = Update v, ukv_value_meta = None\<rparr>"

definition upsert_kv_delete :: "rstring \<Rightarrow> upsert_kv" where
  "upsert_kv_delete k =
    \<lparr>ukv_key = k, ukv_seq = MS_GE 1, ukv_value = Delete, ukv_value_meta = None\<rparr>"

definition with_match_seq :: "upsert_kv \<Rightarrow> match_seq \<Rightarrow> upsert_kv" where
  "with_match_seq u s = u\<lparr>ukv_seq := s\<rparr>"

definition with_meta_spec :: "upsert_kv \<Rightarrow> meta_spec \<Rightarrow> upsert_kv" where
  "with_meta_spec u m = u\<lparr>ukv_value_meta := Some m\<rparr>"

definition with_expire_sec :: "upsert_kv \<Rightarrow> u64 \<Rightarrow> upsert_kv" where
  "with_expire_sec u e = with_meta_spec u (meta_spec_new_expire e)"

definition with_ttl :: "upsert_kv \<Rightarrow> duration \<Rightarrow> upsert_kv" where
  "with_ttl u d = with_meta_spec u (meta_spec_new_ttl d)"

section \<open>Change of a key\<close>

record ('t, 'id) change =
  ident :: "'id option"
  prev :: "'t seqv option"
  result :: "'t seqv option"

definition change_new :: "'t seqv option \<Rightarrow> 't seqv option \<Rightarrow> ('t, 'id) change" where
  "change_new p r = \<lparr>ident = None, prev = p, result = r\<rparr>"

definition change_map :: "('t, 'id) change \<Rightarrow> ('t seqv \<Rightarrow> 'u) \<Rightarrow> 'u option \<times> 'u option" where
  "change_map c f = (map_option f (prev c), map_option f (result c))"

definition is_changed :: "(u64 option \<Rightarrow> u64) \<Rightarrow> ('t, 'id) change \<Rightarrow> bool" where
  "is_changed seq_of c \<longleftrightarrow>
    seq_of (map_option sv_seq (prev c)) \<noteq> seq_of (map_option sv_seq (result c))"

definition unpack :: "('t, 'id) change \<Rightarrow> 't seqv option \<times> 't seqv option" where
  "unpack c = (prev c, result c)"

definition added_or_else ::
  "('t, 'id) change \<Rightarrow> ('t seqv \<Rightarrow> 'e) \<Rightarrow> 'e + 't seqv option" where
  "added_or_else c make_err =
    (case unpack c of (p, r) \<Rightarrow>
      (case p of Some p \<Rightarrow> Inl (make_err p) | None \<Rightarrow> Inr r))"

definition added_seq_or_else ::
  "(u64 option \<Rightarrow> u64) \<Rightarrow> ('t, 'id) change \<Rightarrow> ('t seqv \<Rightarrow> 'e) \<Rightarrow> 'e + u64" where
  "added_seq_or_else seq_of c make_err =
    (case unpack c of (p, r) \<Rightarrow>
      (case p of Some p \<Rightarrow> Inl (make_err p) | None \<Rightarrow> Inr (seq_of (map_option sv_seq r))))"

definition removed_or_else ::
  "('t, 'id) change \<Rightarrow> ('t seqv option \<Rightarrow> 'e) \<Rightarrow> 'e + 't seqv" where
  "removed_or_else c make_err =
    (case unpack c of (p, r) \<Rightarrow>
      if r = None then (case p of Some p \<Rightarrow> Inr p | None \<Rightarrow> Inl (make_err p))
      else Inl (make_err p))"

section \<open>Normalised metadata\<close>

definition seqv_normalize :: "'a seqv \<Rightarrow> 'a seqv" where
  "seqv_normalize v =
    (if sv_meta v = Some \<lparr>expire_at = None, proposed_at_ms = None\<rparr> then v\<lparr>sv_meta := None\<rparr> else v)"

definition seqv_without_proposed_at :: "'a seqv \<Rightarrow> 'a seqv" where
  "seqv_without_proposed_at v =
    seqv_normalize (v\<lparr>sv_meta := map_option (\<lambda>m. m\<lparr>proposed_at_ms := None\<rparr>) (sv_meta v)\<rparr>)"

definition change_normalize :: "('t, 'id) change \<Rightarrow> ('t, 'id) change" where
  "change_normalize c =
    \<lparr>ident = ident c, prev = map_option seqv_normalize (prev c),
     result = map_option seqv_normalize (result c)\<rparr>"

definition change_without_proposed_at :: "('t, 'id) change \<Rightarrow> ('t, 'id) change" where
  "change_without_proposed_at c =
    \<lparr>ident = ident c, prev = map_option seqv_without_proposed_at (prev c),
     result = map_option seqv_without_proposed_at (result c)\<rparr>"

section \<open>Endpoints and nodes\<close>

record endpoint =
  addr :: rstring
  port :: u16

definition endpoint_new :: "rstring \<Rightarrow> u16 \<Rightarrow> endpoint" where
  "endpoint_new a p = \<lparr>addr = a, port = p\<rparr>"

datatype endpoint_error = NoColon | BadPort

definition endpoint_parse :: "rstring \<Rightarrow> endpoint_error + endpoint" where
  "endpoint_parse address =
    (case splitn2 58 address of
       (a, None) \<Rightarrow> Inl NoColon
     | (a, Some b) \<Rightarrow> rbind (ok_or BadPort (parse_u16 b)) (\<lambda>p. Inr (endpoint_new a p)))"

definition endpoint_display :: "endpoint \<Rightarrow> rstring" where
  "endpoint_display e = addr e @ ascii '':'' @ show_nat (unat (port e))"

record node =
  node_name :: rstring
  node_endpoint :: endpoint
  grpc_api_addr :: "rstring option"
  grpc_api_advertise_address :: "rstring option"

definition node_new :: "rstring \<Rightarrow> endpoint \<Rightarrow> node" where
  "node_new n e =
    \<lparr>node_name = n, node_endpoint = e, grpc_api_addr = None, grpc_api_advertise_address = None\<rparr>"

definition with_grpc_advertise_address :: "node \<Rightarrow> rstring option \<Rightarrow> node" where
  "with_grpc_advertise_address n g = n\<lparr>grpc_api_advertise_address := g\<rparr>"

definition node_display :: "node \<Rightarrow> rstring" where
  "node_display n =
    (let grpc_addr_display =
       (case grpc_api_advertise_address n of Some a \<Rightarrow> a | None \<Rightarrow> [])
     in ascii ''id='' @ node_name n @ ascii '' raft='' @ endpoint_display (node_endpoint n)
        @ ascii '' grpc='' @ grpc_addr_display)"

section \<open>Raft identifiers\<close>

record log_id =
  li_term :: u64
  li_node_id :: u64
  li_index :: u64

definition new_log_id :: "u64 \<Rightarrow> u64 \<Rightarrow> u64 \<Rightarrow> log_id" where
  "new_log_id t n i = \<lparr>li_term = t, li_node_id = n, li_index = i\<rparr>"

text \<open>What the sources read of a raft membership: the voter sets and the node ids, ascending.\<close>

record membership =
  joint_config :: "u64 list list"
  member_nodes :: "u64 list"

record stored_membership =
  sm_log_id :: "log_id option"
  sm_membership :: membership

section \<open>Context of a command\<close>

text \<open>The I/O timers of the context only feed metrics and are left out.\<close>

record cmd_context =
  ctx_time :: time
  ctx_log_id :: log_id

definition from_millis_and_log_id :: "u64 \<Rightarrow> log_id \<Rightarrow> cmd_context" where
  "from_millis_and_log_id ms l = \<lparr>ctx_time = time_from_millis ms, ctx_log_id = l\<rparr>"

definition cmd_context_new :: "time \<Rightarrow> cmd_context" where
  "cmd_context_new t = \<lparr>ctx_time = t, ctx_log_id = new_log_id 0 0 0\<rparr>"

definition cmd_context_from_millis :: "u64 \<Rightarrow> cmd_context" where
  "cmd_context_from_millis ms = cmd_context_new (time_from_millis ms)"

definition resolve_meta_spec :: "cmd_context \<Rightarrow> meta_spec \<Rightarrow> kvmeta" where
  "resolve_meta_spec ctx spec =
    (let expire_at_ms =
       (case ms_ttl spec of
          Some ttl \<Rightarrow> Some (time_millis (time_add (ctx_time ctx) ttl))
        | None \<Rightarrow> ms_expire_at spec)
     in \<lparr>expire_at = expire_at_ms, proposed_at_ms = Some (time_millis (ctx_time ctx))\<rparr>)"

section \<open>Non-user data of the state machine\<close>

record sys_data =
  last_applied :: "log_id option"
  last_membership :: stored_membership
  nodes :: "u64 \<rightharpoonup> node"
  sequence :: u64
  data_seq :: "u64 option"
  key_counts :: "rstring \<rightharpoonup> u64"
  sm_features :: "rstring set"

definition curr_seq :: "sys_data \<Rightarrow> u64" where
  "curr_seq sd = sequence sd"

definition update_seq :: "u64 \<Rightarrow> sys_data \<Rightarrow> sys_data" where
  "update_seq s sd = sd\<lparr>sequence := s\<rparr>"

definition next_seq :: "sys_data \<Rightarrow> u64 \<times> sys_data" where
  "next_seq sd = (let s = sequence sd + 1 in (s, sd\<lparr>sequence := s\<rparr>))"

definition incr_data_seq :: "sys_data \<Rightarrow> u64 \<times> sys_data" where
  "incr_data_seq sd =
    (let v = (case data_seq sd of None \<Rightarrow> 0 | Some v \<Rightarrow> v)
     in (v + 1, sd\<lparr>data_seq := Some (v + 1)\<rparr>))"

definition feature_enabled :: "sys_data \<Rightarrow> rstring \<Rightarrow> bool" where
  "feature_enabled sd f \<longleftrightarrow> f \<in> sm_features sd"

section \<open>Lemmas\<close>

lemma interval_from_millis [simp]: "interval_millis (interval_from_millis ms) = ms"
  by (simp add: interval_from_millis_def interval_from_duration_def duration_from_millis_def
      duration_as_millis_def)

lemma time_from_millis [simp]: "time_millis (time_from_millis ms) = ms"
  by (simp add: time_from_millis_def time_millis_def)

lemma interval_duration_roundtrip [simp]: "interval_from_duration (interval_to_duration i) = i"
  by (cases i) (simp add: interval_from_duration_def interval_to_duration_def
      duration_from_millis_def duration_as_millis_def)

lemma seqv_normalize_idem [simp]: "seqv_normalize (seqv_normalize v) = seqv_normalize v"
  by (simp add: seqv_normalize_def)

lemma seqv_without_proposed_at_idem [simp]:
  "seqv_without_proposed_at (seqv_without_proposed_at v) = seqv_without_proposed_at v"
  by (cases "sv_meta v") (auto simp: seqv_without_proposed_at_def seqv_normalize_def)

lemma resolve_meta_spec_ttl:
  "ms_ttl spec = Some (Interval t) \<Longrightarrow>
   expire_at (resolve_meta_spec ctx spec) = Some (sat_add (time_millis (ctx_time ctx)) t)"
  by (simp add: resolve_meta_spec_def time_add_def interval_add_def time_millis_def)

lemma splitn2_fst_not_mem: "splitn2 c xs = (a, r) \<Longrightarrow> c \<notin> set a"
  by (induction xs arbitrary: a r) (auto split: if_splits prod.splits)

text \<open>
  An endpoint is read back from its text exactly when the address holds no colon; the
  parser splits at the first colon, so an address with one (a bare IPv6 address) is not
  read back.
\<close>

theorem endpoint_parse_display:
  "endpoint_parse (endpoint_display e) = Inr e \<longleftrightarrow> 58 \<notin> set (addr e)"
proof
  assume "58 \<notin> set (addr e)"
  then show "endpoint_parse (endpoint_display e) = Inr e"
    by (simp add: endpoint_parse_def endpoint_display_def endpoint_new_def)
next
  assume "endpoint_parse (endpoint_display e) = Inr e"
  then obtain b where "splitn2 58 (endpoint_display e) = (addr e, Some b)"
    by (auto simp: endpoint_parse_def endpoint_new_def split: prod.splits option.splits)
  then show "58 \<notin> set (addr e)" by (rule splitn2_fst_not_mem)
qed

end
