(* ===== verification/Codec.thy ===== *)
theory Codec
  imports Base
begin

text \<open>
  Textual keys and identifiers: the key spaces of the on-disk table
  (\<open>key_spaces_impl.rs\<close>, \<open>rotbl_codec.rs\<close>), the snapshot id (\<open>snapshot_id.rs\<close>), the right
  bound of a key prefix (\<open>utils.rs\<close>), the keys of sequential puts
  (\<open>put_sequential_ext.rs\<close>) and the key range of a watched directory (\<open>watch_ext.rs\<close>).
  Ranges over these keys are string ranges, so the properties are about order as much as
  about round trips.
\<close>

section \<open>Bytes of a string\<close>

definition utf8_width :: "nat \<Rightarrow> nat" where
  "utf8_width c = (if c < 0x80 then 1 else if c < 0x800 then 2 else if c < 0x10000 then 3 else 4)"

text \<open>\<open>str::len\<close> counts bytes.\<close>

definition utf8_len :: "rstring \<Rightarrow> nat" where
  "utf8_len s = sum_list (map utf8_width s)"

section \<open>Key spaces\<close>

text \<open>\<open>UserKey\<close> is its string; \<open>ExpireKey\<close> pairs the expiry time with the sequence number.\<close>

datatype expire_key = ExpireKey (time_ms: u64) (ek_seq: u64)

instantiation expire_key :: linorder
begin

definition less_eq_expire_key :: "expire_key \<Rightarrow> expire_key \<Rightarrow> bool" where
  "less_eq_expire_key a b \<longleftrightarrow>
    time_ms a < time_ms b \<or> time_ms a = time_ms b \<and> ek_seq a \<le> ek_seq b"

definition less_expire_key :: "expire_key \<Rightarrow> expire_key \<Rightarrow> bool" where
  "less_expire_key a b \<longleftrightarrow>
    time_ms a < time_ms b \<or> time_ms a = time_ms b \<and> ek_seq a < ek_seq b"

instance
  by intro_classes (auto simp: less_eq_expire_key_def less_expire_key_def intro: expire_key.expand)

end

definition user_key_prefix :: rstring where
  "user_key_prefix = ascii ''kv--''"

definition user_key_encode :: "rstring \<Rightarrow> rstring" where
  "user_key_encode k = k"

definition user_key_decode :: "rstring \<Rightarrow> rstring io_result" where
  "user_key_decode buf = Inr buf"

definition expire_key_prefix :: rstring where
  "expire_key_prefix = ascii ''exp-''"

definition expire_key_encode :: "expire_key \<Rightarrow> rstring" where
  "expire_key_encode k =
    pad0 20 (show_u64 (time_ms k)) @ ascii ''/'' @ pad0 20 (show_u64 (ek_seq k))"

definition expire_key_decode :: "rstring \<Rightarrow> expire_key io_result" where
  "expire_key_decode buf =
    (if utf8_len buf \<noteq> 41 then Inl InvalidData
     else
       case split_on 47 buf of
         [] \<Rightarrow> Inl InvalidData
       | [t] \<Rightarrow> Inl InvalidData
       | t # s # rest \<Rightarrow>
           if rest \<noteq> [] then Inl InvalidData
           else if utf8_len t \<noteq> 20 then Inl InvalidData
           else if utf8_len s \<noteq> 20 then Inl InvalidData
           else rbind (ok_or InvalidData (parse_u64 t)) (\<lambda>time_ms.
                rbind (ok_or InvalidData (parse_u64 s)) (\<lambda>seq.
                Inr (ExpireKey time_ms seq))))"

section \<open>Keys of the on-disk table\<close>

text \<open>
  The codec is generic over a key type with a prefix and an encoder; \<open>pre\<close> is \<open>K::PREFIX\<close>,
  \<open>enc\<close> is \<open>K::encode\<close> and \<open>dec\<close> is \<open>K::decode\<close>.
\<close>

datatype 'k bound = Included 'k | Excluded 'k | Unbounded

definition encode_key :: "rstring \<Rightarrow> ('k \<Rightarrow> rstring) \<Rightarrow> 'k \<Rightarrow> rstring" where
  "encode_key pre enc k = pre @ ascii ''/'' @ enc k"

fun encode_bound ::
  "rstring \<Rightarrow> ('k \<Rightarrow> rstring) \<Rightarrow> 'k bound \<Rightarrow> bool \<Rightarrow> rstring bound" where
  "encode_bound pre enc (Included k) left = Included (encode_key pre enc k)"
| "encode_bound pre enc (Excluded k) left = Excluded (encode_key pre enc k)"
| "encode_bound pre enc Unbounded left =
    (if left then Included (pre @ ascii ''/'') else Excluded (pre @ ascii ''0''))"

definition encode_range ::
  "rstring \<Rightarrow> ('k \<Rightarrow> rstring) \<Rightarrow> 'k bound \<times> 'k bound \<Rightarrow> rstring bound \<times> rstring bound" where
  "encode_range pre enc r = (encode_bound pre enc (fst r) True, encode_bound pre enc (snd r) False)"

definition decode_key ::
  "rstring \<Rightarrow> (rstring \<Rightarrow> 'k io_result) \<Rightarrow> rstring \<Rightarrow> 'k io_result" where
  "decode_key pre dec str_key =
    rbind (ok_or InvalidData (strip_prefix pre str_key)) (\<lambda>prefix_stripped.
    rbind (ok_or InvalidData (strip_prefix (ascii ''/'') prefix_stripped)) (\<lambda>key.
    rbind (dec key) (\<lambda>key. Inr key)))"

text \<open>\<open>RangeBounds::contains\<close>.\<close>

fun above :: "'k :: linorder bound \<Rightarrow> 'k \<Rightarrow> bool" where
  "above (Included l) k \<longleftrightarrow> l \<le> k"
| "above (Excluded l) k \<longleftrightarrow> l < k"
| "above Unbounded k \<longleftrightarrow> True"

fun below :: "'k :: linorder bound \<Rightarrow> 'k \<Rightarrow> bool" where
  "below (Included r) k \<longleftrightarrow> k \<le> r"
| "below (Excluded r) k \<longleftrightarrow> k < r"
| "below Unbounded k \<longleftrightarrow> True"

definition in_range :: "'k :: linorder bound \<times> 'k bound \<Rightarrow> 'k \<Rightarrow> bool" where
  "in_range r k \<longleftrightarrow> above (fst r) k \<and> below (snd r) k"

section \<open>Snapshot id\<close>

record meta_snapshot_id =
  snap_last_applied :: "log_id option"
  uniq :: u64
  key_num :: "u64 option"

definition snapshot_id_new :: "log_id option \<Rightarrow> u64 \<Rightarrow> meta_snapshot_id" where
  "snapshot_id_new l u = \<lparr>snap_last_applied = l, uniq = u, key_num = None\<rparr>"

definition with_key_num :: "meta_snapshot_id \<Rightarrow> u64 option \<Rightarrow> meta_snapshot_id" where
  "with_key_num i n = i\<lparr>key_num := n\<rparr>"

definition snapshot_id_display :: "meta_snapshot_id \<Rightarrow> rstring" where
  "snapshot_id_display i =
    (case snap_last_applied i of
       Some lid \<Rightarrow>
         show_u64 (li_term lid) @ ascii ''-'' @ show_u64 (li_node_id lid) @ ascii ''-'' @
         show_u64 (li_index lid) @ ascii ''-'' @ show_u64 (uniq i)
     | None \<Rightarrow> ascii ''---'' @ show_u64 (uniq i)) @
    (case key_num i of Some n \<Rightarrow> ascii ''-k'' @ show_u64 n | None \<Rightarrow> [])"

text \<open>The part of \<open>from_str\<close> after the segments have been taken; \<open>None\<close> is the error.\<close>

definition snapshot_id_parts ::
  "rstring \<Rightarrow> rstring \<Rightarrow> rstring \<Rightarrow> rstring \<Rightarrow> rstring option \<Rightarrow> meta_snapshot_id option" where
  "snapshot_id_parts term node_id log_index snapshot_index kn =
    (let log_id =
       (if term = [] then (if node_id = [] \<and> log_index = [] then Some None else None)
        else
          (case (parse_u64 term, parse_u64 node_id, parse_u64 log_index) of
             (Some t, Some n, Some i) \<Rightarrow> Some (Some (new_log_id t n i))
           | _ \<Rightarrow> None))
     in case log_id of None \<Rightarrow> None | Some log_id \<Rightarrow>
       (case parse_u64 snapshot_index of None \<Rightarrow> None | Some snapshot_index \<Rightarrow>
         (case kn of
            None \<Rightarrow>
              Some \<lparr>snap_last_applied = log_id, uniq = snapshot_index, key_num = None\<rparr>
          | Some num \<Rightarrow>
              (case strip_prefix (ascii ''k'') num of None \<Rightarrow> None | Some stripped \<Rightarrow>
                (case parse_u64 stripped of None \<Rightarrow> None | Some n \<Rightarrow>
                  Some \<lparr>snap_last_applied = log_id, uniq = snapshot_index, key_num = Some n\<rparr>)))))"

definition snapshot_id_from_str :: "rstring \<Rightarrow> meta_snapshot_id option" where
  "snapshot_id_from_str s =
    (case split_on 45 s of
       [term, node_id, log_index, snapshot_index] \<Rightarrow>
         snapshot_id_parts term node_id log_index snapshot_index None
     | [term, node_id, log_index, snapshot_index, kn] \<Rightarrow>
         snapshot_id_parts term node_id log_index snapshot_index (Some kn)
     | _ \<Rightarrow> None)"

section \<open>Right bound of a prefix\<close>

text \<open>The loop runs over the indices from the last one down; the argument is the index plus one.\<close>

fun right_bound_loop :: "rstring \<Rightarrow> nat \<Rightarrow> rstring option" where
  "right_bound_loop chars 0 = None"
| "right_bound_loop chars (Suc i) =
    (if chars ! i \<noteq> 0x10FFFF then
       (if is_scalar (chars ! i + 1) then Some (take (i + 1) (chars[i := chars ! i + 1]))
        else None)
     else right_bound_loop chars i)"

definition prefix_right_bound :: "rstring \<Rightarrow> rstring option" where
  "prefix_right_bound p = right_bound_loop p (length p)"

section \<open>Sequential keys\<close>

fun seq_number_loop :: "nat \<Rightarrow> rstring \<Rightarrow> rstring \<Rightarrow> rstring" where
  "seq_number_loop i [] acc = acc"
| "seq_number_loop i (c # cs) acc =
    seq_number_loop (i + 1) cs ((if 0 < i \<and> i mod 3 = 0 then acc @ ascii ''_'' else acc) @ [c])"

definition format_seq_number :: "u64 \<Rightarrow> rstring" where
  "format_seq_number n = seq_number_loop 0 (pad0 21 (show_u64 n)) []"

definition build_key :: "rstring \<Rightarrow> u64 \<Rightarrow> rstring" where
  "build_key pre n = pre @ format_seq_number n"

section \<open>Watched directories\<close>

datatype filter_type = FilterAll | FilterUpdate | FilterDelete

record watch_request =
  watch_key :: rstring
  watch_key_end :: "rstring option"
  watch_filter_type :: filter_type
  initial_flush :: bool

definition watch_new :: "rstring \<Rightarrow> rstring option \<Rightarrow> watch_request" where
  "watch_new k e =
    \<lparr>watch_key = k, watch_key_end = e, watch_filter_type = FilterAll, initial_flush = False\<rparr>"

definition trim_end :: "nat \<Rightarrow> rstring \<Rightarrow> rstring" where
  "trim_end c s = rev (dropWhile (\<lambda>x. x = c) (rev s))"

definition watch_new_dir :: "rstring \<Rightarrow> watch_request" where
  "watch_new_dir pre =
    (let p = trim_end 47 pre;
         left = p @ ascii ''/'';
         right = p @ ascii ''0''
     in watch_new left (Some right))"

definition with_filter :: "watch_request \<Rightarrow> filter_type \<Rightarrow> watch_request" where
  "with_filter w f = w\<lparr>watch_filter_type := f\<rparr>"

definition with_initial_flush :: "watch_request \<Rightarrow> bool \<Rightarrow> watch_request" where
  "with_initial_flush w b = w\<lparr>initial_flush := b\<rparr>"

section \<open>Intervals of strings\<close>

text \<open>The strings from \<open>p c\<close> up to \<open>p (c + 1)\<close> are the ones that start with \<open>p c\<close>.\<close>

lemma char_interval_iff_prefix:
  "(p @ [c] \<le> s \<and> s < p @ [Suc c]) = prefix (p @ [c]) s"
proof
  assume "prefix (p @ [c]) s"
  then show "p @ [c] \<le> s \<and> s < p @ [Suc c]"
    by (auto simp: prefix_imp_le prefix_def)
next
  assume r: "p @ [c] \<le> s \<and> s < p @ [Suc c]"
  moreover have "p @ [] < p @ [c]" by (simp only: append_less_cancel) simp
  ultimately have "p < s" by (simp add: order_less_le_trans)
  with r have "prefix p s" and next_char: "\<forall>x xs. s = p @ x # xs \<longrightarrow> x < Suc c"
    by (auto simp: less_snoc_iff)
  then obtain t where "s = p @ t" by (auto simp: prefix_def)
  with r next_char \<open>p < s\<close> show "prefix (p @ [c]) s" by (cases t) auto
qed

lemma slash_interval_iff_prefix:
  "(p @ ascii ''/'' \<le> s \<and> s < p @ ascii ''0'') = prefix (p @ ascii ''/'') s"
  using char_interval_iff_prefix [of p 47 s] by simp

section \<open>Key space lemmas\<close>

lemma utf8_len_digits: "list_all is_digit s \<Longrightarrow> utf8_len s = length s"
  by (induction s) (auto simp: utf8_len_def utf8_width_def is_digit_def)

lemma utf8_len_Cons [simp]: "utf8_len (c # s) = utf8_width c + utf8_len s"
  by (simp add: utf8_len_def)

lemma utf8_len_append [simp]: "utf8_len (a @ b) = utf8_len a + utf8_len b"
  by (simp add: utf8_len_def)

lemma utf8_len_pad0 [simp]: "20 \<le> k \<Longrightarrow> utf8_len (pad0 k (show_u64 w)) = k"
  using pad0_digits [of k "unat w"] by (simp add: utf8_len_digits show_u64_def [symmetric])

lemma expire_key_decode_encode: "expire_key_decode (expire_key_encode k) = Inr k"
  by (cases k) (simp add: expire_key_decode_def expire_key_encode_def utf8_width_def)

lemma expire_key_encode_less: "(expire_key_encode a < expire_key_encode b) = (a < b)"
  by (auto simp: expire_key_encode_def less_expire_key_def append_less_same_length
      pad0_u64_less_iff)

lemma encode_key_less:
  "(encode_key pre enc a < encode_key pre enc b) = (enc a < enc b)"
  by (simp add: encode_key_def)

lemma decode_key_encode_key:
  "dec (enc k) = Inr k \<Longrightarrow> decode_key pre dec (encode_key pre enc k) = Inr k"
  by (simp add: decode_key_def encode_key_def strip_prefix_Some_iff)

section \<open>Right bound lemmas\<close>

text \<open>Where the loop stops: the characters behind it are all the largest one.\<close>

lemma right_bound_loop_cases:
  "i \<le> length p \<Longrightarrow> (\<forall>j. i \<le> j \<and> j < length p \<longrightarrow> p ! j = 0x10FFFF) \<Longrightarrow>
   (case right_bound_loop p i of
      Some r \<Rightarrow> \<exists>q c k. p = q @ c # replicate k 0x10FFFF \<and> is_scalar (c + 1) \<and> r = q @ [c + 1]
    | None \<Rightarrow> p = replicate (length p) 0x10FFFF \<or>
        (\<exists>q c k. p = q @ c # replicate k 0x10FFFF \<and> c \<noteq> 0x10FFFF \<and> \<not> is_scalar (c + 1)))"
proof (induction i)
  case 0
  then have "p = replicate (length p) 0x10FFFF" by (auto intro: nth_equalityI)
  then show ?case by simp
next
  case (Suc i)
  show ?case
  proof (cases "p ! i = 0x10FFFF")
    case True
    with Suc.prems have "\<forall>j. i \<le> j \<and> j < length p \<longrightarrow> p ! j = 0x10FFFF"
      by (metis Suc_leI le_neq_implies_less)
    with True Suc show ?thesis by simp
  next
    case False
    have "p = take i p @ p ! i # drop (Suc i) p" using Suc.prems by (simp add: id_take_nth_drop)
    moreover have "drop (Suc i) p = replicate (length p - Suc i) 0x10FFFF"
      using Suc.prems by (auto intro!: nth_equalityI)
    ultimately have "p = take i p @ p ! i # replicate (length p - Suc i) 0x10FFFF" by simp
    moreover have "take (i + 1) (p[i := p ! i + 1]) = take i p @ [p ! i + 1]"
      using Suc.prems by (simp add: take_Suc_conv_app_nth)
    ultimately show ?thesis using False by auto
  qed
qed

lemma prefix_right_bound_cases:
  "case prefix_right_bound p of
      Some r \<Rightarrow> \<exists>q c k. p = q @ c # replicate k 0x10FFFF \<and> is_scalar (c + 1) \<and> r = q @ [c + 1]
    | None \<Rightarrow> p = replicate (length p) 0x10FFFF \<or>
        (\<exists>q c k. p = q @ c # replicate k 0x10FFFF \<and> c \<noteq> 0x10FFFF \<and> \<not> is_scalar (c + 1))"
  using right_bound_loop_cases [of "length p" p] by (simp add: prefix_right_bound_def)

lemma replicate_max_le_iff_prefix:
  "valid_str s \<Longrightarrow> replicate k 0x10FFFF \<le> s \<longleftrightarrow> prefix (replicate k 0x10FFFF) s"
proof (induction k arbitrary: s)
  case (Suc k)
  show ?case
  proof (cases s)
    case (Cons x xs)
    with Suc.prems have "x \<le> 0x10FFFF" "valid_str xs" by (auto simp: is_scalar_def)
    with Suc.IH [of xs] Cons show ?thesis by auto
  qed simp
qed simp

lemma right_bound_interval:
  assumes "valid_str s"
  shows "(q @ c # replicate k 0x10FFFF \<le> s \<and> s < q @ [c + 1]) =
    prefix (q @ c # replicate k 0x10FFFF) s"
proof
  assume r: "q @ c # replicate k 0x10FFFF \<le> s \<and> s < q @ [c + 1]"
  have "q @ [c] \<le> q @ c # replicate k 0x10FFFF" by (simp only: append_le_cancel) simp
  then have "q @ [c] \<le> s" using r by (meson order_trans)
  with r have "prefix (q @ [c]) s" using char_interval_iff_prefix [of q c s] by simp
  then obtain t where s: "s = q @ c # t" by (auto simp: prefix_def)
  with r have "replicate k 0x10FFFF \<le> t" by simp
  moreover have "valid_str t" using assms s by simp
  ultimately show "prefix (q @ c # replicate k 0x10FFFF) s"
    using s by (simp add: replicate_max_le_iff_prefix)
next
  assume p: "prefix (q @ c # replicate k 0x10FFFF) s"
  then have "prefix (q @ [c]) s" by (auto simp: prefix_def)
  then have "s < q @ [c + 1]" using char_interval_iff_prefix [of q c s] by simp
  with p show "q @ c # replicate k 0x10FFFF \<le> s \<and> s < q @ [c + 1]" by (simp add: prefix_imp_le)
qed

section \<open>Sequential key lemmas\<close>

fun seq_groups :: "nat \<Rightarrow> rstring \<Rightarrow> rstring" where
  "seq_groups i [] = []"
| "seq_groups i (c # cs) =
    (if 0 < i \<and> i mod 3 = 0 then [95, c] else [c]) @ seq_groups (i + 1) cs"

lemma seq_number_loop_acc: "seq_number_loop i cs acc = acc @ seq_groups i cs"
  by (induction i cs acc rule: seq_number_loop.induct) auto

lemma seq_groups_less:
  "length xs = length ys \<Longrightarrow> (seq_groups i xs < seq_groups i ys) = (xs < ys)"
  by (induction xs ys arbitrary: i rule: list_induct2) auto

lemma format_seq_number_less: "(format_seq_number a < format_seq_number b) = (a < b)"
  by (simp add: format_seq_number_def seq_number_loop_acc seq_groups_less pad0_u64_less_iff)

section \<open>The interface of a key space\<close>

text \<open>
  What the table codec relies on: the decoder inverts the encoder and the encoder keeps the
  order of keys.
\<close>

locale key_space =
  fixes pre :: rstring
    and enc :: "'k :: linorder \<Rightarrow> rstring"
    and dec :: "rstring \<Rightarrow> 'k io_result"
  assumes dec_enc: "dec (enc k) = Inr k"
    and enc_less: "enc a < enc b \<longleftrightarrow> a < b"
begin

lemma enc_le: "enc a \<le> enc b \<longleftrightarrow> a \<le> b"
  using enc_less [of b a] by (auto simp: not_less [symmetric])

lemma decode_encode: "decode_key pre dec (encode_key pre enc k) = Inr k"
  by (rule decode_key_encode_key) (rule dec_enc)

lemma above_encode: "above (encode_bound pre enc b True) (encode_key pre enc k) = above b k"
  by (cases b) (simp_all add: encode_key_def enc_less enc_le)

lemma below_encode: "below (encode_bound pre enc b False) (encode_key pre enc k) = below b k"
  by (cases b) (simp_all add: encode_key_def enc_less enc_le)

lemma in_range_encode: "in_range (encode_range pre enc r) (encode_key pre enc k) = in_range r k"
  by (simp add: in_range_def encode_range_def above_encode below_encode)

lemma above_prefix: "above (encode_bound pre enc b True) s \<Longrightarrow> pre @ ascii ''/'' \<le> s"
proof -
  have "pre @ ascii ''/'' \<le> encode_key pre enc k" for k
    by (rule prefix_imp_le) (simp add: encode_key_def)
  moreover assume "above (encode_bound pre enc b True) s"
  ultimately show ?thesis by (cases b) (force intro: order_trans less_imp_le)+
qed

lemma below_prefix: "below (encode_bound pre enc b False) s \<Longrightarrow> s < pre @ ascii ''0''"
proof -
  have "encode_key pre enc k < pre @ ascii ''0''" for k by (simp add: encode_key_def)
  moreover assume "below (encode_bound pre enc b False) s"
  ultimately show ?thesis by (cases b) (force intro: le_less_trans less_trans)+
qed

lemma in_range_prefix: "in_range (encode_range pre enc r) s \<Longrightarrow> prefix (pre @ ascii ''/'') s"
  using above_prefix below_prefix slash_interval_iff_prefix [of pre s]
  by (auto simp: in_range_def encode_range_def)

end

interpretation user_space: key_space user_key_prefix user_key_encode user_key_decode
  by unfold_locales (simp_all add: user_key_encode_def user_key_decode_def)

interpretation expire_space: key_space expire_key_prefix expire_key_encode expire_key_decode
  by unfold_locales (simp_all add: expire_key_decode_encode expire_key_encode_less)

section \<open>Properties\<close>

text \<open>
  C38: keys of the secondary expiration index.  Decoding inverts encoding, and the encoded
  strings are ordered as the keys, by expiry time and then by sequence number, so a range
  scan over the encoded index visits the keys in the order in which they expire.
\<close>

theorem expire_key_codec:
  "expire_key_decode (expire_key_encode a) = Inr a \<and>
   (expire_key_encode a < expire_key_encode b \<longleftrightarrow>
    time_ms a < time_ms b \<or> time_ms a = time_ms b \<and> ek_seq a < ek_seq b)"
  by (simp add: expire_key_decode_encode expire_key_encode_less less_expire_key_def)

text \<open>
  A range of user keys becomes a range of table keys that holds exactly the encoded
  keys of the range, also when a side is unbounded.
\<close>

theorem user_range_exact:
  "in_range (encode_range user_key_prefix user_key_encode r) s =
   (\<exists>k. s = encode_key user_key_prefix user_key_encode k \<and> in_range r k)"
proof
  assume r: "in_range (encode_range user_key_prefix user_key_encode r) s"
  then obtain k where "s = encode_key user_key_prefix user_key_encode k"
    using user_space.in_range_prefix [OF r]
    by (auto simp: prefix_def encode_key_def user_key_encode_def)
  with r show "\<exists>k. s = encode_key user_key_prefix user_key_encode k \<and> in_range r k"
    by (auto simp: user_space.in_range_encode)
qed (auto simp: user_space.in_range_encode)

text \<open>
  C39: the two key spaces share one table without mixing.  A range of expiration keys holds
  exactly the expiration keys of the range and never a user key.
\<close>

theorem expire_range_exact:
  "in_range (encode_range expire_key_prefix expire_key_encode r)
     (encode_key expire_key_prefix expire_key_encode k) = in_range r k \<and>
   \<not> in_range (encode_range expire_key_prefix expire_key_encode r)
       (encode_key user_key_prefix user_key_encode u)"
proof -
  have "\<not> prefix (expire_key_prefix @ ascii ''/'') (encode_key user_key_prefix user_key_encode u)"
    by (simp add: expire_key_prefix_def user_key_prefix_def encode_key_def)
  then show ?thesis
    using expire_space.in_range_encode expire_space.in_range_prefix by blast
qed

text \<open>
  A snapshot id is read back from its text, with and without a last applied log id and
  with and without the number of keys.
\<close>

theorem snapshot_id_roundtrip: "snapshot_id_from_str (snapshot_id_display i) = Some i"
proof (cases i)
  case (fields l u n)
  then show ?thesis
    by (cases l; cases n)
      (simp_all add: snapshot_id_from_str_def snapshot_id_display_def snapshot_id_parts_def
        new_log_id_def)
qed

lemma right_bound_prefix:
  assumes "prefix_right_bound p = Some r" "valid_str s"
  shows "(p \<le> s \<and> s < r) = prefix p s"
proof -
  obtain q c k where "p = q @ c # replicate k 0x10FFFF" "r = q @ [c + 1]"
    using prefix_right_bound_cases [of p] assms(1) by auto
  with right_bound_interval [OF assms(2)] show ?thesis by simp
qed

text \<open>
  C37: when \<open>prefix_right_bound\<close> gives a bound, the half open range from the prefix to the
  bound holds exactly the strings with that prefix.
\<close>

theorem prefix_right_bound_exact:
  assumes "prefix_right_bound p = Some r" "valid_str s"
  shows "(p \<le> s \<and> s < r) = prefix p s"
  by (rule right_bound_prefix [OF assms])

theorem prefix_right_bound_exact_witness:
  "(ascii ''ab/'' \<le> ascii ''ab/c'' \<and> ascii ''ab/c'' < ascii ''ab0'') = prefix (ascii ''ab/'') (ascii ''ab/c'')"
  by (rule prefix_right_bound_exact) (simp_all add: prefix_right_bound_def is_scalar_def)

text \<open>
  \<open>prefix_right_bound\<close> fails only on a prefix of maximal characters and on a prefix whose
  last character below the maximum is U+D7FF, the one before the surrogates.
\<close>

theorem prefix_right_bound_none:
  assumes "valid_str p"
  shows "prefix_right_bound p = None \<longleftrightarrow>
    (\<exists>k. p = replicate k 0x10FFFF) \<or> (\<exists>q k. p = q @ 0xD7FF # replicate k 0x10FFFF)"
proof
  assume "prefix_right_bound p = None"
  then have "p = replicate (length p) 0x10FFFF \<or>
      (\<exists>q c k. p = q @ c # replicate k 0x10FFFF \<and> c \<noteq> 0x10FFFF \<and> \<not> is_scalar (c + 1))"
    using prefix_right_bound_cases [of p] by simp
  moreover have "c = 0xD7FF" if "is_scalar c" "c \<noteq> 0x10FFFF" "\<not> is_scalar (c + 1)" for c
    using that by (auto simp: is_scalar_def)
  ultimately show "(\<exists>k. p = replicate k 0x10FFFF) \<or> (\<exists>q k. p = q @ 0xD7FF # replicate k 0x10FFFF)"
    using assms by (metis valid_str_simps(2,3))
next
  have no_max: "prefix_right_bound (replicate k 0x10FFFF) = None" for k
  proof -
    have "right_bound_loop (replicate k 0x10FFFF) i = None" if "i \<le> k" for i
      using that by (induction i) auto
    then show ?thesis by (simp add: prefix_right_bound_def)
  qed
  have no_d7ff: "prefix_right_bound (q @ 0xD7FF # replicate k 0x10FFFF) = None" for q k
  proof -
    have "right_bound_loop (q @ 0xD7FF # replicate k 0x10FFFF) (Suc (length q) + i) = None"
      if "i \<le> k" for i
      using that by (induction i) (auto simp: is_scalar_def nth_append)
    from this [of k] show ?thesis by (simp add: prefix_right_bound_def)
  qed
  assume "(\<exists>k. p = replicate k 0x10FFFF) \<or> (\<exists>q k. p = q @ 0xD7FF # replicate k 0x10FFFF)"
  with no_max no_d7ff show "prefix_right_bound p = None" by auto
qed

theorem prefix_right_bound_none_witness:
  "prefix_right_bound [97, 0xD7FF] = None \<longleftrightarrow>
    (\<exists>k. [97 :: nat, 0xD7FF] = replicate k 0x10FFFF) \<or>
    (\<exists>q k. [97 :: nat, 0xD7FF] = q @ 0xD7FF # replicate k 0x10FFFF)"
  by (rule prefix_right_bound_none) (simp add: is_scalar_def)

text \<open>
  What a listing by prefix takes, with the right bound or without one.  A prefix whose last
  character below the maximum has no next character gets no right bound and takes every key from
  the prefix on.  Every other prefix, also the empty one and one of maximal characters only, takes
  the keys that start with it.
\<close>

definition no_next_char :: "rstring \<Rightarrow> bool" where
  "no_next_char p =
    (case dropWhile (\<lambda>c. c = 0x10FFFF) (rev p) of [] \<Rightarrow> False | c # _ \<Rightarrow> \<not> is_scalar (c + 1))"

definition listed_by :: "rstring \<Rightarrow> rstring \<Rightarrow> bool" where
  "listed_by p k = (if no_next_char p then p \<le> k else prefix p k)"

definition prefix_bounds :: "rstring \<Rightarrow> rstring bound \<times> rstring bound" where
  "prefix_bounds p = (Included p, case prefix_right_bound p of Some right \<Rightarrow> Excluded right | None \<Rightarrow> Unbounded)"

lemma no_next_char_simps [simp]:
  "\<not> no_next_char (replicate n 0x10FFFF)"
  "c \<noteq> 0x10FFFF \<Longrightarrow> no_next_char (q @ c # replicate n 0x10FFFF) \<longleftrightarrow> \<not> is_scalar (c + 1)"
  by (simp_all add: no_next_char_def dropWhile_append)

text \<open>In a Rust string the character without a next one is U+D7FF.\<close>

lemma no_next_char_iff:
  assumes "valid_str p"
  shows "no_next_char p \<longleftrightarrow> (\<exists>q n. p = q @ 0xD7FF # replicate n 0x10FFFF)"
proof
  assume gap: "no_next_char p"
  define r where "r = dropWhile (\<lambda>c. c = 0x10FFFF) (rev p)"
  obtain c q where r: "r = c # q" "\<not> is_scalar (c + 1)"
    using gap by (auto simp: no_next_char_def r_def split: list.splits)
  have "rev p = takeWhile (\<lambda>c. c = 0x10FFFF) (rev p) @ r" by (simp add: r_def)
  also have "takeWhile (\<lambda>c. c = 0x10FFFF) (rev p) = replicate (length (takeWhile (\<lambda>c. c = 0x10FFFF) (rev p))) 0x10FFFF"
    by (rule replicate_length_same [symmetric]) (auto dest: set_takeWhileD)
  finally obtain n where "rev p = replicate n 0x10FFFF @ c # q" by (metis r(1))
  then have p: "p = rev q @ c # replicate n 0x10FFFF" by (simp add: rev_swap)
  have "c \<noteq> 0x10FFFF" using r(1) hd_dropWhile [of "\<lambda>c. c = 0x10FFFF" "rev p"] by (auto simp: r_def)
  then have "c = 0xD7FF" using assms r(2) p by (auto simp: is_scalar_def)
  with p show "\<exists>q n. p = q @ 0xD7FF # replicate n 0x10FFFF" by blast
qed (auto simp: is_scalar_def)

lemma prefix_bounds_listed:
  assumes "valid_str k"
  shows "in_range (prefix_bounds p) k \<longleftrightarrow> listed_by p k"
proof (cases "prefix_right_bound p")
  case None
  then consider n where "p = replicate n 0x10FFFF"
    | q c n where "p = q @ c # replicate n 0x10FFFF" "c \<noteq> 0x10FFFF" "\<not> is_scalar (c + 1)"
    using prefix_right_bound_cases [of p] by auto
  then show ?thesis
    using None replicate_max_le_iff_prefix [OF assms]
    by cases (simp_all add: prefix_bounds_def listed_by_def in_range_def)
next
  case (Some r)
  obtain q c n where p: "p = q @ c # replicate n 0x10FFFF" "is_scalar (c + 1)"
    using prefix_right_bound_cases [of p] Some by auto
  then have "\<not> no_next_char p" by (cases "c = 0x10FFFF") (auto simp: is_scalar_def)
  then show ?thesis
    using right_bound_prefix [OF Some assms] by (simp add: Some prefix_bounds_def listed_by_def in_range_def)
qed

text \<open>
  Keys made by \<open>PutSequential\<close> sort as their sequence numbers, over the whole range of
  \<open>u64\<close>, because the number is padded and grouped at fixed positions.
\<close>

theorem build_key_order: "(build_key pre a < build_key pre b) = (a < b)"
  by (simp add: build_key_def format_seq_number_less)

text \<open>
  The key range of a watched directory holds exactly the keys under the directory, for
  a directory written with or without slashes at its end.
\<close>

theorem watch_new_dir_exact:
  "(watch_key (watch_new_dir pre) \<le> s \<and> s < the (watch_key_end (watch_new_dir pre))) =
   prefix (trim_end 47 pre @ ascii ''/'') s"
  by (simp only: watch_new_dir_def watch_new_def Let_def watch_request.simps option.sel
      slash_interval_iff_prefix)

end
