(* ===== verification/Proto_Ext.thy ===== *)
theory Proto_Ext
  imports Base
begin

text \<open>
  Protobuf messages and the methods the crate \<open>common/proto\<close> adds to them
  (\<open>src/proto_ext\<close>): values and their metadata, stream items, watch responses, conditions
  and boolean expressions, operations and their responses, requests and replies.  The
  message types follow the \<open>.proto\<close> files; an enumeration field is the integer on the wire.
\<close>

section \<open>Values\<close>

record pb_kv_meta =
  pbm_expire_at :: "u64 option"
  pbm_proposed_at_ms :: "u64 option"

record pb_seqv =
  pb_seq :: u64
  pb_data :: bytes
  pb_meta :: "pb_kv_meta option"

definition kv_meta_to_pb :: "kvmeta \<Rightarrow> pb_kv_meta" where
  "kv_meta_to_pb m = \<lparr>pbm_expire_at = expire_at m, pbm_proposed_at_ms = proposed_at_ms m\<rparr>"

definition kv_meta_from_pb :: "pb_kv_meta \<Rightarrow> kvmeta" where
  "kv_meta_from_pb m = \<lparr>expire_at = pbm_expire_at m, proposed_at_ms = pbm_proposed_at_ms m\<rparr>"

definition seqv_to_pb :: "bytes seqv \<Rightarrow> pb_seqv" where
  "seqv_to_pb sv =
    \<lparr>pb_seq = sv_seq sv, pb_data = sv_data sv, pb_meta = map_option kv_meta_to_pb (sv_meta sv)\<rparr>"

definition seqv_from_pb :: "pb_seqv \<Rightarrow> bytes seqv" where
  "seqv_from_pb sv =
    \<lparr>sv_seq = pb_seq sv, sv_meta = map_option kv_meta_from_pb (pb_meta sv), sv_data = pb_data sv\<rparr>"

definition pb_seqv_new :: "u64 \<Rightarrow> bytes \<Rightarrow> pb_seqv" where
  "pb_seqv_new s d = \<lparr>pb_seq = s, pb_data = d, pb_meta = None\<rparr>"

text \<open>\<open>as_micros() as u64\<close> keeps the low 64 bits.\<close>

definition micros_u64 :: "duration \<Rightarrow> u64" where
  "micros_u64 d = word_of_nat (d div 1000)"

definition kv_meta_close_to :: "pb_kv_meta \<Rightarrow> pb_kv_meta \<Rightarrow> duration \<Rightarrow> bool" where
  "kv_meta_close_to x y tolerance =
    (case (pbm_expire_at x, pbm_expire_at y) of
       (Some a, Some b) \<Rightarrow>
         (let a = micros_u64 (flexible_timestamp_to_duration a);
              b = micros_u64 (flexible_timestamp_to_duration b);
              diff = (if a \<le> b then b - a else a - b)
          in diff \<le> micros_u64 tolerance)
     | (None, None) \<Rightarrow> True
     | _ \<Rightarrow> False)"

definition pb_seqv_close_to :: "pb_seqv \<Rightarrow> pb_seqv \<Rightarrow> duration \<Rightarrow> bool" where
  "pb_seqv_close_to x y tolerance \<longleftrightarrow>
    pb_seq x = pb_seq y \<and> pb_data x = pb_data y \<and>
    (case (pb_meta x, pb_meta y) of
       (Some m, Some n) \<Rightarrow> kv_meta_close_to m n tolerance
     | (None, None) \<Rightarrow> True
     | _ \<Rightarrow> False)"

section \<open>Stream items\<close>

record stream_item =
  si_key :: rstring
  si_value :: "pb_seqv option"

definition stream_item_new :: "rstring \<Rightarrow> pb_seqv option \<Rightarrow> stream_item" where
  "stream_item_new k v = \<lparr>si_key = k, si_value = v\<rparr>"

definition into_option_pair :: "stream_item \<Rightarrow> rstring \<times> bytes seqv option" where
  "into_option_pair i = (si_key i, map_option seqv_from_pb (si_value i))"

text \<open>\<open>into_pair\<close> panics on an absent value.\<close>

definition into_pair :: "stream_item \<Rightarrow> (rstring \<times> bytes seqv) option" where
  "into_pair i = (case si_value i of None \<Rightarrow> None | Some v \<Rightarrow> Some (si_key i, seqv_from_pb v))"

definition stream_item_of_option :: "rstring \<times> bytes seqv option \<Rightarrow> stream_item" where
  "stream_item_of_option kv = stream_item_new (fst kv) (map_option seqv_to_pb (snd kv))"

definition stream_item_of_pair :: "rstring \<times> bytes seqv \<Rightarrow> stream_item" where
  "stream_item_of_pair kv = stream_item_new (fst kv) (Some (seqv_to_pb (snd kv)))"

definition stream_item_normalize :: "stream_item \<Rightarrow> stream_item" where
  "stream_item_normalize i =
    i\<lparr>si_value := map_option (\<lambda>v.
        if pb_meta v = Some \<lparr>pbm_expire_at = None, pbm_proposed_at_ms = None\<rparr>
        then v\<lparr>pb_meta := None\<rparr> else v) (si_value i)\<rparr>"

definition stream_item_without_proposed_at :: "stream_item \<Rightarrow> stream_item" where
  "stream_item_without_proposed_at i =
    stream_item_normalize
      (i\<lparr>si_value := map_option (\<lambda>v. v\<lparr>pb_meta := map_option (\<lambda>m. m\<lparr>pbm_proposed_at_ms := None\<rparr>)
          (pb_meta v)\<rparr>) (si_value i)\<rparr>)"

section \<open>Watch responses\<close>

record event =
  ev_key :: rstring
  ev_prev :: "pb_seqv option"
  ev_current :: "pb_seqv option"

record watch_response =
  wr_event :: "event option"
  is_initialization :: bool

definition new_initialization_complete :: watch_response where
  "new_initialization_complete = \<lparr>wr_event = None, is_initialization = False\<rparr>"

definition new_initialization_event :: "rstring \<Rightarrow> bytes seqv \<Rightarrow> watch_response" where
  "new_initialization_event k v =
    \<lparr>wr_event = Some \<lparr>ev_key = k, ev_prev = None, ev_current = Some (seqv_to_pb v)\<rparr>,
     is_initialization = True\<rparr>"

definition new_change_event ::
  "rstring \<Rightarrow> bytes seqv option \<Rightarrow> bytes seqv option \<Rightarrow> watch_response" where
  "new_change_event k p c =
    \<lparr>wr_event = Some \<lparr>ev_key = k, ev_prev = map_option seqv_to_pb p,
        ev_current = map_option seqv_to_pb c\<rparr>,
     is_initialization = False\<rparr>"

definition watch_unpack ::
  "watch_response \<Rightarrow> (rstring \<times> bytes seqv option \<times> bytes seqv option) option" where
  "watch_unpack w =
    (case wr_event w of None \<Rightarrow> None
     | Some ev \<Rightarrow> Some (ev_key ev, map_option seqv_from_pb (ev_prev ev),
                        map_option seqv_from_pb (ev_current ev)))"

section \<open>Conditions\<close>

datatype condition_result = CR_Eq | CR_Gt | CR_Ge | CR_Lt | CR_Le | CR_Ne

text \<open>The discriminants of the \<open>.proto\<close> enumerations.\<close>

fun condition_result_i32 :: "condition_result \<Rightarrow> int" where
  "condition_result_i32 CR_Eq = 0"
| "condition_result_i32 CR_Gt = 1"
| "condition_result_i32 CR_Ge = 2"
| "condition_result_i32 CR_Lt = 3"
| "condition_result_i32 CR_Le = 4"
| "condition_result_i32 CR_Ne = 5"

datatype combining_operator = CombineAnd | CombineOr

fun combining_operator_i32 :: "combining_operator \<Rightarrow> int" where
  "combining_operator_i32 CombineAnd = 0"
| "combining_operator_i32 CombineOr = 1"

datatype cond_target = TargetValue bytes | TargetSeq u64 | TargetKeysWithPrefix u64

record txn_condition =
  tc_key :: rstring
  tc_target :: "cond_target option"
  tc_expected :: int

definition tc_match_seq :: "rstring \<Rightarrow> condition_result \<Rightarrow> u64 \<Rightarrow> txn_condition" where
  "tc_match_seq k opr s =
    \<lparr>tc_key = k, tc_target = Some (TargetSeq s), tc_expected = condition_result_i32 opr\<rparr>"

definition tc_eq_seq :: "rstring \<Rightarrow> u64 \<Rightarrow> txn_condition" where
  "tc_eq_seq k s = tc_match_seq k CR_Eq s"

definition tc_match_value :: "rstring \<Rightarrow> condition_result \<Rightarrow> bytes \<Rightarrow> txn_condition" where
  "tc_match_value k opr v =
    \<lparr>tc_key = k, tc_target = Some (TargetValue v), tc_expected = condition_result_i32 opr\<rparr>"

definition tc_match_keys_with_prefix :: "rstring \<Rightarrow> condition_result \<Rightarrow> u64 \<Rightarrow> txn_condition" where
  "tc_match_keys_with_prefix k opr n =
    \<lparr>tc_key = k, tc_target = Some (TargetKeysWithPrefix n), tc_expected = condition_result_i32 opr\<rparr>"

section \<open>Boolean expressions\<close>

datatype boolean_expression =
  BooleanExpression (be_operator: int) (sub_expressions: "boolean_expression list")
    (be_conditions: "txn_condition list")

datatype expression_or_condition = Expression boolean_expression | Condition txn_condition

definition from_conditions :: "combining_operator \<Rightarrow> txn_condition list \<Rightarrow> boolean_expression" where
  "from_conditions opr cs = BooleanExpression (combining_operator_i32 opr) [] cs"

definition from_conditions_and :: "txn_condition list \<Rightarrow> boolean_expression" where
  "from_conditions_and cs = from_conditions CombineAnd cs"

definition from_conditions_or :: "txn_condition list \<Rightarrow> boolean_expression" where
  "from_conditions_or cs = from_conditions CombineOr cs"

definition merge_conditions ::
  "boolean_expression \<Rightarrow> combining_operator \<Rightarrow> txn_condition list \<Rightarrow> boolean_expression" where
  "merge_conditions e opr cs =
    (if be_operator e = combining_operator_i32 opr
     then BooleanExpression (be_operator e) (sub_expressions e) (be_conditions e @ cs)
     else BooleanExpression (combining_operator_i32 opr) [e] cs)"

definition merge_expressions ::
  "boolean_expression \<Rightarrow> combining_operator \<Rightarrow> boolean_expression list \<Rightarrow> boolean_expression" where
  "merge_expressions e opr others =
    (if be_operator e = combining_operator_i32 opr
     then BooleanExpression (be_operator e) (sub_expressions e @ others) (be_conditions e)
     else BooleanExpression (combining_operator_i32 opr) (e # others) [])"

fun merge_either ::
  "boolean_expression \<Rightarrow> combining_operator \<Rightarrow> expression_or_condition \<Rightarrow> boolean_expression" where
  "merge_either e opr (Expression x) = merge_expressions e opr [x]"
| "merge_either e opr (Condition c) = merge_conditions e opr [c]"

definition be_and :: "boolean_expression \<Rightarrow> expression_or_condition \<Rightarrow> boolean_expression" where
  "be_and e x = merge_either e CombineAnd x"

definition be_or :: "boolean_expression \<Rightarrow> expression_or_condition \<Rightarrow> boolean_expression" where
  "be_or e x = merge_either e CombineOr x"

definition be_and_many :: "boolean_expression \<Rightarrow> boolean_expression list \<Rightarrow> boolean_expression" where
  "be_and_many e xs = merge_expressions e CombineAnd xs"

definition be_or_many :: "boolean_expression \<Rightarrow> boolean_expression list \<Rightarrow> boolean_expression" where
  "be_or_many e xs = merge_expressions e CombineOr xs"

section \<open>Operations\<close>

record txn_put_request =
  tpr_key :: rstring
  tpr_value :: bytes
  tpr_prev_value :: bool
  tpr_expire_at :: "u64 option"
  tpr_ttl_ms :: "u64 option"
  tpr_match_seq :: "u64 option"

record txn_delete_request =
  tdr_key :: rstring
  tdr_prev_value :: bool
  tdr_match_seq :: "u64 option"

record pb_fetch_increase_u64 =
  fi_key :: rstring
  fi_match_seq :: "u64 option"
  fi_delta :: i64
  fi_max_value :: u64

record pb_put_sequential =
  ps_prefix :: rstring
  ps_sequence_key :: rstring
  ps_value :: bytes
  ps_expires_at_ms :: "u64 option"
  ps_ttl_ms :: "u64 option"

text \<open>The messages \<open>TxnGetRequest\<close> and \<open>TxnDeleteByPrefixRequest\<close> hold one string.\<close>

datatype pb_request =
    ReqGet rstring
  | ReqPut txn_put_request
  | ReqDelete txn_delete_request
  | ReqDeleteByPrefix rstring
  | ReqFetchIncreaseU64 pb_fetch_increase_u64
  | ReqPutSequential pb_put_sequential

record txn_op =
  request :: "pb_request option"

definition txn_put_request_new ::
  "rstring \<Rightarrow> bytes \<Rightarrow> u64 option \<Rightarrow> u64 option \<Rightarrow> txn_put_request" where
  "txn_put_request_new k v e t =
    \<lparr>tpr_key = k, tpr_value = v, tpr_prev_value = True, tpr_expire_at = e, tpr_ttl_ms = t,
     tpr_match_seq = None\<rparr>"

definition txn_delete_request_new :: "rstring \<Rightarrow> u64 option \<Rightarrow> txn_delete_request" where
  "txn_delete_request_new k m = \<lparr>tdr_key = k, tdr_prev_value = True, tdr_match_seq = m\<rparr>"

definition pb_put_sequential_new :: "rstring \<Rightarrow> rstring \<Rightarrow> bytes \<Rightarrow> pb_put_sequential" where
  "pb_put_sequential_new p k v =
    \<lparr>ps_prefix = p, ps_sequence_key = k, ps_value = v, ps_expires_at_ms = None, ps_ttl_ms = None\<rparr>"

definition millis_u64 :: "duration \<Rightarrow> u64" where
  "millis_u64 d = word_of_nat (duration_as_millis d)"

definition txn_op_put :: "rstring \<Rightarrow> bytes \<Rightarrow> txn_op" where
  "txn_op_put k v = \<lparr>request = Some (ReqPut (txn_put_request_new k v None None))\<rparr>"

definition txn_op_put_with_ttl :: "rstring \<Rightarrow> bytes \<Rightarrow> duration option \<Rightarrow> txn_op" where
  "txn_op_put_with_ttl k v ttl =
    \<lparr>request = Some (ReqPut (txn_put_request_new k v None (map_option millis_u64 ttl)))\<rparr>"

definition txn_op_with_ttl :: "txn_op \<Rightarrow> duration option \<Rightarrow> txn_op" where
  "txn_op_with_ttl x ttl =
    (let ttl_ms = map_option millis_u64 ttl in
     case request x of
       Some (ReqPut p) \<Rightarrow> x\<lparr>request := Some (ReqPut (p\<lparr>tpr_ttl_ms := ttl_ms\<rparr>))\<rparr>
     | Some (ReqPutSequential p) \<Rightarrow> x\<lparr>request := Some (ReqPutSequential (p\<lparr>ps_ttl_ms := ttl_ms\<rparr>))\<rparr>
     | _ \<Rightarrow> x)"

definition txn_op_with_expires_at :: "txn_op \<Rightarrow> duration option \<Rightarrow> txn_op" where
  "txn_op_with_expires_at x e =
    (case request x of
       Some (ReqPut p) \<Rightarrow>
         x\<lparr>request := Some (ReqPut (p\<lparr>tpr_expire_at := map_option millis_u64 e\<rparr>))\<rparr>
     | Some (ReqPutSequential p) \<Rightarrow>
         x\<lparr>request := Some (ReqPutSequential (p\<lparr>ps_expires_at_ms := map_option millis_u64 e\<rparr>))\<rparr>
     | _ \<Rightarrow> x)"

definition txn_op_delete_exact :: "rstring \<Rightarrow> u64 option \<Rightarrow> txn_op" where
  "txn_op_delete_exact k m = \<lparr>request = Some (ReqDelete (txn_delete_request_new k m))\<rparr>"

definition txn_op_delete :: "rstring \<Rightarrow> txn_op" where
  "txn_op_delete k = txn_op_delete_exact k None"

definition txn_op_get :: "rstring \<Rightarrow> txn_op" where
  "txn_op_get k = \<lparr>request = Some (ReqGet k)\<rparr>"

definition txn_op_fetch_increase_u64 :: "rstring \<Rightarrow> u64 \<Rightarrow> i64 \<Rightarrow> txn_op" where
  "txn_op_fetch_increase_u64 k mx d =
    \<lparr>request = Some (ReqFetchIncreaseU64
      \<lparr>fi_key = k, fi_match_seq = None, fi_delta = d, fi_max_value = mx\<rparr>)\<rparr>"

definition txn_op_fetch_add_u64 :: "rstring \<Rightarrow> i64 \<Rightarrow> txn_op" where
  "txn_op_fetch_add_u64 k d =
    \<lparr>request = Some (ReqFetchIncreaseU64
      \<lparr>fi_key = k, fi_match_seq = None, fi_delta = d, fi_max_value = 0\<rparr>)\<rparr>"

definition txn_op_delete_by_prefix :: "rstring \<Rightarrow> txn_op" where
  "txn_op_delete_by_prefix p = \<lparr>request = Some (ReqDeleteByPrefix p)\<rparr>"

definition txn_op_put_sequential :: "rstring \<Rightarrow> rstring \<Rightarrow> bytes \<Rightarrow> txn_op" where
  "txn_op_put_sequential p k v = \<lparr>request = Some (ReqPutSequential (pb_put_sequential_new p k v))\<rparr>"

text \<open>\<open>match_seq\<close> panics on an absent request and on an operation without the guard.\<close>

definition txn_op_match_seq :: "txn_op \<Rightarrow> u64 option \<Rightarrow> txn_op option" where
  "txn_op_match_seq x m =
    (case request x of
       Some (ReqPut p) \<Rightarrow> Some (x\<lparr>request := Some (ReqPut (p\<lparr>tpr_match_seq := m\<rparr>))\<rparr>)
     | Some (ReqDelete p) \<Rightarrow> Some (x\<lparr>request := Some (ReqDelete (p\<lparr>tdr_match_seq := m\<rparr>))\<rparr>)
     | Some (ReqFetchIncreaseU64 p) \<Rightarrow>
         Some (x\<lparr>request := Some (ReqFetchIncreaseU64 (p\<lparr>fi_match_seq := m\<rparr>))\<rparr>)
     | _ \<Rightarrow> None)"

section \<open>Requests\<close>

record conditional_operation =
  co_predicate :: "boolean_expression option"
  co_operations :: "txn_op list"

definition conditional_operation_new ::
  "boolean_expression option \<Rightarrow> txn_op list \<Rightarrow> conditional_operation" where
  "conditional_operation_new e ops = \<lparr>co_predicate = e, co_operations = ops\<rparr>"

record txn_request =
  tr_operations :: "conditional_operation list"
  tr_condition :: "txn_condition list"
  if_then :: "txn_op list"
  else_then :: "txn_op list"

definition txn_request_new :: "txn_condition list \<Rightarrow> txn_op list \<Rightarrow> txn_request" where
  "txn_request_new cs ops = \<lparr>tr_operations = [], tr_condition = cs, if_then = ops, else_then = []\<rparr>"

definition push_branch ::
  "txn_request \<Rightarrow> boolean_expression option \<Rightarrow> txn_op list \<Rightarrow> txn_request" where
  "push_branch r e ops = r\<lparr>tr_operations := tr_operations r @ [conditional_operation_new e ops]\<rparr>"

text \<open>\<open>push_if_then\<close> asserts that the request has no condition and no operation yet.\<close>

definition push_if_then ::
  "txn_request \<Rightarrow> txn_condition list \<Rightarrow> txn_op list \<Rightarrow> txn_request option" where
  "push_if_then r cs ops =
    (if tr_condition r \<noteq> [] then None
     else if if_then r \<noteq> [] then None
     else Some (r\<lparr>tr_condition := tr_condition r @ cs, if_then := if_then r @ ops\<rparr>))"

definition with_else :: "txn_request \<Rightarrow> txn_op list \<Rightarrow> txn_request" where
  "with_else r ops = r\<lparr>else_then := ops\<rparr>"

definition unconditional :: "txn_op list \<Rightarrow> txn_request" where
  "unconditional ops = \<lparr>tr_operations = [], tr_condition = [], if_then = ops, else_then = []\<rparr>"

record kv_transaction_request =
  ktr_branches :: "conditional_operation list"

section \<open>Responses\<close>

record txn_get_response =
  tgr_key :: rstring
  tgr_value :: "pb_seqv option"

record txn_put_response =
  tpo_key :: rstring
  tpo_prev_value :: "pb_seqv option"
  tpo_current :: "pb_seqv option"

record txn_delete_response =
  tdo_key :: rstring
  tdo_success :: bool
  tdo_prev_value :: "pb_seqv option"

record txn_delete_by_prefix_response =
  tdp_prefix :: rstring
  tdp_count :: u32

record fetch_increase_u64_response =
  fir_key :: rstring
  fir_before_seq :: u64
  fir_before :: u64
  fir_after_seq :: u64
  fir_after :: u64

definition fetch_increase_response_new ::
  "rstring \<Rightarrow> u64 seqv \<Rightarrow> u64 seqv \<Rightarrow> fetch_increase_u64_response" where
  "fetch_increase_response_new k before after =
    \<lparr>fir_key = k, fir_before_seq = sv_seq before, fir_before = sv_data before,
     fir_after_seq = sv_seq after, fir_after = sv_data after\<rparr>"

definition fetch_increase_response_unchanged ::
  "rstring \<Rightarrow> u64 seqv \<Rightarrow> fetch_increase_u64_response" where
  "fetch_increase_response_unchanged k before =
    \<lparr>fir_key = k, fir_before_seq = sv_seq before, fir_before = sv_data before,
     fir_after_seq = sv_seq before, fir_after = sv_data before\<rparr>"

datatype txn_op_response =
    RespGet txn_get_response
  | RespPut txn_put_response
  | RespDelete txn_delete_response
  | RespDeleteByPrefix txn_delete_by_prefix_response
  | RespFetchIncreaseU64 fetch_increase_u64_response

fun try_as_get :: "txn_op_response \<Rightarrow> txn_get_response option" where
  "try_as_get (RespGet r) = Some r"
| "try_as_get _ = None"

fun try_as_put :: "txn_op_response \<Rightarrow> txn_put_response option" where
  "try_as_put (RespPut r) = Some r"
| "try_as_put _ = None"

fun try_as_delete :: "txn_op_response \<Rightarrow> txn_delete_response option" where
  "try_as_delete (RespDelete r) = Some r"
| "try_as_delete _ = None"

fun try_as_fetch_increase_u64 :: "txn_op_response \<Rightarrow> fetch_increase_u64_response option" where
  "try_as_fetch_increase_u64 (RespFetchIncreaseU64 r) = Some r"
| "try_as_fetch_increase_u64 _ = None"

definition txn_put_response_unpack ::
  "txn_put_response \<Rightarrow> rstring \<times> bytes seqv option \<times> bytes seqv option" where
  "txn_put_response_unpack r =
    (tpo_key r, map_option seqv_from_pb (tpo_prev_value r), map_option seqv_from_pb (tpo_current r))"

section \<open>Replies\<close>

record txn_reply =
  success :: bool
  tre_responses :: "txn_op_response list"
  execution_path :: rstring

definition txn_reply_new :: "rstring \<Rightarrow> txn_reply" where
  "txn_reply_new path =
    \<lparr>success = (path \<noteq> ascii ''else''), tre_responses = [], execution_path = path\<rparr>"

text \<open>\<open>usize\<close> is 64 bits wide; the error is the path itself.\<close>

definition executed_branch_index :: "txn_reply \<Rightarrow> rstring + u64 option" where
  "executed_branch_index r =
    (case strip_prefix (ascii ''operation:'') (execution_path r) of
       Some index \<Rightarrow> (case parse_u64 index of Some n \<Rightarrow> Inr (Some n) | None \<Rightarrow> Inl (execution_path r))
     | None \<Rightarrow> Inr None)"

record kv_transaction_reply =
  executed_branch :: "u32 option"
  ktr_responses :: "txn_op_response list"

definition into_txn_reply :: "kv_transaction_reply \<Rightarrow> txn_request \<Rightarrow> txn_reply" where
  "into_txn_reply r original_req =
    (let n_operations = length (tr_operations original_req);
         (ok, path) =
           (case executed_branch r of
              None \<Rightarrow> (False, ascii ''else'')
            | Some i \<Rightarrow>
                if unat i < n_operations then (True, ascii ''operation:'' @ show_nat (unat i))
                else if unat i = n_operations then (True, ascii ''then'')
                else (False, ascii ''else''))
     in \<lparr>success = ok, tre_responses = ktr_responses r, execution_path = path\<rparr>)"

section \<open>Lemmas\<close>

lemma kv_meta_roundtrip [simp]:
  "kv_meta_from_pb (kv_meta_to_pb m) = m" "kv_meta_to_pb (kv_meta_from_pb n) = n"
  by (simp_all add: kv_meta_from_pb_def kv_meta_to_pb_def)

lemma seqv_roundtrip [simp]:
  "seqv_from_pb (seqv_to_pb v) = v" "seqv_to_pb (seqv_from_pb w) = w"
  by (simp_all add: seqv_from_pb_def seqv_to_pb_def option.map_comp comp_def option.map_ident)

lemma map_option_seqv_roundtrip [simp]:
  "map_option seqv_from_pb (map_option seqv_to_pb v) = v"
  by (simp add: option.map_comp comp_def option.map_ident)

lemma stream_item_roundtrip:
  "into_option_pair (stream_item_of_option kv) = kv"
  by (cases kv) (simp add: into_option_pair_def stream_item_of_option_def stream_item_new_def)

lemma watch_event_roundtrip: "watch_unpack (new_change_event k p c) = Some (k, p, c)"
  by (simp add: watch_unpack_def new_change_event_def)

lemma kv_meta_close_to_sym: "kv_meta_close_to x y t = kv_meta_close_to y x t"
  by (auto simp: kv_meta_close_to_def Let_def split: option.splits)

text \<open>
  The three outcomes a client tells apart from a legacy reply.  The index of the executed
  conditional operation is recovered from the path exactly when one of them was executed,
  and the reply reports failure exactly when the else branch or no branch was executed.
\<close>

theorem txn_reply_outcome:
  "executed_branch_index (into_txn_reply r req) =
     (case executed_branch r of
        Some i \<Rightarrow> if unat i < length (tr_operations req) then Inr (Some (ucast i)) else Inr None
      | None \<Rightarrow> Inr None) \<and>
   success (into_txn_reply r req) =
     (case executed_branch r of
        Some i \<Rightarrow> unat i \<le> length (tr_operations req)
      | None \<Rightarrow> False)"
proof (cases "executed_branch r")
  case None
  then show ?thesis by (simp add: into_txn_reply_def executed_branch_index_def)
next
  case (Some i)
  have "unat i < 2 ^ 32" using unsigned_less [of i] by simp
  then have "parse_u64 (show_nat (unat i)) = Some (ucast i)"
    by (simp add: parse_u64_def parse_dec_digits show_nat_digits word_eq_iff_unsigned unsigned_ucast_eq)
  with Some show ?thesis
    by (auto simp: into_txn_reply_def executed_branch_index_def Let_def)
qed

end
