(* ===== verification/Kv_Transaction.thy ===== *)
theory Kv_Transaction
  imports Proto_Ext
begin

text \<open>
  Transactions: the native types stored in the raft log (\<open>kv_transaction/mod.rs\<close> and
  \<open>operation.rs\<close>), the protobuf messages with their builders (\<open>proto_ext\<close>), and the
  conversions between the two (\<open>kv_transaction/convert.rs\<close>), including the mapping of the
  legacy \<open>TxnRequest\<close> and of its reply (\<open>kv_transaction_reply_ext.rs\<close>, \<open>txn_reply_ext.rs\<close>).

  The readers of protobuf enumerations are generated code and are arguments: \<open>operator_of\<close>
  is the getter of the combining operator and \<open>condition_result_of\<close> is \<open>from_i32\<close> of the
  comparison.  What the conversions rely on is stated by \<open>pb_enums_ok\<close>.
\<close>

section \<open>Native types\<close>

datatype operand = Op_Seq u64 | Op_Value bytes | Op_KeysWithPrefix u64

datatype compare_operator = Op_Eq | Op_Ne | Op_Lt | Op_Le | Op_Gt | Op_Ge

record condition =
  cond_key :: rstring
  cond_target :: operand
  cond_op :: compare_operator

datatype predicate = And "predicate list" | Or "predicate list" | Leaf condition

record payload =
  pl_value :: bytes
  pl_expire_at_ms :: "u64 option"
  pl_ttl_ms :: "u64 option"

record key_lookup =
  kl_key :: rstring
  kl_match_seq :: "u64 option"

text \<open>
  The structs \<open>Get\<close>, \<open>Put\<close>, \<open>Delete\<close>, \<open>DeleteByPrefix\<close>, \<open>FetchIncreaseU64\<close> (target, delta,
  floor) and \<open>PutSequential\<close> (prefix, sequence key, payload), one per constructor.
\<close>

datatype txn_operation =
    Get rstring
  | Put key_lookup payload
  | OpDelete key_lookup
  | DeleteByPrefix rstring
  | FetchIncreaseU64 key_lookup i64 u64
  | PutSequential rstring rstring payload

record branch =
  br_predicate :: predicate
  br_operations :: "txn_operation list"

record kv_txn =
  branches :: "branch list"

section \<open>Constructors of the native types\<close>

definition always_true :: predicate where
  "always_true = And []"

fun is_always_true :: "predicate \<Rightarrow> bool" where
  "is_always_true (And c) \<longleftrightarrow> c = []"
| "is_always_true (Or c) \<longleftrightarrow> c = []"
| "is_always_true (Leaf c) \<longleftrightarrow> False"

definition branch_if :: "predicate \<Rightarrow> branch" where
  "branch_if p = \<lparr>br_predicate = p, br_operations = []\<rparr>"

definition branch_if_any :: "predicate list \<Rightarrow> branch" where
  "branch_if_any ps = branch_if (Or ps)"

definition branch_else :: branch where
  "branch_else = \<lparr>br_predicate = always_true, br_operations = []\<rparr>"

definition branch_then :: "branch \<Rightarrow> txn_operation list \<Rightarrow> branch" where
  "branch_then b ops = b\<lparr>br_operations := br_operations b @ ops\<rparr>"

definition pred_leaf :: "rstring \<Rightarrow> compare_operator \<Rightarrow> operand \<Rightarrow> predicate" where
  "pred_leaf k opr t = Leaf \<lparr>cond_key = k, cond_target = t, cond_op = opr\<rparr>"

definition pred_seq :: "rstring \<Rightarrow> compare_operator \<Rightarrow> u64 \<Rightarrow> predicate" where
  "pred_seq k opr s = pred_leaf k opr (Op_Seq s)"

definition pred_value :: "rstring \<Rightarrow> compare_operator \<Rightarrow> bytes \<Rightarrow> predicate" where
  "pred_value k opr v = pred_leaf k opr (Op_Value v)"

definition payload_new :: "bytes \<Rightarrow> u64 option \<Rightarrow> u64 option \<Rightarrow> payload" where
  "payload_new v e t = \<lparr>pl_value = v, pl_expire_at_ms = e, pl_ttl_ms = t\<rparr>"

definition payload_just :: "bytes \<Rightarrow> payload" where
  "payload_just v = payload_new v None None"

definition to_meta_spec :: "payload \<Rightarrow> meta_spec" where
  "to_meta_spec p =
    meta_spec_new (pl_expire_at_ms p) (map_option interval_from_millis (pl_ttl_ms p))"

definition key_lookup_new :: "rstring \<Rightarrow> u64 option \<Rightarrow> key_lookup" where
  "key_lookup_new k m = \<lparr>kl_key = k, kl_match_seq = m\<rparr>"

definition key_lookup_just :: "rstring \<Rightarrow> key_lookup" where
  "key_lookup_just k = key_lookup_new k None"

definition op_put :: "rstring \<Rightarrow> bytes \<Rightarrow> txn_operation" where
  "op_put k v = Put (key_lookup_just k) (payload_just v)"

definition op_delete :: "rstring \<Rightarrow> txn_operation" where
  "op_delete k = OpDelete (key_lookup_just k)"

definition op_put_sequential :: "rstring \<Rightarrow> rstring \<Rightarrow> bytes \<Rightarrow> txn_operation" where
  "op_put_sequential p k v = PutSequential p k (payload_just v)"

definition op_fetch_increase_u64 :: "rstring \<Rightarrow> i64 \<Rightarrow> txn_operation" where
  "op_fetch_increase_u64 k d = FetchIncreaseU64 (key_lookup_just k) d 0"

text \<open>The modifiers panic on the other operations.\<close>

fun op_expire_at_ms :: "txn_operation \<Rightarrow> u64 \<Rightarrow> txn_operation option" where
  "op_expire_at_ms (Put t p) ms = Some (Put t (p\<lparr>pl_expire_at_ms := Some ms\<rparr>))"
| "op_expire_at_ms (PutSequential a b p) ms = Some (PutSequential a b (p\<lparr>pl_expire_at_ms := Some ms\<rparr>))"
| "op_expire_at_ms _ ms = None"

fun op_ttl_ms :: "txn_operation \<Rightarrow> u64 \<Rightarrow> txn_operation option" where
  "op_ttl_ms (Put t p) ms = Some (Put t (p\<lparr>pl_ttl_ms := Some ms\<rparr>))"
| "op_ttl_ms (PutSequential a b p) ms = Some (PutSequential a b (p\<lparr>pl_ttl_ms := Some ms\<rparr>))"
| "op_ttl_ms _ ms = None"

fun op_match_seq :: "txn_operation \<Rightarrow> u64 \<Rightarrow> txn_operation option" where
  "op_match_seq (Put t p) s = Some (Put (t\<lparr>kl_match_seq := Some s\<rparr>) p)"
| "op_match_seq (OpDelete t) s = Some (OpDelete (t\<lparr>kl_match_seq := Some s\<rparr>))"
| "op_match_seq (FetchIncreaseU64 t d f) s = Some (FetchIncreaseU64 (t\<lparr>kl_match_seq := Some s\<rparr>) d f)"
| "op_match_seq _ s = None"

section \<open>From protobuf to native types\<close>

record pb_enums =
  operator_of :: "int \<Rightarrow> combining_operator"
  condition_result_of :: "int \<Rightarrow> condition_result option"

definition from_condition_result :: "pb_enums \<Rightarrow> int \<Rightarrow> compare_operator" where
  "from_condition_result E expected =
    (case condition_result_of E expected of
       Some CR_Eq \<Rightarrow> Op_Eq
     | Some CR_Gt \<Rightarrow> Op_Gt
     | Some CR_Ge \<Rightarrow> Op_Ge
     | Some CR_Lt \<Rightarrow> Op_Lt
     | Some CR_Le \<Rightarrow> Op_Le
     | Some CR_Ne \<Rightarrow> Op_Ne
     | None \<Rightarrow> Op_Eq)"

definition condition_from_pb :: "pb_enums \<Rightarrow> txn_condition \<Rightarrow> condition" where
  "condition_from_pb E cond =
    (let (target, opr) =
       (case tc_target cond of
          Some t \<Rightarrow>
            ((case t of
                TargetSeq s \<Rightarrow> Op_Seq s
              | TargetValue v \<Rightarrow> Op_Value v
              | TargetKeysWithPrefix n \<Rightarrow> Op_KeysWithPrefix n),
             from_condition_result E (tc_expected cond))
        | None \<Rightarrow> (Op_Seq 0, Op_Lt))
     in \<lparr>cond_key = tc_key cond, cond_target = target, cond_op = opr\<rparr>)"

fun predicate_from_pb :: "pb_enums \<Rightarrow> boolean_expression \<Rightarrow> predicate" where
  "predicate_from_pb E (BooleanExpression opr subs conds) =
    (let children =
       map (predicate_from_pb E) subs @ map (\<lambda>c. Leaf (condition_from_pb E c)) conds
     in case children of
          [c] \<Rightarrow> c
        | _ \<Rightarrow> (case operator_of E opr of CombineAnd \<Rightarrow> And children | CombineOr \<Rightarrow> Or children))"

definition operation_from_pb :: "txn_op \<Rightarrow> txn_operation" where
  "operation_from_pb x =
    (case request x of
       Some (ReqGet k) \<Rightarrow> Get k
     | Some (ReqPut p) \<Rightarrow>
         Put (key_lookup_new (tpr_key p) (tpr_match_seq p))
             (payload_new (tpr_value p) (tpr_expire_at p) (tpr_ttl_ms p))
     | Some (ReqDelete d) \<Rightarrow> OpDelete (key_lookup_new (tdr_key d) (tdr_match_seq d))
     | Some (ReqDeleteByPrefix p) \<Rightarrow> DeleteByPrefix p
     | Some (ReqFetchIncreaseU64 f) \<Rightarrow>
         FetchIncreaseU64 (key_lookup_new (fi_key f) (fi_match_seq f)) (fi_delta f) (fi_max_value f)
     | Some (ReqPutSequential p) \<Rightarrow>
         PutSequential (ps_prefix p) (ps_sequence_key p)
           (payload_new (ps_value p) (ps_expires_at_ms p) (ps_ttl_ms p))
     | None \<Rightarrow> Get [])"

definition branch_from_pb :: "pb_enums \<Rightarrow> conditional_operation \<Rightarrow> branch" where
  "branch_from_pb E co =
    \<lparr>br_predicate =
       (case co_predicate co of Some e \<Rightarrow> predicate_from_pb E e | None \<Rightarrow> always_true),
     br_operations = map operation_from_pb (co_operations co)\<rparr>"

definition txn_from_pb :: "pb_enums \<Rightarrow> kv_transaction_request \<Rightarrow> kv_txn" where
  "txn_from_pb E req = \<lparr>branches = map (branch_from_pb E) (ktr_branches req)\<rparr>"

text \<open>The legacy request: its conditional operations, then if-then, then else when present.\<close>

definition txn_from_legacy :: "pb_enums \<Rightarrow> txn_request \<Rightarrow> kv_txn" where
  "txn_from_legacy E req =
    \<lparr>branches =
       map (branch_from_pb E) (tr_operations req) @
       [\<lparr>br_predicate = And (map (\<lambda>c. Leaf (condition_from_pb E c)) (tr_condition req)),
         br_operations = map operation_from_pb (if_then req)\<rparr>] @
       (if else_then req \<noteq> []
        then [\<lparr>br_predicate = always_true, br_operations = map operation_from_pb (else_then req)\<rparr>]
        else [])\<rparr>"

section \<open>From native types to protobuf\<close>

fun to_condition_result :: "compare_operator \<Rightarrow> int" where
  "to_condition_result Op_Eq = condition_result_i32 CR_Eq"
| "to_condition_result Op_Ne = condition_result_i32 CR_Ne"
| "to_condition_result Op_Lt = condition_result_i32 CR_Lt"
| "to_condition_result Op_Le = condition_result_i32 CR_Le"
| "to_condition_result Op_Gt = condition_result_i32 CR_Gt"
| "to_condition_result Op_Ge = condition_result_i32 CR_Ge"

definition condition_to_pb :: "condition \<Rightarrow> txn_condition" where
  "condition_to_pb c =
    (let (target, expected) =
       (case cond_target c of
          Op_Seq s \<Rightarrow> (Some (TargetSeq s), to_condition_result (cond_op c))
        | Op_Value v \<Rightarrow> (Some (TargetValue v), to_condition_result (cond_op c))
        | Op_KeysWithPrefix n \<Rightarrow> (Some (TargetKeysWithPrefix n), to_condition_result (cond_op c)))
     in \<lparr>tc_key = cond_key c, tc_target = target, tc_expected = expected\<rparr>)"

fun predicate_to_pb :: "predicate \<Rightarrow> boolean_expression"
  and split_children :: "predicate list \<Rightarrow> boolean_expression list \<times> txn_condition list" where
  "predicate_to_pb (And children) =
    (case split_children children of (subs, conds) \<Rightarrow>
      BooleanExpression (combining_operator_i32 CombineAnd) subs conds)"
| "predicate_to_pb (Or children) =
    (case split_children children of (subs, conds) \<Rightarrow>
      BooleanExpression (combining_operator_i32 CombineOr) subs conds)"
| "predicate_to_pb (Leaf cond) =
    BooleanExpression (combining_operator_i32 CombineAnd) [] [condition_to_pb cond]"
| "split_children [] = ([], [])"
| "split_children (Leaf c # rest) =
    (case split_children rest of (subs, conds) \<Rightarrow> (subs, condition_to_pb c # conds))"
| "split_children (other # rest) =
    (case split_children rest of (subs, conds) \<Rightarrow> (predicate_to_pb other # subs, conds))"

fun operation_to_pb :: "txn_operation \<Rightarrow> txn_op" where
  "operation_to_pb (Get k) = \<lparr>request = Some (ReqGet k)\<rparr>"
| "operation_to_pb (Put t p) =
    \<lparr>request = Some (ReqPut \<lparr>tpr_key = kl_key t, tpr_value = pl_value p, tpr_prev_value = True,
       tpr_expire_at = pl_expire_at_ms p, tpr_ttl_ms = pl_ttl_ms p, tpr_match_seq = kl_match_seq t\<rparr>)\<rparr>"
| "operation_to_pb (OpDelete t) =
    \<lparr>request = Some (ReqDelete \<lparr>tdr_key = kl_key t, tdr_prev_value = True,
       tdr_match_seq = kl_match_seq t\<rparr>)\<rparr>"
| "operation_to_pb (DeleteByPrefix p) = \<lparr>request = Some (ReqDeleteByPrefix p)\<rparr>"
| "operation_to_pb (FetchIncreaseU64 t d f) =
    \<lparr>request = Some (ReqFetchIncreaseU64 \<lparr>fi_key = kl_key t, fi_match_seq = kl_match_seq t,
       fi_delta = d, fi_max_value = f\<rparr>)\<rparr>"
| "operation_to_pb (PutSequential pre k p) =
    \<lparr>request = Some (ReqPutSequential \<lparr>ps_prefix = pre, ps_sequence_key = k, ps_value = pl_value p,
       ps_expires_at_ms = pl_expire_at_ms p, ps_ttl_ms = pl_ttl_ms p\<rparr>)\<rparr>"

definition branch_to_pb :: "branch \<Rightarrow> conditional_operation" where
  "branch_to_pb b =
    \<lparr>co_predicate =
       (if is_always_true (br_predicate b) then None else Some (predicate_to_pb (br_predicate b))),
     co_operations = map operation_to_pb (br_operations b)\<rparr>"

definition txn_to_pb :: "kv_txn \<Rightarrow> kv_transaction_request" where
  "txn_to_pb t = \<lparr>ktr_branches = map branch_to_pb (branches t)\<rparr>"

section \<open>Meaning of predicates\<close>

text \<open>
  A predicate over the truth of its conditions: conjunction, disjunction, and an empty
  disjunction counts as true.
\<close>

fun holds :: "(condition \<Rightarrow> bool) \<Rightarrow> predicate \<Rightarrow> bool" where
  "holds t (And ps) \<longleftrightarrow> list_all (holds t) ps"
| "holds t (Or ps) \<longleftrightarrow> ps = [] \<or> list_ex (holds t) ps"
| "holds t (Leaf c) \<longleftrightarrow> t c"

text \<open>The readers of the enumerations invert the numbering of the \<open>.proto\<close> file.\<close>

definition pb_enums_ok :: "pb_enums \<Rightarrow> bool" where
  "pb_enums_ok E \<longleftrightarrow>
    (\<forall>c. operator_of E (combining_operator_i32 c) = c) \<and>
    (\<forall>r. condition_result_of E (condition_result_i32 r) = Some r)"

text \<open>The index of the first branch whose predicate holds.\<close>

fun first_match :: "(condition \<Rightarrow> bool) \<Rightarrow> nat \<Rightarrow> branch list \<Rightarrow> nat option" where
  "first_match t i [] = None"
| "first_match t i (b # bs) = (if holds t (br_predicate b) then Some i else first_match t (i + 1) bs)"

section \<open>Lemmas on the conversions\<close>

lemma condition_roundtrip: "pb_enums_ok E \<Longrightarrow> condition_from_pb E (condition_to_pb c) = c"
proof -
  assume "pb_enums_ok E"
  then have "from_condition_result E (to_condition_result opr) = opr" for opr
    by (cases opr) (simp_all add: from_condition_result_def pb_enums_ok_def
        del: condition_result_i32.simps)
  then show ?thesis
    by (cases c, rename_tac k t opr, case_tac t)
      (simp_all add: condition_from_pb_def condition_to_pb_def)
qed

lemma operation_roundtrip [simp]: "operation_from_pb (operation_to_pb x) = x"
  by (cases x) (simp_all add: operation_from_pb_def key_lookup_new_def payload_new_def)

text \<open>A single child stands for itself, so the collapsed form means the same.\<close>

lemma holds_predicate_from_pb:
  "holds t (predicate_from_pb E (BooleanExpression opr subs conds)) =
    (let children = map (predicate_from_pb E) subs @ map (\<lambda>c. Leaf (condition_from_pb E c)) conds
     in case operator_of E opr of
          CombineAnd \<Rightarrow> holds t (And children)
        | CombineOr \<Rightarrow> holds t (Or children))"
proof -
  have single: "holds t (case children of [c] \<Rightarrow> c
        | _ \<Rightarrow> (case opr' of CombineAnd \<Rightarrow> And children | CombineOr \<Rightarrow> Or children)) =
      (case opr' of CombineAnd \<Rightarrow> holds t (And children) | CombineOr \<Rightarrow> holds t (Or children))"
    for children opr'
    by (cases opr'; cases children; cases "tl children") auto
  show ?thesis by (simp only: predicate_from_pb.simps Let_def single)
qed

definition expr_holds :: "pb_enums \<Rightarrow> (condition \<Rightarrow> bool) \<Rightarrow> boolean_expression \<Rightarrow> bool" where
  "expr_holds E t e = holds t (predicate_from_pb E e)"

definition cond_holds :: "pb_enums \<Rightarrow> (condition \<Rightarrow> bool) \<Rightarrow> txn_condition \<Rightarrow> bool" where
  "cond_holds E t c = t (condition_from_pb E c)"

lemma expr_holds_eq:
  "expr_holds E t (BooleanExpression opr subs conds) =
    (case operator_of E opr of
       CombineAnd \<Rightarrow> list_all (expr_holds E t) subs \<and> list_all (cond_holds E t) conds
     | CombineOr \<Rightarrow> subs = [] \<and> conds = [] \<or>
         list_ex (expr_holds E t) subs \<or> list_ex (cond_holds E t) conds)"
  unfolding expr_holds_def cond_holds_def holds_predicate_from_pb
  by (auto simp: Let_def list_all_iff list_ex_iff expr_holds_def ball_Un bex_Un
      split: combining_operator.splits)

lemma split_children_holds:
  assumes "pb_enums_ok E"
  shows "expr_holds E t (predicate_to_pb p) = holds t p"
    and "(case split_children ps of (subs, conds) \<Rightarrow>
      (subs = [] \<and> conds = [] \<longleftrightarrow> ps = []) \<and>
      (list_all (expr_holds E t) subs \<and> list_all (cond_holds E t) conds \<longleftrightarrow> list_all (holds t) ps) \<and>
      (list_ex (expr_holds E t) subs \<or> list_ex (cond_holds E t) conds \<longleftrightarrow> list_ex (holds t) ps))"
proof (induction p and ps rule: predicate_to_pb_split_children.induct)
  case (1 children)
  then show ?case using assms by (auto simp: expr_holds_eq pb_enums_ok_def simp del: combining_operator_i32.simps)
next
  case (2 children)
  then show ?case using assms by (auto simp: expr_holds_eq pb_enums_ok_def simp del: combining_operator_i32.simps)
next
  case (3 cond)
  have "operator_of E (combining_operator_i32 CombineAnd) = CombineAnd"
    using assms by (simp only: pb_enums_ok_def)
  then show ?case
    using assms by (simp add: expr_holds_eq cond_holds_def condition_roundtrip
        del: combining_operator_i32.simps)
qed (use assms in \<open>auto simp: cond_holds_def condition_roundtrip split: prod.splits\<close>)

lemmas predicate_roundtrip = split_children_holds(1) [unfolded expr_holds_def]

lemma always_true_holds [simp]: "holds t always_true" "is_always_true p \<Longrightarrow> holds t p"
  by (simp add: always_true_def, cases p) auto

lemma branch_roundtrip:
  assumes "pb_enums_ok E"
  shows "br_operations (branch_from_pb E (branch_to_pb b)) = br_operations b"
    and "holds t (br_predicate (branch_from_pb E (branch_to_pb b))) = holds t (br_predicate b)"
  using predicate_roundtrip [OF assms, of t "br_predicate b"]
  by (simp_all add: branch_from_pb_def branch_to_pb_def comp_def)

lemma first_match_map:
  "(\<And>b. b \<in> set bs \<Longrightarrow> holds t (br_predicate (f b)) = holds t (br_predicate b)) \<Longrightarrow>
   first_match t i (map f bs) = first_match t i bs"
  by (induction bs arbitrary: i) auto

lemma first_match_append:
  "first_match t i (as @ bs) =
    (case first_match t i as of Some j \<Rightarrow> Some j | None \<Rightarrow> first_match t (i + length as) bs)"
  by (induction as arbitrary: i) (auto split: option.splits)

lemma first_match_range: "first_match t i bs = Some j \<Longrightarrow> i \<le> j \<and> j < i + length bs"
  by (induction bs arbitrary: i) (fastforce split: if_splits)+

section \<open>Properties\<close>

text \<open>
  C36: sending a native transaction over protobuf and reading it back keeps its meaning: the
  same branch is the first to match whatever the conditions evaluate to, and the
  operations of every branch are unchanged.  The predicate itself may be regrouped.
\<close>

theorem kv_txn_roundtrip:
  assumes "pb_enums_ok E"
  shows "first_match t 0 (branches (txn_from_pb E (txn_to_pb txn))) = first_match t 0 (branches txn) \<and>
    map br_operations (branches (txn_from_pb E (txn_to_pb txn))) = map br_operations (branches txn)"
proof -
  have "first_match t 0 (map (\<lambda>b. branch_from_pb E (branch_to_pb b)) (branches txn)) =
      first_match t 0 (branches txn)"
    by (rule first_match_map) (rule branch_roundtrip(2) [OF assms])
  then show ?thesis
    by (simp add: txn_from_pb_def txn_to_pb_def comp_def branch_roundtrip(1) [OF assms])
qed

text \<open>Readers of the enumerations, as the generated code has them.\<close>

definition prost_enums :: pb_enums where
  "prost_enums =
    \<lparr>operator_of = (\<lambda>i. if i = 1 then CombineOr else CombineAnd),
     condition_result_of = (\<lambda>i.
       if i = 0 then Some CR_Eq else if i = 1 then Some CR_Gt else if i = 2 then Some CR_Ge
       else if i = 3 then Some CR_Lt else if i = 4 then Some CR_Le else if i = 5 then Some CR_Ne
       else None)\<rparr>"

lemma prost_enums_ok: "pb_enums_ok prost_enums"
  unfolding pb_enums_ok_def
proof (intro conjI allI)
  show "operator_of prost_enums (combining_operator_i32 c) = c" for c
    by (cases c) (simp_all add: prost_enums_def)
  show "condition_result_of prost_enums (condition_result_i32 r) = Some r" for r
    by (cases r) (simp_all add: prost_enums_def)
qed

definition sample_txn :: kv_txn where
  "sample_txn = \<lparr>branches =
    [branch_then (branch_if_any [pred_seq [97] Op_Eq 5, pred_value [98] Op_Lt [1]]) [op_put [97] [1]],
     branch_then branch_else [op_delete [97]]]\<rparr>"

theorem kv_txn_roundtrip_witness:
  "first_match (\<lambda>c. cond_op c = Op_Lt) 0 (branches (txn_from_pb prost_enums (txn_to_pb sample_txn))) =
     first_match (\<lambda>c. cond_op c = Op_Lt) 0 (branches sample_txn) \<and>
   map br_operations (branches (txn_from_pb prost_enums (txn_to_pb sample_txn))) =
     map br_operations (branches sample_txn)"
  by (rule kv_txn_roundtrip) (rule prost_enums_ok)

text \<open>
  The documented contract of the legacy request: the first conditional operation that holds,
  else the if-then operations when every condition holds, else the else operations and failure; with
  the operations of the request that are executed.
\<close>

definition co_holds :: "pb_enums \<Rightarrow> (condition \<Rightarrow> bool) \<Rightarrow> conditional_operation \<Rightarrow> bool" where
  "co_holds E t co =
    (case co_predicate co of None \<Rightarrow> True | Some e \<Rightarrow> expr_holds E t e)"

fun first_co :: "pb_enums \<Rightarrow> (condition \<Rightarrow> bool) \<Rightarrow> nat \<Rightarrow> conditional_operation list \<Rightarrow> nat option" where
  "first_co E t i [] = None"
| "first_co E t i (c # cs) = (if co_holds E t c then Some i else first_co E t (i + 1) cs)"

definition legacy_outcome ::
  "pb_enums \<Rightarrow> (condition \<Rightarrow> bool) \<Rightarrow> txn_request \<Rightarrow> bool \<times> rstring \<times> txn_op list" where
  "legacy_outcome E t req =
    (case first_co E t 0 (tr_operations req) of
       Some i \<Rightarrow> (True, ascii ''operation:'' @ show_nat i, co_operations (tr_operations req ! i))
     | None \<Rightarrow>
         if list_all (cond_holds E t) (tr_condition req) then (True, ascii ''then'', if_then req)
         else (False, ascii ''else'', else_then req))"

text \<open>The operations of the branch that is selected when \<open>t\<close> says which conditions hold.\<close>

definition selected_operations :: "(condition \<Rightarrow> bool) \<Rightarrow> kv_txn \<Rightarrow> txn_operation list" where
  "selected_operations t txn =
    (case first_match t 0 (branches txn) of None \<Rightarrow> [] | Some i \<Rightarrow> br_operations (branches txn ! i))"

lemma first_match_operations:
  "first_match t i (map (branch_from_pb E) cos) = first_co E t i cos"
  by (induction cos arbitrary: i)
    (auto simp: branch_from_pb_def co_holds_def expr_holds_def split: option.splits)

lemma first_match_legacy:
  "first_match t 0 (branches (txn_from_legacy E req)) =
    (case first_co E t 0 (tr_operations req) of
       Some i \<Rightarrow> Some i
     | None \<Rightarrow>
         if list_all (cond_holds E t) (tr_condition req) then Some (length (tr_operations req))
         else if else_then req \<noteq> [] then Some (length (tr_operations req) + 1)
         else None)"
  by (auto simp: txn_from_legacy_def first_match_append first_match_operations list_all_iff
      cond_holds_def split: option.splits)

lemma first_co_range: "first_co E t 0 cos = Some i \<Longrightarrow> i < length cos"
  using first_match_range [of t 0 "map (branch_from_pb E) cos" i] by (simp add: first_match_operations)

lemma selected_operations_legacy:
  "selected_operations t (txn_from_legacy E req) = map operation_from_pb (snd (snd (legacy_outcome E t req)))"
proof (cases "first_co E t 0 (tr_operations req)")
  case (Some i)
  then have "branches (txn_from_legacy E req) ! i = branch_from_pb E (tr_operations req ! i)"
    using first_co_range [of E t "tr_operations req" i] by (simp add: txn_from_legacy_def nth_append)
  with Some show ?thesis
    by (simp add: selected_operations_def first_match_legacy legacy_outcome_def branch_from_pb_def)
next
  case None
  then have sel: "first_match t 0 (branches (txn_from_legacy E req)) =
      (if list_all (cond_holds E t) (tr_condition req) then Some (length (tr_operations req))
       else if else_then req \<noteq> [] then Some (length (tr_operations req) + 1) else None)"
    by (simp add: first_match_legacy)
  from None show ?thesis
    unfolding selected_operations_def sel by (auto simp: legacy_outcome_def txn_from_legacy_def nth_append)
qed

text \<open>
  C30: a legacy request keeps its documented behaviour.  The branch that is selected among those
  built from it has the operations that the contract of the legacy API names, the else operations
  among them; nothing is executed when these are absent.  The reply built from the index of that
  branch carries the success flag and the execution path of that contract, where a request without
  else operations also fails with the path of the else operations.
\<close>

theorem legacy_request_contract:
  assumes "length (tr_operations req) + 1 < 2 ^ 32"
  shows "(let txn = txn_from_legacy E req;
         rep = into_txn_reply
           \<lparr>executed_branch = map_option word_of_nat (first_match t 0 (branches txn)), ktr_responses = rs\<rparr> req;
         (ok, path, ops) = legacy_outcome E t req
     in success rep = ok \<and> execution_path rep = path \<and> tre_responses rep = rs \<and>
        selected_operations t txn = map operation_from_pb ops)"
proof -
  have small: "unat (word_of_nat i :: u32) = i" if "i \<le> length (tr_operations req) + 1" for i
    using that assms by (simp add: unat_of_nat)
  let ?rep = "into_txn_reply
    \<lparr>executed_branch = map_option word_of_nat (first_match t 0 (branches (txn_from_legacy E req))), ktr_responses = rs\<rparr> req"
  have "(success ?rep, execution_path ?rep) = (fst (legacy_outcome E t req), fst (snd (legacy_outcome E t req)))"
    using first_co_range [of E t "tr_operations req"]
    by (auto simp: first_match_legacy legacy_outcome_def into_txn_reply_def Let_def small
        simp del: of_nat_add of_nat_Suc split: option.splits)
  moreover have "tre_responses ?rep = rs" by (simp add: into_txn_reply_def Let_def split_beta)
  ultimately show ?thesis
    using selected_operations_legacy [of t E req] by (simp add: Let_def split_beta)
qed

definition legacy_sample :: txn_request where
  "legacy_sample = (txn_request_new [tc_eq_seq [97] 1] [txn_op_get [97]])\<lparr>else_then := [txn_op_get [98]]\<rparr>"

theorem legacy_request_contract_witness:
  "(let rep = into_txn_reply
        \<lparr>executed_branch = map_option word_of_nat (first_match (\<lambda>c. cond_op c = Op_Lt) 0
           (branches (txn_from_legacy prost_enums legacy_sample))), ktr_responses = []\<rparr> legacy_sample
     in \<not> success rep \<and> execution_path rep = ascii ''else'') \<and>
   selected_operations (\<lambda>c. cond_op c = Op_Lt) (txn_from_legacy prost_enums legacy_sample) = [Get [98]]"
proof -
  have "legacy_outcome prost_enums (\<lambda>c. cond_op c = Op_Lt) legacy_sample = (False, ascii ''else'', [txn_op_get [98]])"
    by (simp add: legacy_outcome_def legacy_sample_def txn_request_new_def cond_holds_def tc_eq_seq_def tc_match_seq_def condition_from_pb_def from_condition_result_def
        prost_enums_def)
  then show ?thesis
    using legacy_request_contract [of legacy_sample prost_enums "\<lambda>c. cond_op c = Op_Lt" "[]"]
    by (simp add: Let_def legacy_sample_def txn_request_new_def operation_from_pb_def txn_op_get_def)
qed

text \<open>
  The builders of boolean expressions mean what they are called.  Adding a condition or an
  expression with \<open>and\<close> gives the conjunction; adding it with \<open>or\<close> gives the disjunction,
  provided the expression so far is not the empty disjunction, which counts as true alone
  and disappears when it is extended.
\<close>

theorem be_builders:
  assumes "pb_enums_ok E"
    and "\<not> (be_operator e = combining_operator_i32 CombineOr \<and> sub_expressions e = [] \<and> be_conditions e = [])"
  shows "expr_holds E t (be_and e (Condition c)) = (expr_holds E t e \<and> cond_holds E t c) \<and>
    expr_holds E t (be_and e (Expression x)) = (expr_holds E t e \<and> expr_holds E t x) \<and>
    expr_holds E t (be_or e (Condition c)) = (expr_holds E t e \<or> cond_holds E t c) \<and>
    expr_holds E t (be_or e (Expression x)) = (expr_holds E t e \<or> expr_holds E t x)"
proof -
  have ops: "operator_of E (combining_operator_i32 CombineAnd) = CombineAnd"
    "operator_of E (combining_operator_i32 CombineOr) = CombineOr"
    using assms(1) by (simp_all only: pb_enums_ok_def)
  obtain opr subs conds where e: "e = BooleanExpression opr subs conds" by (cases e) auto
  show ?thesis
    using assms(2) ops
    by (auto simp: e be_and_def be_or_def merge_conditions_def merge_expressions_def expr_holds_eq
        simp del: combining_operator_i32.simps)
qed

theorem be_builders_witness:
  "expr_holds prost_enums (\<lambda>c. cond_op c = Op_Lt)
      (be_and (from_conditions_or [tc_eq_seq [97] 1]) (Condition (tc_eq_seq [98] 2))) =
    (expr_holds prost_enums (\<lambda>c. cond_op c = Op_Lt) (from_conditions_or [tc_eq_seq [97] 1]) \<and>
     cond_holds prost_enums (\<lambda>c. cond_op c = Op_Lt) (tc_eq_seq [98] 2))"
  using be_builders [OF prost_enums_ok, of "from_conditions_or [tc_eq_seq [97] 1]"
      "\<lambda>c. cond_op c = Op_Lt" "tc_eq_seq [98] 2"]
  by (simp add: from_conditions_or_def from_conditions_def)

end
