(* ===== verification/Log_Entry.thy ===== *)
theory Log_Entry
  imports Kv_Transaction
begin

text \<open>
  Raft log entries and the raft messages that carry them: the commands (\<open>cmd/mod.rs\<close>,
  \<open>log_entry/mod.rs\<close>), their protobuf form and the conversions in both directions
  (\<open>log_entry/convert.rs\<close>, \<open>proto_ext/node_ext.rs\<close>, and \<open>log_id_ext.rs\<close>, \<open>vote_ext.rs\<close>,
  \<open>vote_request_ext.rs\<close>, \<open>vote_response_ext.rs\<close>, \<open>membership_ext.rs\<close>,
  \<open>transfer_leader_request_ext.rs\<close> of \<open>common/proto\<close>).

  \<open>Membership::new\<close> of openraft is the argument \<open>membership_new\<close>; \<open>Vote\<close>, \<open>LogId\<close> and the
  request types of openraft are records of the fields the sources read and set.
\<close>

section \<open>Commands and entries\<close>

datatype cmd =
    AddNode u64 node bool
  | RemoveNode u64
  | SetFeature rstring bool
  | UpsertKV upsert_kv
  | CmdTransaction txn_request
  | KvTransaction kv_txn

record log_entry =
  le_time_ms :: "u64 option"
  le_cmd :: cmd

definition log_entry_new :: "cmd \<Rightarrow> log_entry" where
  "log_entry_new c = \<lparr>le_time_ms = None, le_cmd = c\<rparr>"

definition log_entry_new_with_time :: "cmd \<Rightarrow> u64 option \<Rightarrow> log_entry" where
  "log_entry_new_with_time c t = \<lparr>le_time_ms = t, le_cmd = c\<rparr>"

datatype entry_payload = Blank | Normal_Entry log_entry | Membership_Entry membership

record entry =
  entry_log_id :: log_id
  entry_payload :: entry_payload

section \<open>Log ids, votes, memberships and nodes\<close>

record pb_log_id =
  pbl_term :: u64
  pbl_node_id :: u64
  pbl_index :: u64

definition log_id_to_pb :: "log_id \<Rightarrow> pb_log_id" where
  "log_id_to_pb l = \<lparr>pbl_term = li_term l, pbl_node_id = li_node_id l, pbl_index = li_index l\<rparr>"

definition log_id_from_pb :: "pb_log_id \<Rightarrow> log_id" where
  "log_id_from_pb l = \<lparr>li_term = pbl_term l, li_node_id = pbl_node_id l, li_index = pbl_index l\<rparr>"

record vote =
  vote_term :: u64
  vote_node_id :: u64
  vote_committed :: bool

record pb_vote =
  pbv_term :: u64
  pbv_node_id :: u64
  pbv_committed :: bool

definition vote_to_pb :: "vote \<Rightarrow> pb_vote" where
  "vote_to_pb v =
    \<lparr>pbv_term = vote_term v, pbv_node_id = vote_node_id v, pbv_committed = vote_committed v\<rparr>"

definition vote_from_pb :: "pb_vote \<Rightarrow> vote" where
  "vote_from_pb v =
    \<lparr>vote_term = pbv_term v, vote_node_id = pbv_node_id v, vote_committed = pbv_committed v\<rparr>"

definition pb_vote_default :: pb_vote where
  "pb_vote_default = \<lparr>pbv_term = 0, pbv_node_id = 0, pbv_committed = False\<rparr>"

record vote_request =
  vq_vote :: vote
  vq_last_log_id :: "log_id option"

record pb_vote_request =
  pbq_vote :: "pb_vote option"
  pbq_last_log_id :: "pb_log_id option"

definition vote_request_to_pb :: "vote_request \<Rightarrow> pb_vote_request" where
  "vote_request_to_pb r =
    \<lparr>pbq_vote = Some (vote_to_pb (vq_vote r)),
     pbq_last_log_id = map_option log_id_to_pb (vq_last_log_id r)\<rparr>"

definition vote_request_from_pb :: "pb_vote_request \<Rightarrow> vote_request" where
  "vote_request_from_pb r =
    \<lparr>vq_vote = vote_from_pb (case pbq_vote r of Some v \<Rightarrow> v | None \<Rightarrow> pb_vote_default),
     vq_last_log_id = map_option log_id_from_pb (pbq_last_log_id r)\<rparr>"

record vote_response =
  vr_vote :: vote
  vr_vote_granted :: bool
  vr_last_log_id :: "log_id option"

record pb_vote_response =
  pbr_vote :: "pb_vote option"
  pbr_vote_granted :: bool
  pbr_last_log_id :: "pb_log_id option"

definition vote_response_to_pb :: "vote_response \<Rightarrow> pb_vote_response" where
  "vote_response_to_pb r =
    \<lparr>pbr_vote = Some (vote_to_pb (vr_vote r)), pbr_vote_granted = vr_vote_granted r,
     pbr_last_log_id = map_option log_id_to_pb (vr_last_log_id r)\<rparr>"

definition vote_response_from_pb :: "pb_vote_response \<Rightarrow> vote_response" where
  "vote_response_from_pb r =
    \<lparr>vr_vote = vote_from_pb (case pbr_vote r of Some v \<Rightarrow> v | None \<Rightarrow> pb_vote_default),
     vr_vote_granted = pbr_vote_granted r,
     vr_last_log_id = map_option log_id_from_pb (pbr_last_log_id r)\<rparr>"

record transfer_leader_request =
  tl_from :: vote
  tl_to :: u64
  tl_last_log_id :: "log_id option"

record pb_transfer_leader_request =
  pbt_from :: "pb_vote option"
  pbt_to :: u64
  pbt_last_log_id :: "pb_log_id option"

definition transfer_leader_to_pb :: "transfer_leader_request \<Rightarrow> pb_transfer_leader_request" where
  "transfer_leader_to_pb r =
    \<lparr>pbt_from = Some (vote_to_pb (tl_from r)), pbt_to = tl_to r,
     pbt_last_log_id = map_option log_id_to_pb (tl_last_log_id r)\<rparr>"

text \<open>\<open>None\<close> is the status \<open>missing from\<close>.\<close>

definition transfer_leader_from_pb :: "pb_transfer_leader_request \<Rightarrow> transfer_leader_request option" where
  "transfer_leader_from_pb r =
    (case pbt_from r of
       None \<Rightarrow> None
     | Some v \<Rightarrow> Some \<lparr>tl_from = vote_from_pb v, tl_to = pbt_to r,
                       tl_last_log_id = map_option log_id_from_pb (pbt_last_log_id r)\<rparr>)"

record pb_membership =
  pb_configs :: "u64 list list"
  pb_nodes :: "u64 list"

definition membership_to_pb :: "membership \<Rightarrow> pb_membership" where
  "membership_to_pb m = \<lparr>pb_configs = joint_config m, pb_nodes = member_nodes m\<rparr>"

text \<open>Collecting into a \<open>BTreeSet\<close> or the keys of a \<open>BTreeMap\<close>.\<close>

definition btree_keys :: "u64 list \<Rightarrow> u64 list" where
  "btree_keys xs = remdups (sort xs)"

definition membership_from_pb ::
  "(u64 list list \<Rightarrow> u64 list \<Rightarrow> membership option) \<Rightarrow> pb_membership \<Rightarrow> membership option" where
  "membership_from_pb membership_new m =
    membership_new (map btree_keys (pb_configs m)) (btree_keys (pb_nodes m))"

record pb_node =
  pbn_name :: rstring
  pbn_addr :: rstring
  pbn_port :: u32
  pbn_grpc_api_advertise_address :: "rstring option"

definition node_to_pb :: "node \<Rightarrow> pb_node" where
  "node_to_pb n =
    \<lparr>pbn_name = node_name n, pbn_addr = addr (node_endpoint n),
     pbn_port = ucast (port (node_endpoint n)),
     pbn_grpc_api_advertise_address = grpc_api_advertise_address n\<rparr>"

definition node_from_pb :: "pb_node \<Rightarrow> node" where
  "node_from_pb p =
    with_grpc_advertise_address
      (node_new (pbn_name p) (endpoint_new (pbn_addr p) (ucast (pbn_port p))))
      (pbn_grpc_api_advertise_address p)"

section \<open>Upsert requests\<close>

record pb_match_seq =
  pms_ge :: bool
  pms_value :: u64

fun match_seq_to_pb :: "match_seq \<Rightarrow> pb_match_seq" where
  "match_seq_to_pb MS_Any = \<lparr>pms_ge = True, pms_value = 0\<rparr>"
| "match_seq_to_pb (MS_Exact n) = \<lparr>pms_ge = False, pms_value = n\<rparr>"
| "match_seq_to_pb (MS_GE n) = \<lparr>pms_ge = True, pms_value = n\<rparr>"

definition match_seq_from_pb :: "pb_match_seq \<Rightarrow> match_seq" where
  "match_seq_from_pb p = (if pms_ge p then MS_GE (pms_value p) else MS_Exact (pms_value p))"

text \<open>The outer \<open>None\<close> is the panic on the deprecated \<open>AsIs\<close>.\<close>

fun value_to_pb :: "bytes operation \<Rightarrow> bytes option option" where
  "value_to_pb (Update v) = Some (Some v)"
| "value_to_pb Delete = Some None"
| "value_to_pb AsIs = None"

fun value_from_pb :: "bytes option \<Rightarrow> bytes operation" where
  "value_from_pb (Some v) = Update v"
| "value_from_pb None = Delete"

record pb_cmd_upsert_kv =
  pu_key :: rstring
  pu_seq :: "pb_match_seq option"
  pu_value :: "bytes option"
  pu_expire_at :: "u64 option"
  pu_ttl_ms :: "u64 option"

definition upsert_kv_to_pb :: "upsert_kv \<Rightarrow> pb_cmd_upsert_kv option" where
  "upsert_kv_to_pb u =
    (let (e, t) =
       (case ukv_value_meta u of
          Some m \<Rightarrow> (ms_expire_at m, map_option interval_millis (ms_ttl m))
        | None \<Rightarrow> (None, None))
     in case value_to_pb (ukv_value u) of
          None \<Rightarrow> None
        | Some v \<Rightarrow>
            Some \<lparr>pu_key = ukv_key u, pu_seq = Some (match_seq_to_pb (ukv_seq u)), pu_value = v,
                  pu_expire_at = e, pu_ttl_ms = t\<rparr>)"

datatype convert_error = MissingLogId | MissingNode | MissingSeq | MissingVote | BadMembership

definition upsert_kv_from_pb :: "pb_cmd_upsert_kv \<Rightarrow> convert_error + upsert_kv" where
  "upsert_kv_from_pb p =
    rbind (ok_or MissingSeq (pu_seq p)) (\<lambda>seq.
      let value_meta =
        (case (pu_expire_at p, pu_ttl_ms p) of
           (None, None) \<Rightarrow> None
         | (e, t) \<Rightarrow> Some (meta_spec_new e (map_option interval_from_millis t)))
      in Inr \<lparr>ukv_key = pu_key p, ukv_seq = match_seq_from_pb seq,
              ukv_value = value_from_pb (pu_value p), ukv_value_meta = value_meta\<rparr>)"

section \<open>Entries\<close>

datatype pb_cmd =
    PbAddNode u64 "pb_node option" bool
  | PbRemoveNode u64
  | PbSetFeature rstring bool
  | PbUpsertKv pb_cmd_upsert_kv
  | PbTransaction txn_request
  | PbKvTransaction kv_transaction_request
  | PbMembership pb_membership

record pb_log_entry =
  ple_log_id :: "pb_log_id option"
  ple_proposed_at_ms :: "u64 option"
  ple_cmd :: "pb_cmd option"

fun cmd_to_pb :: "cmd \<Rightarrow> pb_cmd option" where
  "cmd_to_pb (AddNode i n ov) = Some (PbAddNode i (Some (node_to_pb n)) ov)"
| "cmd_to_pb (RemoveNode i) = Some (PbRemoveNode i)"
| "cmd_to_pb (SetFeature f e) = Some (PbSetFeature f e)"
| "cmd_to_pb (KvTransaction t) = Some (PbKvTransaction (txn_to_pb t))"
| "cmd_to_pb (UpsertKV u) = map_option PbUpsertKv (upsert_kv_to_pb u)"
| "cmd_to_pb (CmdTransaction t) = Some (PbTransaction t)"

text \<open>\<open>from_raft\<close>; \<open>None\<close> is a panic.\<close>

definition entry_to_pb :: "entry \<Rightarrow> pb_log_entry option" where
  "entry_to_pb e =
    (let lid = Some (log_id_to_pb (entry_log_id e)) in
     case entry_payload e of
       Blank \<Rightarrow> Some \<lparr>ple_log_id = lid, ple_proposed_at_ms = None, ple_cmd = None\<rparr>
     | Normal_Entry le \<Rightarrow>
         (case cmd_to_pb (le_cmd le) of
            None \<Rightarrow> None
          | Some c \<Rightarrow> Some \<lparr>ple_log_id = lid, ple_proposed_at_ms = le_time_ms le, ple_cmd = Some c\<rparr>)
     | Membership_Entry m \<Rightarrow>
         Some \<lparr>ple_log_id = lid, ple_proposed_at_ms = None,
               ple_cmd = Some (PbMembership (membership_to_pb m))\<rparr>)"

text \<open>The second inner match of \<open>try_into_raft\<close>; its last arm is unreachable.\<close>

fun cmd_from_pb :: "pb_enums \<Rightarrow> pb_cmd \<Rightarrow> convert_error + cmd" where
  "cmd_from_pb E (PbAddNode i n ov) =
    rbind (ok_or MissingNode (map_option node_from_pb n)) (\<lambda>n. Inr (AddNode i n ov))"
| "cmd_from_pb E (PbRemoveNode i) = Inr (RemoveNode i)"
| "cmd_from_pb E (PbSetFeature f e) = Inr (SetFeature f e)"
| "cmd_from_pb E (PbUpsertKv u) = rbind (upsert_kv_from_pb u) (\<lambda>u. Inr (UpsertKV u))"
| "cmd_from_pb E (PbTransaction t) = Inr (CmdTransaction t)"
| "cmd_from_pb E (PbKvTransaction r) = Inr (KvTransaction (txn_from_pb E r))"
| "cmd_from_pb E (PbMembership m) = Inl BadMembership"

definition entry_from_pb ::
  "pb_enums \<Rightarrow> (u64 list list \<Rightarrow> u64 list \<Rightarrow> membership option) \<Rightarrow> pb_log_entry \<Rightarrow>
   convert_error + entry" where
  "entry_from_pb E membership_new p =
    rbind (ok_or MissingLogId (map_option log_id_from_pb (ple_log_id p))) (\<lambda>lid.
    rbind
      (case ple_cmd p of
         None \<Rightarrow> Inr Blank
       | Some (PbMembership m) \<Rightarrow>
           rbind (ok_or BadMembership (membership_from_pb membership_new m)) (\<lambda>m.
             Inr (Membership_Entry m))
       | Some c \<Rightarrow>
           rbind (cmd_from_pb E c) (\<lambda>c.
             Inr (Normal_Entry \<lparr>le_time_ms = ple_proposed_at_ms p, le_cmd = c\<rparr>)))
      (\<lambda>payload. Inr \<lparr>entry_log_id = lid, entry_payload = payload\<rparr>))"

section \<open>Append requests and responses\<close>

record append_request =
  ar_vote :: vote
  ar_prev_log_id :: "log_id option"
  ar_entries :: "entry list"
  ar_leader_commit :: "log_id option"

record pb_append_request =
  par_vote :: "pb_vote option"
  par_prev_log_id :: "pb_log_id option"
  par_entries :: "pb_log_entry list"
  par_leader_commit :: "pb_log_id option"

definition append_request_to_pb :: "append_request \<Rightarrow> pb_append_request option" where
  "append_request_to_pb r =
    (case ocollect (map entry_to_pb (ar_entries r)) of
       None \<Rightarrow> None
     | Some es \<Rightarrow>
         Some \<lparr>par_vote = Some (vote_to_pb (ar_vote r)),
               par_prev_log_id = map_option log_id_to_pb (ar_prev_log_id r),
               par_entries = es,
               par_leader_commit = map_option log_id_to_pb (ar_leader_commit r)\<rparr>)"

definition append_request_from_pb ::
  "pb_enums \<Rightarrow> (u64 list list \<Rightarrow> u64 list \<Rightarrow> membership option) \<Rightarrow> pb_append_request \<Rightarrow>
   convert_error + append_request" where
  "append_request_from_pb E membership_new p =
    rbind (ok_or MissingVote (map_option vote_from_pb (par_vote p))) (\<lambda>v.
    rbind (rcollect (map (entry_from_pb E membership_new) (par_entries p))) (\<lambda>es.
    Inr \<lparr>ar_vote = v, ar_prev_log_id = map_option log_id_from_pb (par_prev_log_id p),
         ar_entries = es, ar_leader_commit = map_option log_id_from_pb (par_leader_commit p)\<rparr>))"

datatype append_response =
  Success | PartialSuccess "log_id option" | Conflict | HigherVote vote

record pb_append_response =
  rejected_by :: "pb_vote option"
  conflict_log_id :: "pb_log_id option"
  last_log_id :: "pb_log_id option"

fun append_response_to_pb :: "append_response \<Rightarrow> pb_append_response" where
  "append_response_to_pb Success =
    \<lparr>rejected_by = None, conflict_log_id = None, last_log_id = None\<rparr>"
| "append_response_to_pb (PartialSuccess l) =
    \<lparr>rejected_by = None, conflict_log_id = None, last_log_id = map_option log_id_to_pb l\<rparr>"
| "append_response_to_pb Conflict =
    \<lparr>rejected_by = None,
     conflict_log_id = Some \<lparr>pbl_term = 0, pbl_node_id = 0, pbl_index = 0\<rparr>, last_log_id = None\<rparr>"
| "append_response_to_pb (HigherVote v) =
    \<lparr>rejected_by = Some (vote_to_pb v), conflict_log_id = None, last_log_id = None\<rparr>"

definition append_response_from_pb :: "pb_append_response \<Rightarrow> append_response" where
  "append_response_from_pb p =
    (case rejected_by p of
       Some v \<Rightarrow> HigherVote (vote_from_pb v)
     | None \<Rightarrow>
         if conflict_log_id p \<noteq> None then Conflict
         else (case last_log_id p of
                 Some l \<Rightarrow> PartialSuccess (Some (log_id_from_pb l))
               | None \<Rightarrow> Success))"

datatype stream_append_error = StreamConflict log_id | StreamHigherVote vote

fun stream_result_to_pb :: "stream_append_error + log_id option \<Rightarrow> pb_append_response" where
  "stream_result_to_pb (Inr l) =
    \<lparr>rejected_by = None, conflict_log_id = None, last_log_id = map_option log_id_to_pb l\<rparr>"
| "stream_result_to_pb (Inl (StreamConflict l)) =
    \<lparr>rejected_by = None, conflict_log_id = Some (log_id_to_pb l), last_log_id = None\<rparr>"
| "stream_result_to_pb (Inl (StreamHigherVote v)) =
    \<lparr>rejected_by = Some (vote_to_pb v), conflict_log_id = None, last_log_id = None\<rparr>"

definition stream_result_from_pb :: "pb_append_response \<Rightarrow> stream_append_error + log_id option" where
  "stream_result_from_pb p =
    (case rejected_by p of
       Some v \<Rightarrow> Inl (StreamHigherVote (vote_from_pb v))
     | None \<Rightarrow>
         (case conflict_log_id p of
            Some l \<Rightarrow> Inl (StreamConflict (log_id_from_pb l))
          | None \<Rightarrow> Inr (map_option log_id_from_pb (last_log_id p))))"

section \<open>Entries with the same effect\<close>

text \<open>
  The wire format has one form for requests that act alike: \<open>Any\<close> is sent as at least 0, and
  metadata without expiry and without a time to live is sent as no metadata.
\<close>

definition upsert_norm :: "upsert_kv \<Rightarrow> upsert_kv" where
  "upsert_norm u =
    u\<lparr>ukv_seq := (case ukv_seq u of MS_Any \<Rightarrow> MS_GE 0 | s \<Rightarrow> s),
      ukv_value_meta :=
        (if ukv_value_meta u = Some \<lparr>ms_expire_at = None, ms_ttl = None\<rparr> then None
         else ukv_value_meta u)\<rparr>"

fun cmd_equiv :: "cmd \<Rightarrow> cmd \<Rightarrow> bool" where
  "cmd_equiv (AddNode i n ov) c \<longleftrightarrow> c = AddNode i (n\<lparr>grpc_api_addr := None\<rparr>) ov"
| "cmd_equiv (UpsertKV u) c \<longleftrightarrow> c = UpsertKV (upsert_norm u)"
| "cmd_equiv (KvTransaction t) c \<longleftrightarrow>
    (\<exists>t'. c = KvTransaction t' \<and>
      (\<forall>f. first_match f 0 (branches t') = first_match f 0 (branches t)) \<and>
      map br_operations (branches t') = map br_operations (branches t))"
| "cmd_equiv d c \<longleftrightarrow> c = d"

fun payload_equiv :: "entry_payload \<Rightarrow> entry_payload \<Rightarrow> bool" where
  "payload_equiv (Normal_Entry a) b \<longleftrightarrow>
    (\<exists>l. b = Normal_Entry l \<and> le_time_ms l = le_time_ms a \<and> cmd_equiv (le_cmd a) (le_cmd l))"
| "payload_equiv a b \<longleftrightarrow> b = a"

definition entry_equiv :: "entry \<Rightarrow> entry \<Rightarrow> bool" where
  "entry_equiv a b \<longleftrightarrow>
    entry_log_id b = entry_log_id a \<and> payload_equiv (entry_payload a) (entry_payload b)"

text \<open>An entry that can be sent: no upsert with the deprecated \<open>AsIs\<close>, a known membership.\<close>

definition sendable ::
  "(u64 list list \<Rightarrow> u64 list \<Rightarrow> membership option) \<Rightarrow> entry \<Rightarrow> bool" where
  "sendable membership_new e \<longleftrightarrow>
    (case entry_payload e of
       Blank \<Rightarrow> True
     | Normal_Entry l \<Rightarrow> (case le_cmd l of UpsertKV u \<Rightarrow> ukv_value u \<noteq> AsIs | _ \<Rightarrow> True)
     | Membership_Entry m \<Rightarrow>
         membership_new (map btree_keys (joint_config m)) (btree_keys (member_nodes m)) = Some m)"

section \<open>Lemmas\<close>

lemma log_id_roundtrip [simp]: "log_id_from_pb (log_id_to_pb l) = l"
  by (simp add: log_id_from_pb_def log_id_to_pb_def)

lemma map_option_log_id_roundtrip [simp]:
  "map_option log_id_from_pb (map_option log_id_to_pb l) = l"
  by (simp add: option.map_comp comp_def option.map_ident)

lemma vote_roundtrip [simp]: "vote_from_pb (vote_to_pb v) = v"
  by (simp add: vote_from_pb_def vote_to_pb_def)

lemma vote_request_roundtrip: "vote_request_from_pb (vote_request_to_pb r) = r"
  by (simp add: vote_request_from_pb_def vote_request_to_pb_def)

lemma vote_response_roundtrip: "vote_response_from_pb (vote_response_to_pb r) = r"
  by (simp add: vote_response_from_pb_def vote_response_to_pb_def)

lemma transfer_leader_roundtrip: "transfer_leader_from_pb (transfer_leader_to_pb r) = Some r"
  by (simp add: transfer_leader_from_pb_def transfer_leader_to_pb_def)

lemma node_roundtrip: "node_from_pb (node_to_pb n) = n\<lparr>grpc_api_addr := None\<rparr>"
proof -
  have "ucast (ucast p :: u32) = p" for p :: u16
    by (rule ucast_up_ucast_id) (simp add: is_up)
  then show ?thesis
    by (simp add: node_from_pb_def node_to_pb_def with_grpc_advertise_address_def node_new_def
        endpoint_new_def)
qed

lemma upsert_kv_roundtrip:
  assumes "ukv_value u \<noteq> AsIs"
  obtains p where "upsert_kv_to_pb u = Some p" "upsert_kv_from_pb p = Inr (upsert_norm u)"
proof -
  obtain v where v: "value_to_pb (ukv_value u) = Some v" "value_from_pb v = ukv_value u"
    using assms by (cases "ukv_value u") auto
  have s: "match_seq_from_pb (match_seq_to_pb (ukv_seq u)) =
      (case ukv_seq u of MS_Any \<Rightarrow> MS_GE 0 | s \<Rightarrow> s)"
    by (cases "ukv_seq u") (simp_all add: match_seq_from_pb_def)
  have i: "interval_from_millis (interval_millis j) = j" for j
    by (cases j) (metis interval.collapse interval_from_millis)
  obtain p where p: "upsert_kv_to_pb u = Some p"
    by (cases "ukv_value_meta u") (auto simp: upsert_kv_to_pb_def v(1))
  moreover from p have "upsert_kv_from_pb p = Inr (upsert_norm u)"
    by (cases "ukv_value_meta u")
      (auto simp: upsert_kv_to_pb_def upsert_kv_from_pb_def upsert_norm_def v s i
        meta_spec_new_def option.map_comp comp_def option.map_ident split: option.splits)
  ultimately show thesis by (rule that)
qed

lemma cmd_roundtrip:
  assumes "pb_enums_ok E" "case c of UpsertKV u \<Rightarrow> ukv_value u \<noteq> AsIs | _ \<Rightarrow> True"
  obtains p c' where "cmd_to_pb c = Some p" "cmd_from_pb E p = Inr c'" "cmd_equiv c c'"
    "\<forall>m. p \<noteq> PbMembership m"
proof (cases c)
  case (UpsertKV u)
  with assms obtain p where "upsert_kv_to_pb u = Some p" "upsert_kv_from_pb p = Inr (upsert_norm u)"
    by (auto elim: upsert_kv_roundtrip)
  with UpsertKV show ?thesis by (auto intro!: that)
next
  case (KvTransaction t)
  have "first_match f 0 (branches (txn_from_pb E (txn_to_pb t))) = first_match f 0 (branches t)" for f
    unfolding txn_from_pb_def txn_to_pb_def
    by (simp add: comp_def) (rule first_match_map, rule branch_roundtrip(2) [OF assms(1)])
  moreover have "map br_operations (branches (txn_from_pb E (txn_to_pb t))) =
      map br_operations (branches t)"
    by (simp add: txn_from_pb_def txn_to_pb_def comp_def branch_roundtrip(1) [OF assms(1)])
  ultimately show ?thesis using KvTransaction by (auto intro!: that)
qed (auto intro!: that simp: node_roundtrip)

lemma entry_roundtrip:
  assumes "pb_enums_ok E" "sendable membership_new e"
  obtains p e' where "entry_to_pb e = Some p" "entry_from_pb E membership_new p = Inr e'"
    "entry_equiv e e'"
proof (cases "entry_payload e")
  case Blank
  then show ?thesis by (auto intro!: that simp: entry_to_pb_def entry_from_pb_def entry_equiv_def)
next
  case (Normal_Entry l)
  with assms obtain p c' where "cmd_to_pb (le_cmd l) = Some p" "cmd_from_pb E p = Inr c'"
    "cmd_equiv (le_cmd l) c'" "\<forall>m. p \<noteq> PbMembership m"
    by (auto simp: sendable_def elim: cmd_roundtrip)
  then show ?thesis using Normal_Entry
    by (cases p) (auto intro!: that simp: entry_to_pb_def entry_from_pb_def entry_equiv_def)
next
  case (Membership_Entry m)
  with assms show ?thesis
    by (auto intro!: that simp: entry_to_pb_def entry_from_pb_def entry_equiv_def sendable_def
        membership_to_pb_def membership_from_pb_def)
qed

lemma entries_roundtrip:
  assumes "pb_enums_ok E" "\<forall>e \<in> set es. sendable membership_new e"
  shows "\<exists>ps es'. ocollect (map entry_to_pb es) = Some ps \<and>
    rcollect (map (entry_from_pb E membership_new) ps) = Inr es' \<and> list_all2 entry_equiv es es'"
  using assms(2)
proof (induction es)
  case (Cons e es)
  then obtain p e' where "entry_to_pb e = Some p" "entry_from_pb E membership_new p = Inr e'"
    "entry_equiv e e'"
    using entry_roundtrip [OF assms(1)] by (metis list.set_intros(1))
  moreover obtain ps es' where "ocollect (map entry_to_pb es) = Some ps"
    "rcollect (map (entry_from_pb E membership_new) ps) = Inr es'" "list_all2 entry_equiv es es'"
    using Cons by auto
  ultimately have "ocollect (map entry_to_pb (e # es)) = Some (p # ps) \<and>
      rcollect (map (entry_from_pb E membership_new) (p # ps)) = Inr (e' # es') \<and>
      list_all2 entry_equiv (e # es) (e' # es')"
    by simp
  then show ?case by blast
qed simp

section \<open>Properties\<close>

text \<open>
  C31: a replicated append request survives the wire.  When every entry can be sent, the
  request is encoded without a panic, decoded without an error, and the decoded request has
  the same vote, log positions and entries, up to the one wire form of requests that act
  alike.
\<close>

theorem append_request_roundtrip:
  assumes "pb_enums_ok E" "\<forall>e \<in> set (ar_entries r). sendable membership_new e"
  shows "\<exists>p r'. append_request_to_pb r = Some p \<and>
    append_request_from_pb E membership_new p = Inr r' \<and>
    ar_vote r' = ar_vote r \<and> ar_prev_log_id r' = ar_prev_log_id r \<and>
    ar_leader_commit r' = ar_leader_commit r \<and>
    list_all2 entry_equiv (ar_entries r) (ar_entries r')"
proof -
  obtain ps es' where "ocollect (map entry_to_pb (ar_entries r)) = Some ps"
    "rcollect (map (entry_from_pb E membership_new) ps) = Inr es'"
    "list_all2 entry_equiv (ar_entries r) es'"
    using entries_roundtrip [OF assms] by blast
  then show ?thesis by (simp add: append_request_to_pb_def append_request_from_pb_def)
qed

definition sample_append :: append_request where
  "sample_append =
    \<lparr>ar_vote = \<lparr>vote_term = 2, vote_node_id = 1, vote_committed = True\<rparr>,
     ar_prev_log_id = Some (new_log_id 1 1 4),
     ar_entries =
       [\<lparr>entry_log_id = new_log_id 2 1 5, entry_payload = Blank\<rparr>,
        \<lparr>entry_log_id = new_log_id 2 1 6,
         entry_payload = Normal_Entry (log_entry_new_with_time
           (UpsertKV (upsert_kv_update [97] [1])) (Some 1000))\<rparr>,
        \<lparr>entry_log_id = new_log_id 2 1 7,
         entry_payload = Membership_Entry \<lparr>joint_config = [[1, 2]], member_nodes = [1, 2]\<rparr>\<rparr>],
     ar_leader_commit = None\<rparr>"

theorem append_request_roundtrip_witness:
  "\<exists>p r'. append_request_to_pb sample_append = Some p \<and>
    append_request_from_pb prost_enums (\<lambda>c n. Some \<lparr>joint_config = c, member_nodes = n\<rparr>) p = Inr r' \<and>
    ar_vote r' = ar_vote sample_append \<and> ar_prev_log_id r' = ar_prev_log_id sample_append \<and>
    ar_leader_commit r' = ar_leader_commit sample_append \<and>
    list_all2 entry_equiv (ar_entries sample_append) (ar_entries r')"
  by (rule append_request_roundtrip)
    (simp_all add: prost_enums_ok sample_append_def sendable_def log_entry_new_with_time_def
      upsert_kv_update_def btree_keys_def)

text \<open>
  C40: responses to append requests.  The result of a streamed append is read back unchanged.
  The older response type is read back unchanged except that a partial success without any
  matching log becomes a full success.
\<close>

theorem append_response_roundtrip:
  "stream_result_from_pb (stream_result_to_pb res) = res \<and>
   append_response_from_pb (append_response_to_pb resp) =
     (if resp = PartialSuccess None then Success else resp)"
proof
  show "stream_result_from_pb (stream_result_to_pb res) = res"
    by (cases res rule: stream_result_to_pb.cases) (simp_all add: stream_result_from_pb_def)
  show "append_response_from_pb (append_response_to_pb resp) =
      (if resp = PartialSuccess None then Success else resp)"
    by (cases resp rule: append_response_to_pb.cases)
      (auto simp: append_response_from_pb_def split: option.splits)
qed

end
