(* ===== verification/Sm_Api.thy ===== *)
theory Sm_Api
  imports Log_Entry Codec
begin

text \<open>
  The high-level operations on the state machine (\<open>state_machine_api_ext.rs\<close>,
  \<open>MapApiHelper::update_meta\<close> of \<open>leveled_store/map_api.rs\<close>, and the implementation of the
  state machine interface for \<open>ApplierData\<close> in \<open>sm_v003.rs\<close>): conditional upsert of the
  primary index, maintenance of the secondary expiration index, and listing.

  The transactional view that holds both maps, and the pure functions of the crates
  \<open>seq_marked\<close>, \<open>state_machine_api\<close>, \<open>map_api\<close> and \<open>serde_json\<close>, are fields of the record
  \<open>env\<close>, which every operation takes as its first argument.  What the operations rely on is
  stated by \<open>env_ok\<close>: the documented behaviour of these functions.  The type variable \<open>'w\<close>
  is the view.  An I/O error is the left value and the state is then dropped.  For the view this is
  what the source does, which never commits it; system data, the time of the last cleaning and
  published changes are written to the shared state directly, and what a failing operation has
  written to them before is not described.
\<close>

section \<open>Stored values\<close>

datatype 'v marked = Normal 'v | TombStone

datatype 'v seq_marked = SeqMarked (internal_seq: u64) (marked: "'v marked")

type_synonym meta_value = "kvmeta option \<times> bytes"

type_synonym 'a strm = "(io_error + 'a) list"

text \<open>A change of a key that is published: key, value before and value after.\<close>

type_synonym kv_change = "rstring \<times> bytes seqv option \<times> bytes seqv option"

section \<open>Functions of other crates\<close>

record 'w env =
  x_seq :: "meta_value seq_marked \<Rightarrow> u64"
  x_is_tombstone :: "meta_value seq_marked \<Rightarrow> bool"
  x_into_data :: "meta_value seq_marked \<Rightarrow> meta_value option"
  x_into_key :: "rstring seq_marked \<Rightarrow> rstring option"
  x_into_seqv :: "meta_value seq_marked \<Rightarrow> bytes seqv option"
  x_expires_at_ms :: "kvmeta \<Rightarrow> u64"
  x_expires_at_ms_opt :: "meta_value seq_marked \<Rightarrow> u64 option"
  x_match_seq :: "match_seq \<Rightarrow> u64 \<Rightarrow> bool"
  x_is_expired :: "expire_key \<Rightarrow> u64 \<Rightarrow> bool"
  x_opt_seq :: "u64 option \<Rightarrow> u64"
  x_json_to_u64 :: "bytes \<Rightarrow> u64 option"
  x_u64_to_json :: "u64 \<Rightarrow> bytes"
  um_get :: "'w \<Rightarrow> rstring \<Rightarrow> meta_value seq_marked io_result"
  um_range :: "'w \<Rightarrow> rstring bound \<times> rstring bound \<Rightarrow> (rstring \<times> meta_value seq_marked) strm io_result"
  um_fetch_and_set :: "'w \<Rightarrow> rstring \<Rightarrow> meta_value option \<Rightarrow>
    ((meta_value seq_marked \<times> meta_value seq_marked) \<times> 'w) io_result"
  em_range :: "'w \<Rightarrow> expire_key bound \<times> expire_key bound \<Rightarrow> (expire_key \<times> rstring seq_marked) strm io_result"
  em_set :: "'w \<Rightarrow> expire_key \<Rightarrow> rstring option \<Rightarrow> 'w"

section \<open>State of the applier's state machine\<close>

record 'w sm =
  view :: 'w
  sys :: sys_data
  cleanup_start :: duration
  subscribed :: bool
  sent :: "kv_change list"

definition on_change_applied :: "'w sm \<Rightarrow> kv_change \<Rightarrow> 'w sm" where
  "on_change_applied s c = (if \<not> subscribed s then s else s\<lparr>sent := sent s @ [c]\<rparr>)"

definition set_cleanup_start_timestamp :: "'w sm \<Rightarrow> duration \<Rightarrow> 'w sm" where
  "set_cleanup_start_timestamp s d = s\<lparr>cleanup_start := d\<rparr>"

definition with_sys_data :: "'w sm \<Rightarrow> (sys_data \<Rightarrow> sys_data) \<Rightarrow> 'w sm" where
  "with_sys_data s f = s\<lparr>sys := f (sys s)\<rparr>"

section \<open>Streams\<close>

text \<open>\<open>try_filter_map\<close>: errors stay in the stream.\<close>

fun try_filter_map :: "('a \<Rightarrow> 'b option) \<Rightarrow> 'a strm \<Rightarrow> 'b strm" where
  "try_filter_map f [] = []"
| "try_filter_map f (Inl e # rest) = Inl e # try_filter_map f rest"
| "try_filter_map f (Inr a # rest) =
    (case f a of None \<Rightarrow> try_filter_map f rest | Some b \<Rightarrow> Inr b # try_filter_map f rest)"

definition seq_marked_to_seqv ::
  "'w env \<Rightarrow> rstring \<times> meta_value seq_marked \<Rightarrow> (rstring \<times> bytes seqv) option" where
  "seq_marked_to_seqv X kv = map_option (\<lambda>x. (fst kv, x)) (x_into_seqv X (snd kv))"

section \<open>Operations\<close>

definition update_meta ::
  "'w env \<Rightarrow> 'w \<Rightarrow> rstring \<Rightarrow> kvmeta option \<Rightarrow>
   ((meta_value seq_marked \<times> meta_value seq_marked) \<times> 'w) io_result" where
  "update_meta X w key meta =
    rbind (um_get X w key) (\<lambda>got.
      if x_is_tombstone X got then Inr ((got, got), w)
      else (case x_into_data X got of
              None \<Rightarrow> Inl Panicked
            | Some (old, v) \<Rightarrow> um_fetch_and_set X w key (Some (meta, v))))"

definition default_meta_spec :: meta_spec where
  "default_meta_spec = \<lparr>ms_expire_at = None, ms_ttl = None\<rparr>"

definition upsert_kv_primary_index ::
  "'w env \<Rightarrow> 'w sm \<Rightarrow> upsert_kv \<Rightarrow> cmd_context \<Rightarrow>
   ((meta_value seq_marked \<times> meta_value seq_marked) \<times> 'w sm) io_result" where
  "upsert_kv_primary_index X s u ctx =
    (let kv_meta = resolve_meta_spec ctx
           (case ukv_value_meta u of None \<Rightarrow> default_meta_spec | Some m \<Rightarrow> m)
     in
     rbind (um_get X (view s) (ukv_key u)) (\<lambda>prev.
     if \<not> x_match_seq X (ukv_seq u) (x_seq X prev) then Inr ((prev, prev), s)
     else
       rbind
         (case ukv_value u of
            Update v \<Rightarrow> um_fetch_and_set X (view s) (ukv_key u) (Some (Some kv_meta, v))
          | Delete \<Rightarrow> um_fetch_and_set X (view s) (ukv_key u) None
          | AsIs \<Rightarrow> update_meta X (view s) (ukv_key u) (Some kv_meta))
         (\<lambda>((prev, result), w1).
           let expire_ms = x_expires_at_ms X kv_meta;
               curr_time_ms = time_millis (ctx_time ctx)
           in
           if expire_ms < curr_time_ms then
             rbind (um_fetch_and_set X w1 (ukv_key u) None) (\<lambda>((p, r), w2).
               Inr ((prev, r), s\<lparr>view := w2\<rparr>))
           else Inr ((prev, result), s\<lparr>view := w1\<rparr>))))"

definition list_kv ::
  "'w env \<Rightarrow> 'w sm \<Rightarrow> rstring \<Rightarrow> (rstring \<times> bytes seqv) strm io_result" where
  "list_kv X s p =
    rbind
      (case prefix_right_bound p of
         Some right \<Rightarrow> um_range X (view s) (Included p, Excluded right)
       | None \<Rightarrow> um_range X (view s) (Included p, Unbounded))
      (\<lambda>strm. Inr (try_filter_map (seq_marked_to_seqv X) strm))"

definition range_kv ::
  "'w env \<Rightarrow> 'w sm \<Rightarrow> rstring bound \<times> rstring bound \<Rightarrow> (rstring \<times> bytes seqv) strm io_result" where
  "range_kv X s rng =
    rbind (um_range X (view s) rng) (\<lambda>strm. Inr (try_filter_map (seq_marked_to_seqv X) strm))"

definition update_expire_index ::
  "'w env \<Rightarrow> 'w sm \<Rightarrow> rstring \<Rightarrow> meta_value seq_marked \<Rightarrow> meta_value seq_marked \<Rightarrow> 'w sm" where
  "update_expire_index X s key removed added =
    (if removed = added then s
     else
       let s1 =
         (case x_expires_at_ms_opt X removed of
            Some exp_ms \<Rightarrow> s\<lparr>view := em_set X (view s) (ExpireKey exp_ms (internal_seq removed)) None\<rparr>
          | None \<Rightarrow> s)
       in
         (case x_expires_at_ms_opt X added of
            Some exp_ms \<Rightarrow>
              s1\<lparr>view := em_set X (view s1) (ExpireKey exp_ms (internal_seq added)) (Some key)\<rparr>
          | None \<Rightarrow> s1))"

definition list_expire_index ::
  "'w env \<Rightarrow> 'w sm \<Rightarrow> u64 \<Rightarrow> (expire_key \<times> rstring) strm io_result" where
  "list_expire_index X s curr_time_ms =
    (let start_ms = millis_u64 (cleanup_start s);
         start = ExpireKey start_ms 0;
         stop = ExpireKey curr_time_ms 0
     in
     if stop \<le> start then Inr []
     else
       rbind (em_range X (view s) (Included start, Excluded stop)) (\<lambda>strm.
         Inr (try_filter_map (\<lambda>(k, m). map_option (\<lambda>v. (k, v)) (x_into_key X m)) strm)))"

definition get_maybe_expired_kv :: "'w env \<Rightarrow> 'w sm \<Rightarrow> rstring \<Rightarrow> bytes seqv option io_result" where
  "get_maybe_expired_kv X s key = rbind (um_get X (view s) key) (\<lambda>got. Inr (x_into_seqv X got))"

section \<open>Documented behaviour of the libraries\<close>

text \<open>
  Pure functions: a tombstone has no value, no expiry and the sequence number 0 for a user;
  a value without an expiry time expires at the maximal time; a key is expired when its time
  is before the given time.
\<close>

definition env_pure_ok :: "'w env \<Rightarrow> bool" where
  "env_pure_ok X \<longleftrightarrow>
    (\<forall>s d. x_seq X (SeqMarked s (Normal d)) = s) \<and>
    (\<forall>s. x_seq X (SeqMarked s TombStone) = 0) \<and>
    (\<forall>m. x_is_tombstone X m \<longleftrightarrow> marked m = TombStone) \<and>
    (\<forall>s d. x_into_data X (SeqMarked s (Normal d)) = Some d) \<and>
    (\<forall>s. x_into_key X (SeqMarked s TombStone) = None) \<and>
    (\<forall>s k. x_into_key X (SeqMarked s (Normal k)) = Some k) \<and>
    (\<forall>s. x_into_seqv X (SeqMarked s TombStone) = None) \<and>
    (\<forall>s m v. x_into_seqv X (SeqMarked s (Normal (m, v))) = Some \<lparr>sv_seq = s, sv_meta = m, sv_data = v\<rparr>) \<and>
    (\<forall>s. x_expires_at_ms_opt X (SeqMarked s TombStone) = None) \<and>
    (\<forall>s m v. x_expires_at_ms_opt X (SeqMarked s (Normal (m, v))) =
      (case m of None \<Rightarrow> None
       | Some km \<Rightarrow> if expire_at km = None then None else Some (x_expires_at_ms X km))) \<and>
    (\<forall>km. expire_at km = None \<longrightarrow> x_expires_at_ms X km = u64_max) \<and>
    (\<forall>n. x_match_seq X MS_Any n) \<and>
    (\<forall>m n. x_match_seq X (MS_Exact m) n \<longleftrightarrow> n = m) \<and>
    (\<forall>m n. x_match_seq X (MS_GE m) n \<longleftrightarrow> m \<le> n) \<and>
    (\<forall>k t. x_is_expired X k t \<longleftrightarrow> time_ms k < t) \<and>
    x_opt_seq X None = 0 \<and> (\<forall>n. x_opt_seq X (Some n) = n) \<and>
    (\<forall>n. x_json_to_u64 X (x_u64_to_json X n) = Some n)"

text \<open>The items of a stream that are not errors; they come in strictly ascending order of keys.\<close>

fun ok_items :: "'a strm \<Rightarrow> 'a list" where
  "ok_items [] = []"
| "ok_items (Inl e # rest) = ok_items rest"
| "ok_items (Inr a # rest) = a # ok_items rest"

definition ascending :: "('k :: linorder \<times> 'v) strm \<Rightarrow> bool" where
  "ascending strm \<longleftrightarrow> sorted_wrt (<) (map fst (ok_items strm))"

definition no_error :: "'a strm \<Rightarrow> bool" where
  "no_error strm \<longleftrightarrow> list_all (\<lambda>x. \<not> isl x) strm"

text \<open>
  The view.  \<open>U w\<close> is the map of user keys that a view shows, \<open>N w\<close> the expiration index and
  \<open>Q w\<close> the last sequence number given out.  A successful read shows the map.  Storing a value
  gives it a sequence number larger than all before; storing a tombstone does not use one up;
  neither changes the index.  A range without errors shows every value of the range in order,
  and shows nothing that is not in the map.
\<close>

definition get_ok :: "'w env \<Rightarrow> ('w \<Rightarrow> rstring \<Rightarrow> meta_value seq_marked) \<Rightarrow> bool" where
  "get_ok X U \<longleftrightarrow> (\<forall>w k m. um_get X w k = Inr m \<longrightarrow> m = U w k)"

definition set_value_law ::
  "'w env \<Rightarrow> ('w \<Rightarrow> rstring \<Rightarrow> meta_value seq_marked) \<Rightarrow> ('w \<Rightarrow> expire_key \<Rightarrow> rstring option) \<Rightarrow> ('w \<Rightarrow> u64) \<Rightarrow> bool" where
  "set_value_law X U N Q \<longleftrightarrow>
    (\<forall>w k v p r w'. um_fetch_and_set X w k (Some v) = Inr ((p, r), w') \<longrightarrow>
       p = U w k \<and> U w' = (U w)(k := r) \<and> N w' = N w \<and>
       (\<exists>n. r = SeqMarked n (Normal v) \<and> Q w < n \<and> Q w' = n))"

definition set_tombstone_law ::
  "'w env \<Rightarrow> ('w \<Rightarrow> rstring \<Rightarrow> meta_value seq_marked) \<Rightarrow> ('w \<Rightarrow> expire_key \<Rightarrow> rstring option) \<Rightarrow> ('w \<Rightarrow> u64) \<Rightarrow> bool" where
  "set_tombstone_law X U N Q \<longleftrightarrow>
    (\<forall>w k p r w'. um_fetch_and_set X w k None = Inr ((p, r), w') \<longrightarrow>
       p = U w k \<and> U w' = (U w)(k := r) \<and> N w' = N w \<and>
       (\<exists>n. r = SeqMarked n TombStone \<and> n \<le> Q w \<and> Q w' = Q w))"

definition set_index_law ::
  "'w env \<Rightarrow> ('w \<Rightarrow> rstring \<Rightarrow> meta_value seq_marked) \<Rightarrow> ('w \<Rightarrow> expire_key \<Rightarrow> rstring option) \<Rightarrow> ('w \<Rightarrow> u64) \<Rightarrow> bool" where
  "set_index_law X U N Q \<longleftrightarrow>
    (\<forall>w k v. U (em_set X w k v) = U w \<and> N (em_set X w k v) = (N w)(k := v) \<and>
       Q (em_set X w k v) = Q w)"

definition range_law :: "'w env \<Rightarrow> ('w \<Rightarrow> rstring \<Rightarrow> meta_value seq_marked) \<Rightarrow> bool" where
  "range_law X U \<longleftrightarrow>
    (\<forall>w rng strm. um_range X w rng = Inr strm \<longrightarrow>
       ascending strm \<and>
       (\<forall>k m. Inr (k, m) \<in> set strm \<longrightarrow> in_range rng k \<and> m = U w k) \<and>
       (\<forall>k. no_error strm \<and> in_range rng k \<and> marked (U w k) \<noteq> TombStone \<longrightarrow>
            Inr (k, U w k) \<in> set strm))"

definition index_range_law :: "'w env \<Rightarrow> ('w \<Rightarrow> expire_key \<Rightarrow> rstring option) \<Rightarrow> bool" where
  "index_range_law X N \<longleftrightarrow>
    (\<forall>w rng strm. em_range X w rng = Inr strm \<longrightarrow>
       ascending strm \<and>
       (\<forall>k n v. Inr (k, SeqMarked n (Normal v)) \<in> set strm \<longrightarrow> in_range rng k \<and> N w k = Some v) \<and>
       (\<forall>k v. no_error strm \<and> in_range rng k \<and> N w k = Some v \<longrightarrow>
            (\<exists>n. Inr (k, SeqMarked n (Normal v)) \<in> set strm)))"

definition view_ok ::
  "'w env \<Rightarrow> ('w \<Rightarrow> rstring \<Rightarrow> meta_value seq_marked) \<Rightarrow> ('w \<Rightarrow> expire_key \<Rightarrow> rstring option) \<Rightarrow> ('w \<Rightarrow> u64) \<Rightarrow> bool" where
  "view_ok X U N Q \<longleftrightarrow>
    get_ok X U \<and> set_value_law X U N Q \<and> set_tombstone_law X U N Q \<and> set_index_law X U N Q \<and>
    range_law X U \<and> index_range_law X N"

definition env_ok ::
  "'w env \<Rightarrow> ('w \<Rightarrow> rstring \<Rightarrow> meta_value seq_marked) \<Rightarrow> ('w \<Rightarrow> expire_key \<Rightarrow> rstring option) \<Rightarrow>
   ('w \<Rightarrow> u64) \<Rightarrow> bool" where
  "env_ok X U N Q \<longleftrightarrow> env_pure_ok X \<and> view_ok X U N Q"

text \<open>
  The invariant of the two indexes: the expiration index holds exactly one entry for every
  stored value with an expiry time, under that time and the value's sequence number; the
  sequence numbers of stored values are positive and have been given out.
\<close>

definition index_ok ::
  "'w env \<Rightarrow> ('w \<Rightarrow> rstring \<Rightarrow> meta_value seq_marked) \<Rightarrow> ('w \<Rightarrow> expire_key \<Rightarrow> rstring option) \<Rightarrow>
   ('w \<Rightarrow> u64) \<Rightarrow> 'w \<Rightarrow> bool" where
  "index_ok X U N Q w \<longleftrightarrow>
    (\<forall>ek k. N w ek = Some k \<longleftrightarrow>
       x_expires_at_ms_opt X (U w k) = Some (time_ms ek) \<and> internal_seq (U w k) = ek_seq ek) \<and>
    (\<forall>k. marked (U w k) \<noteq> TombStone \<longrightarrow> 0 < internal_seq (U w k) \<and> internal_seq (U w k) \<le> Q w)"

section \<open>Effect of an upsert on the primary index\<close>

lemma ok_items_append: "ok_items (xs @ ys) = ok_items xs @ ok_items ys"
  by (induction xs rule: ok_items.induct) auto

lemma env_pureD: "env_ok X U N Q \<Longrightarrow> env_pure_ok X"
  by (simp add: env_ok_def)

lemma um_get_ok: "env_ok X U N Q \<Longrightarrow> um_get X w k = Inr m \<Longrightarrow> m = U w k"
  by (simp add: env_ok_def view_ok_def get_ok_def)

lemma set_value_ok:
  "env_ok X U N Q \<Longrightarrow> um_fetch_and_set X w k (Some v) = Inr ((p, r), w') \<Longrightarrow>
   p = U w k \<and> U w' = (U w)(k := r) \<and> N w' = N w \<and>
   (\<exists>n. r = SeqMarked n (Normal v) \<and> Q w < n \<and> Q w' = n)"
  unfolding env_ok_def view_ok_def set_value_law_def by blast

lemma set_tombstone_ok:
  "env_ok X U N Q \<Longrightarrow> um_fetch_and_set X w k None = Inr ((p, r), w') \<Longrightarrow>
   p = U w k \<and> U w' = (U w)(k := r) \<and> N w' = N w \<and>
   (\<exists>n. r = SeqMarked n TombStone \<and> n \<le> Q w \<and> Q w' = Q w)"
  unfolding env_ok_def view_ok_def set_tombstone_law_def by blast

lemma em_set_ok [simp]:
  assumes "env_ok X U N Q"
  shows "U (em_set X w k v) = U w" "N (em_set X w k v) = (N w)(k := v)" "Q (em_set X w k v) = Q w"
  using assms by (simp_all add: env_ok_def view_ok_def set_index_law_def)

text \<open>
  One write step on a key: the value before, the value after, and the new view, which differs
  at that key only.  The new value is unchanged, a tombstone, or has a fresh sequence number.
\<close>

definition key_step ::
  "('w \<Rightarrow> rstring \<Rightarrow> meta_value seq_marked) \<Rightarrow> ('w \<Rightarrow> expire_key \<Rightarrow> rstring option) \<Rightarrow> ('w \<Rightarrow> u64) \<Rightarrow>
   rstring \<Rightarrow> 'w \<Rightarrow> meta_value seq_marked \<Rightarrow> meta_value seq_marked \<Rightarrow> 'w \<Rightarrow> bool" where
  "key_step U N Q k w p r w' \<longleftrightarrow>
    p = U w k \<and> U w' = (U w)(k := r) \<and> N w' = N w \<and> Q w \<le> Q w' \<and>
    (r = p \<or> marked r = TombStone \<or> Q w < internal_seq r \<and> internal_seq r \<le> Q w')"

lemma key_step_trans_tombstone:
  "key_step U N Q k w p r w1 \<Longrightarrow> key_step U N Q k w1 p' r' w' \<Longrightarrow> marked r' = TombStone \<Longrightarrow>
   key_step U N Q k w p r' w'"
  by (auto simp: key_step_def)

lemma fetch_and_set_step:
  "env_ok X U N Q \<Longrightarrow> um_fetch_and_set X w k v = Inr ((p, r), w') \<Longrightarrow> key_step U N Q k w p r w'"
  by (cases v) (auto simp: key_step_def dest: set_value_ok set_tombstone_ok)

lemma update_meta_step:
  "env_ok X U N Q \<Longrightarrow> update_meta X w k m = Inr ((p, r), w') \<Longrightarrow> key_step U N Q k w p r w'"
  by (auto simp: update_meta_def split: if_splits option.splits dest: fetch_and_set_step um_get_ok)
    (auto simp: key_step_def dest: um_get_ok)

lemma primary_index_step:
  assumes "env_ok X U N Q" "upsert_kv_primary_index X s u ctx = Inr ((p, r), s')"
  shows "key_step U N Q (ukv_key u) (view s) p r (view s') \<and> s' = s\<lparr>view := view s'\<rparr>"
proof -
  let ?k = "ukv_key u"
  let ?m = "resolve_meta_spec ctx (case ukv_value_meta u of None \<Rightarrow> default_meta_spec | Some m \<Rightarrow> m)"
  obtain got where got: "um_get X (view s) ?k = Inr got"
    using assms(2) by (auto simp: upsert_kv_primary_index_def Let_def)
  show ?thesis
  proof (cases "x_match_seq X (ukv_seq u) (x_seq X got)")
    case False
    with assms got show ?thesis
      by (auto simp: upsert_kv_primary_index_def Let_def key_step_def dest: um_get_ok)
  next
    case True
    then obtain r1 w1 where w1: "(case ukv_value u of
            Update v \<Rightarrow> um_fetch_and_set X (view s) ?k (Some (Some ?m, v))
          | Delete \<Rightarrow> um_fetch_and_set X (view s) ?k None
          | AsIs \<Rightarrow> update_meta X (view s) ?k (Some ?m)) = Inr ((p, r1), w1)"
      and rest: "(if x_expires_at_ms X ?m < time_millis (ctx_time ctx) then
           rbind (um_fetch_and_set X w1 ?k None) (\<lambda>((p', r'), w2). Inr ((p, r'), s\<lparr>view := w2\<rparr>))
         else Inr ((p, r1), s\<lparr>view := w1\<rparr>)) = Inr ((p, r), s')"
      using assms(2) got by (auto simp: upsert_kv_primary_index_def Let_def split: if_splits)
    have step1: "key_step U N Q ?k (view s) p r1 w1"
      using w1 assms(1)
      by (cases "ukv_value u") (auto dest: fetch_and_set_step update_meta_step)
    show ?thesis
    proof (cases "x_expires_at_ms X ?m < time_millis (ctx_time ctx)")
      case False
      with rest step1 show ?thesis by auto
    next
      case True
      then obtain p' w2 where w2: "um_fetch_and_set X w1 ?k None = Inr ((p', r), w2)"
        and s': "s' = s\<lparr>view := w2\<rparr>"
        using rest by auto
      have "marked r = TombStone" using set_tombstone_ok [OF assms(1) w2] by auto
      then have "key_step U N Q ?k (view s) p r w2"
        using step1 fetch_and_set_step [OF assms(1) w2] by (blast intro: key_step_trans_tombstone)
      with s' show ?thesis by simp
    qed
  qed
qed

section \<open>The expiration index follows the primary index\<close>

lemma expire_key_eq_iff: "ek = ExpireKey t n \<longleftrightarrow> time_ms ek = t \<and> ek_seq ek = n"
  by (cases ek) auto

lemma update_expire_index_other:
  "update_expire_index X s k p r = s\<lparr>view := view (update_expire_index X s k p r)\<rparr>"
  by (simp add: update_expire_index_def Let_def split: option.splits)

lemma update_expire_index_maps:
  assumes "env_ok X U N Q"
  shows "U (view (update_expire_index X s k p r)) = U (view s)"
    and "Q (view (update_expire_index X s k p r)) = Q (view s)"
    and "p \<noteq> r \<Longrightarrow> N (view (update_expire_index X s k p r)) ek =
      (if x_expires_at_ms_opt X r = Some (time_ms ek) \<and> internal_seq r = ek_seq ek then Some k
       else if x_expires_at_ms_opt X p = Some (time_ms ek) \<and> internal_seq p = ek_seq ek then None
       else N (view s) ek)"
    and "p = r \<Longrightarrow> N (view (update_expire_index X s k p r)) = N (view s)"
  using em_set_ok [OF assms]
  by (auto simp: update_expire_index_def Let_def expire_key_eq_iff split: option.splits)

lemma expires_opt_tombstone:
  "env_ok X U N Q \<Longrightarrow> marked m = TombStone \<Longrightarrow> x_expires_at_ms_opt X m = None"
  by (cases m) (auto simp: env_ok_def env_pure_ok_def)

lemma index_okD:
  assumes "index_ok X U N Q w"
  shows "N w ek = Some k \<longleftrightarrow>
      x_expires_at_ms_opt X (U w k) = Some (time_ms ek) \<and> internal_seq (U w k) = ek_seq ek"
    and "marked (U w k) \<noteq> TombStone \<Longrightarrow> internal_seq (U w k) \<le> Q w"
    and "marked (U w k) \<noteq> TombStone \<Longrightarrow> 0 < internal_seq (U w k)"
  using assms by (simp_all add: index_ok_def)

lemma update_expire_index_keeps:
  assumes env: "env_ok X U N Q" and idx: "index_ok X U N Q w"
    and step: "key_step U N Q k w p r (view s)"
  shows "index_ok X U N Q (view (update_expire_index X s k p r))"
proof (cases "p = r")
  case True
  then show ?thesis
    using step idx update_expire_index_maps [OF env, where s = s and k = k and p = p and r = r]
    by (auto simp: index_ok_def key_step_def intro: order_trans)
next
  case False
  define w' where "w' = view (update_expire_index X s k p r)"
  have p: "p = U w k" and N: "N (view s) = N w" using step by (simp_all add: key_step_def)
  have U': "U w' = (U w)(k := r)" and Q': "Q w \<le> Q w'"
    and fresh: "marked r = TombStone \<or> Q w < internal_seq r \<and> internal_seq r \<le> Q w'"
    using step False by (auto simp: w'_def key_step_def update_expire_index_maps [OF env])
  have N': "N w' ek =
      (if x_expires_at_ms_opt X r = Some (time_ms ek) \<and> internal_seq r = ek_seq ek then Some k
       else if x_expires_at_ms_opt X (U w k) = Some (time_ms ek) \<and> internal_seq (U w k) = ek_seq ek
       then None else N w ek)" for ek
    using update_expire_index_maps(3) [OF env False] by (simp add: w'_def N p [symmetric])
  have live: "internal_seq (U w j) \<le> Q w" if "x_expires_at_ms_opt X (U w j) \<noteq> None" for j
  proof (rule index_okD(2) [OF idx])
    show "marked (U w j) \<noteq> TombStone" using that expires_opt_tombstone [OF env] by metis
  qed
  have "N w' ek = Some j \<longleftrightarrow>
      x_expires_at_ms_opt X (U w' j) = Some (time_ms ek) \<and> internal_seq (U w' j) = ek_seq ek" for ek j
  proof (cases "j = k")
    case True
    then show ?thesis using index_okD(1) [OF idx, of ek k] by (auto simp: N' U')
  next
    case j: False
    have "\<not> (x_expires_at_ms_opt X (U w j) = Some (time_ms ek) \<and> internal_seq (U w j) = ek_seq ek)"
      if "x_expires_at_ms_opt X r = Some (time_ms ek)" "internal_seq r = ek_seq ek"
      using that live [of j] fresh expires_opt_tombstone [OF env, of r] by auto
    then show ?thesis
      using j index_okD(1) [OF idx, of ek j] index_okD(1) [OF idx, of ek k] by (auto simp: N' U')
  qed
  moreover have "0 < internal_seq (U w' j) \<and> internal_seq (U w' j) \<le> Q w'"
    if "marked (U w' j) \<noteq> TombStone" for j
    using that fresh Q' index_okD(2,3) [OF idx, of j]
    by (auto simp: U' split: if_splits intro: order_trans le_less_trans [of 0 "Q w"])
  ultimately show ?thesis by (simp add: index_ok_def w'_def)
qed

end
