(* ===== verification/Applier.thy ===== *)
theory Applier
  imports Sm_Api
begin

text \<open>
  Application of committed raft log entries to the state machine (\<open>applier/mod.rs\<close>): commands,
  single upserts, transactions with their predicates and operations, removal of expired
  keys, and publication of changes.  Every function takes the record of library functions
  \<open>X\<close> and the applier, and returns either an I/O error or the result with the new applier.
\<close>

section \<open>State\<close>

record 'w applier =
  ap_sm :: "'w sm"
  cmd_ctx :: cmd_context
  changes :: "kv_change list"

definition applier_new :: "'w sm \<Rightarrow> 'w applier" where
  "applier_new s = \<lparr>ap_sm = s, cmd_ctx = cmd_context_from_millis 0, changes = []\<rparr>"

datatype applied_state =
    AppliedNode "node option" "node option"
  | AppliedKV "(bytes, u64) change"
  | AppliedKvTransactionReply kv_transaction_reply
  | AppliedNone

fun applied_changed :: "(u64 option \<Rightarrow> u64) \<Rightarrow> applied_state \<Rightarrow> bool" where
  "applied_changed seq_of (AppliedNode p r) \<longleftrightarrow> p \<noteq> r"
| "applied_changed seq_of (AppliedKV c) \<longleftrightarrow> is_changed seq_of c"
| "applied_changed seq_of AppliedNone \<longleftrightarrow> False"
| "applied_changed seq_of (AppliedKvTransactionReply r) \<longleftrightarrow> executed_branch r \<noteq> None"

fun prev_is_none :: "applied_state \<Rightarrow> bool" where
  "prev_is_none (AppliedNode p r) \<longleftrightarrow> p = None"
| "prev_is_none (AppliedKV c) \<longleftrightarrow> prev c = None"
| "prev_is_none AppliedNone \<longleftrightarrow> True"
| "prev_is_none (AppliedKvTransactionReply r) \<longleftrightarrow> True"

fun result_is_none :: "applied_state \<Rightarrow> bool" where
  "result_is_none (AppliedNode p r) \<longleftrightarrow> r = None"
| "result_is_none (AppliedKV c) \<longleftrightarrow> result c = None"
| "result_is_none AppliedNone \<longleftrightarrow> True"
| "result_is_none (AppliedKvTransactionReply r) \<longleftrightarrow> executed_branch r = None"

section \<open>Nodes and features\<close>

definition apply_add_node ::
  "'w applier \<Rightarrow> u64 \<Rightarrow> node \<Rightarrow> bool \<Rightarrow> applied_state \<times> 'w applier" where
  "apply_add_node a node_id n overriding =
    (let p = nodes (sys (ap_sm a)) node_id in
     if p = None \<or> overriding then
       (AppliedNode p (Some n),
        a\<lparr>ap_sm := with_sys_data (ap_sm a) (\<lambda>sd. sd\<lparr>nodes := (nodes sd)(node_id \<mapsto> n)\<rparr>)\<rparr>)
     else (AppliedNode p p, a))"

definition apply_remove_node :: "'w applier \<Rightarrow> u64 \<Rightarrow> applied_state \<times> 'w applier" where
  "apply_remove_node a node_id =
    (AppliedNode (nodes (sys (ap_sm a)) node_id) None,
     a\<lparr>ap_sm := with_sys_data (ap_sm a) (\<lambda>sd. sd\<lparr>nodes := (nodes sd)(node_id := None)\<rparr>)\<rparr>)"

definition apply_set_feature :: "'w applier \<Rightarrow> rstring \<Rightarrow> bool \<Rightarrow> applied_state \<times> 'w applier" where
  "apply_set_feature a f enable =
    (AppliedNone,
     a\<lparr>ap_sm := with_sys_data (ap_sm a) (\<lambda>sd.
         sd\<lparr>sm_features := (if enable then insert f (sm_features sd) else sm_features sd - {f})\<rparr>)\<rparr>)"

section \<open>Upsert\<close>

definition push_change ::
  "'w applier \<Rightarrow> rstring \<Rightarrow> bytes seqv option \<Rightarrow> bytes seqv option \<Rightarrow> 'w applier" where
  "push_change a key p r = (if p = r then a else a\<lparr>changes := changes a @ [(key, p, r)]\<rparr>)"

definition applier_upsert_kv ::
  "'w env \<Rightarrow> 'w applier \<Rightarrow> upsert_kv \<Rightarrow>
   ((bytes seqv option \<times> bytes seqv option) \<times> 'w applier) io_result" where
  "applier_upsert_kv X a u =
    rbind (upsert_kv_primary_index X (ap_sm a) u (cmd_ctx a)) (\<lambda>((p, r), s1).
      let s2 = update_expire_index X s1 (ukv_key u) p r;
          p = x_into_seqv X p;
          r = x_into_seqv X r
      in Inr ((p, r), push_change (a\<lparr>ap_sm := s2\<rparr>) (ukv_key u) p r))"

definition apply_upsert_kv ::
  "'w env \<Rightarrow> 'w applier \<Rightarrow> upsert_kv \<Rightarrow> (applied_state \<times> 'w applier) io_result" where
  "apply_upsert_kv X a u =
    rbind (applier_upsert_kv X a u) (\<lambda>((p, r), a'). Inr (AppliedKV (change_new p r), a'))"

section \<open>Predicates\<close>

fun eval_compare :: "'t :: linorder \<Rightarrow> compare_operator \<Rightarrow> 't \<Rightarrow> bool" where
  "eval_compare l Op_Eq r \<longleftrightarrow> l = r"
| "eval_compare l Op_Ne r \<longleftrightarrow> l \<noteq> r"
| "eval_compare l Op_Lt r \<longleftrightarrow> l < r"
| "eval_compare l Op_Le r \<longleftrightarrow> l \<le> r"
| "eval_compare l Op_Gt r \<longleftrightarrow> l > r"
| "eval_compare l Op_Ge r \<longleftrightarrow> l \<ge> r"

text \<open>\<open>try_fold\<close> that counts the items of a stream.\<close>

fun count_items :: "u64 \<Rightarrow> 'a strm \<Rightarrow> u64 io_result" where
  "count_items acc [] = Inr acc"
| "count_items acc (Inl e # rest) = Inl e"
| "count_items acc (Inr x # rest) = count_items (acc + 1) rest"

text \<open>The sum \<open>against_n + 1\<close> wraps as in a build without overflow checks.\<close>

definition eval_condition :: "'w env \<Rightarrow> 'w applier \<Rightarrow> condition \<Rightarrow> bool io_result" where
  "eval_condition X a cond =
    rbind (get_maybe_expired_kv X (ap_sm a) (cond_key cond)) (\<lambda>sv.
      (case cond_target cond of
         Op_Seq against_seq \<Rightarrow>
           Inr (eval_compare (x_opt_seq X (map_option sv_seq sv)) (cond_op cond) against_seq)
       | Op_Value against_value \<Rightarrow>
           (case map_option sv_data sv of
              Some stored \<Rightarrow> Inr (eval_compare stored (cond_op cond) against_value)
            | None \<Rightarrow> Inr False)
       | Op_KeysWithPrefix against_n \<Rightarrow>
           rbind (list_kv X (ap_sm a) (cond_key cond)) (\<lambda>strm.
           rbind (count_items 0 (take (unat (against_n + 1)) strm)) (\<lambda>count.
             Inr (eval_compare count (cond_op cond) against_n)))))"

fun eval_predicate :: "'w env \<Rightarrow> 'w applier \<Rightarrow> predicate \<Rightarrow> bool io_result"
  and eval_all :: "'w env \<Rightarrow> 'w applier \<Rightarrow> predicate list \<Rightarrow> bool io_result"
  and eval_any :: "'w env \<Rightarrow> 'w applier \<Rightarrow> predicate list \<Rightarrow> bool io_result" where
  "eval_predicate X a (And children) = eval_all X a children"
| "eval_predicate X a (Or children) =
    rbind (eval_any X a children) (\<lambda>found. Inr (found \<or> children = []))"
| "eval_predicate X a (Leaf cond) = eval_condition X a cond"
| "eval_all X a [] = Inr True"
| "eval_all X a (c # cs) =
    rbind (eval_predicate X a c) (\<lambda>b. if \<not> b then Inr False else eval_all X a cs)"
| "eval_any X a [] = Inr False"
| "eval_any X a (c # cs) =
    rbind (eval_predicate X a c) (\<lambda>b. if b then Inr True else eval_any X a cs)"

section \<open>Operations of a transaction\<close>

definition execute_get ::
  "'w env \<Rightarrow> 'w applier \<Rightarrow> rstring \<Rightarrow> txn_get_response io_result" where
  "execute_get X a key =
    rbind (get_maybe_expired_kv X (ap_sm a) key) (\<lambda>sv.
      Inr \<lparr>tgr_key = key, tgr_value = map_option seqv_to_pb sv\<rparr>)"

definition execute_put ::
  "'w env \<Rightarrow> 'w applier \<Rightarrow> key_lookup \<Rightarrow> payload \<Rightarrow> (txn_put_response \<times> 'w applier) io_result" where
  "execute_put X a target p =
    (let upsert = with_meta_spec (upsert_kv_update (kl_key target) (pl_value p)) (to_meta_spec p);
         upsert = (case kl_match_seq target of
                     Some seq \<Rightarrow> with_match_seq upsert (MS_Exact seq)
                   | None \<Rightarrow> upsert)
     in rbind (applier_upsert_kv X a upsert) (\<lambda>((p, r), a').
          Inr (\<lparr>tpo_key = kl_key target, tpo_prev_value = map_option seqv_to_pb p,
                tpo_current = map_option seqv_to_pb r\<rparr>, a')))"

definition execute_delete ::
  "'w env \<Rightarrow> 'w applier \<Rightarrow> key_lookup \<Rightarrow> (txn_delete_response \<times> 'w applier) io_result" where
  "execute_delete X a target =
    (let upsert = upsert_kv_delete (kl_key target);
         upsert = (case kl_match_seq target of
                     Some seq \<Rightarrow> with_match_seq upsert (MS_Exact seq)
                   | None \<Rightarrow> upsert)
     in rbind (applier_upsert_kv X a upsert) (\<lambda>((p, r), a').
          let is_deleted = (p \<noteq> None \<and> r = None)
          in Inr (\<lparr>tdo_key = kl_key target, tdo_success = is_deleted,
                   tdo_prev_value = map_option seqv_to_pb p\<rparr>, a')))"

text \<open>The loop over the listed keys; \<open>count\<close> is a \<open>u32\<close>.\<close>

fun delete_listed ::
  "'w env \<Rightarrow> 'w applier \<Rightarrow> (rstring \<times> bytes seqv) strm \<Rightarrow> u32 \<Rightarrow> (u32 \<times> 'w applier) io_result" where
  "delete_listed X a [] count = Inr (count, a)"
| "delete_listed X a (Inl e # rest) count = Inl e"
| "delete_listed X a (Inr (key, sv) # rest) count =
    rbind (applier_upsert_kv X a (upsert_kv_delete key)) (\<lambda>((p, r), a').
      delete_listed X (push_change a' key p r) rest (count + 1))"

definition execute_delete_by_prefix ::
  "'w env \<Rightarrow> 'w applier \<Rightarrow> rstring \<Rightarrow> (txn_delete_by_prefix_response \<times> 'w applier) io_result" where
  "execute_delete_by_prefix X a pre =
    rbind (list_kv X (ap_sm a) pre) (\<lambda>strm.
    rbind (delete_listed X a strm 0) (\<lambda>(count, a').
      Inr (\<lparr>tdp_prefix = pre, tdp_count = count\<rparr>, a')))"

definition execute_fetch_increase_u64 ::
  "'w env \<Rightarrow> 'w applier \<Rightarrow> key_lookup \<Rightarrow> i64 \<Rightarrow> u64 \<Rightarrow>
   (fetch_increase_u64_response \<times> 'w applier) io_result" where
  "execute_fetch_increase_u64 X a target delta flr =
    rbind (get_maybe_expired_kv X (ap_sm a) (kl_key target)) (\<lambda>before_seqv.
      let before_seq = x_opt_seq X (map_option sv_seq before_seqv);
          before =
            (case before_seqv of
               Some sv \<Rightarrow> (case x_json_to_u64 X (sv_data sv) of Some v \<Rightarrow> v | None \<Rightarrow> 0)
             | None \<Rightarrow> 0);
          unmatched = (case kl_match_seq target of Some m \<Rightarrow> m \<noteq> before_seq | None \<Rightarrow> False)
      in
      if unmatched then
        Inr (fetch_increase_response_unchanged (kl_key target)
               \<lparr>sv_seq = before_seq, sv_meta = None, sv_data = before\<rparr>, a)
      else
        let after = saturating_add_signed (max before flr) delta in
        rbind (applier_upsert_kv X a (upsert_kv_update (kl_key target) (x_u64_to_json X after))) (\<lambda>((p, r), a').
          Inr (fetch_increase_response_new (kl_key target)
                 \<lparr>sv_seq = before_seq, sv_meta = None, sv_data = before\<rparr>
                 \<lparr>sv_seq = x_opt_seq X (map_option sv_seq r), sv_meta = None, sv_data = after\<rparr>, a')))"

definition execute_put_sequential ::
  "'w env \<Rightarrow> 'w applier \<Rightarrow> rstring \<Rightarrow> rstring \<Rightarrow> payload \<Rightarrow> (txn_put_response \<times> 'w applier) io_result" where
  "execute_put_sequential X a pre sequence_key p =
    rbind (execute_fetch_increase_u64 X a (key_lookup_just sequence_key) 1 0) (\<lambda>(fetch_response, a1).
      let key = pre @ format_seq_number (fir_before fetch_response);
          upsert = with_meta_spec (upsert_kv_update key (pl_value p)) (to_meta_spec p)
      in rbind (applier_upsert_kv X a1 upsert) (\<lambda>((p, r), a2).
           Inr (\<lparr>tpo_key = key, tpo_prev_value = map_option seqv_to_pb p,
                 tpo_current = map_option seqv_to_pb r\<rparr>, a2)))"

fun execute_op ::
  "'w env \<Rightarrow> 'w applier \<Rightarrow> txn_operation \<Rightarrow> (txn_op_response \<times> 'w applier) io_result" where
  "execute_op X a (Get key) = rmap (\<lambda>r. (RespGet r, a)) (execute_get X a key)"
| "execute_op X a (Put t p) = rmap (\<lambda>(r, a'). (RespPut r, a')) (execute_put X a t p)"
| "execute_op X a (OpDelete t) = rmap (\<lambda>(r, a'). (RespDelete r, a')) (execute_delete X a t)"
| "execute_op X a (DeleteByPrefix p) =
    rmap (\<lambda>(r, a'). (RespDeleteByPrefix r, a')) (execute_delete_by_prefix X a p)"
| "execute_op X a (FetchIncreaseU64 t d f) =
    rmap (\<lambda>(r, a'). (RespFetchIncreaseU64 r, a')) (execute_fetch_increase_u64 X a t d f)"
| "execute_op X a (PutSequential pre k p) =
    rmap (\<lambda>(r, a'). (RespPut r, a')) (execute_put_sequential X a pre k p)"

section \<open>Transactions\<close>

fun execute_ops ::
  "'w env \<Rightarrow> 'w applier \<Rightarrow> txn_operation list \<Rightarrow> (txn_op_response list \<times> 'w applier) io_result" where
  "execute_ops X a [] = Inr ([], a)"
| "execute_ops X a (x # xs) =
    rbind (execute_op X a x) (\<lambda>(r, a1).
    rbind (execute_ops X a1 xs) (\<lambda>(rs, a2). Inr (r # rs, a2)))"

text \<open>The loop over the branches with the index of the branch.\<close>

fun run_branches ::
  "'w env \<Rightarrow> 'w applier \<Rightarrow> nat \<Rightarrow> branch list \<Rightarrow> (kv_transaction_reply \<times> 'w applier) io_result" where
  "run_branches X a i [] = Inr (\<lparr>executed_branch = None, ktr_responses = []\<rparr>, a)"
| "run_branches X a i (b # bs) =
    rbind (eval_predicate X a (br_predicate b)) (\<lambda>matched.
      if matched then
        rbind (execute_ops X a (br_operations b)) (\<lambda>(responses, a').
          Inr (\<lparr>executed_branch = Some (word_of_nat i), ktr_responses = responses\<rparr>, a'))
      else run_branches X a (i + 1) bs)"

definition apply_kv_transaction ::
  "'w env \<Rightarrow> 'w applier \<Rightarrow> kv_txn \<Rightarrow> (applied_state \<times> 'w applier) io_result" where
  "apply_kv_transaction X a txn =
    rmap (\<lambda>(r, a'). (AppliedKvTransactionReply r, a')) (run_branches X a 0 (branches txn))"

section \<open>Commands and entries\<close>

text \<open>\<open>E\<close> reads the protobuf enumerations of a legacy request.\<close>

fun apply_cmd ::
  "pb_enums \<Rightarrow> 'w env \<Rightarrow> 'w applier \<Rightarrow> cmd \<Rightarrow> (applied_state \<times> 'w applier) io_result" where
  "apply_cmd E X a (AddNode node_id n overriding) = Inr (apply_add_node a node_id n overriding)"
| "apply_cmd E X a (RemoveNode node_id) = Inr (apply_remove_node a node_id)"
| "apply_cmd E X a (SetFeature f enable) = Inr (apply_set_feature a f enable)"
| "apply_cmd E X a (UpsertKV u) = apply_upsert_kv X a u"
| "apply_cmd E X a (CmdTransaction txn) = apply_kv_transaction X a (txn_from_legacy E txn)"
| "apply_cmd E X a (KvTransaction txn) = apply_kv_transaction X a txn"

text \<open>The loop that collects expired index entries and stops at the first one that is not.\<close>

fun collect_expired ::
  "'w env \<Rightarrow> u64 \<Rightarrow> (expire_key \<times> rstring) strm \<Rightarrow> (expire_key \<times> rstring) list io_result" where
  "collect_expired X t [] = Inr []"
| "collect_expired X t (Inl e # rest) = Inl e"
| "collect_expired X t (Inr (ek, key) # rest) =
    (if \<not> x_is_expired X ek t then Inr []
     else rbind (collect_expired X t rest) (\<lambda>xs. Inr ((ek, key) # xs)))"

fun delete_expired ::
  "'w env \<Rightarrow> 'w applier \<Rightarrow> (expire_key \<times> rstring) list \<Rightarrow> 'w applier io_result" where
  "delete_expired X a [] = Inr a"
| "delete_expired X a ((ek, key) # rest) =
    rbind (applier_upsert_kv X a (upsert_kv_delete key)) (\<lambda>(pr, a'). delete_expired X a' rest)"

definition clean_expired_kvs :: "'w env \<Rightarrow> 'w applier \<Rightarrow> u64 \<Rightarrow> 'w applier io_result" where
  "clean_expired_kvs X a log_time_ms =
    (if log_time_ms = 0 then Inr a
     else
       rbind (list_expire_index X (ap_sm a) log_time_ms) (\<lambda>strm.
         let a1 = a\<lparr>ap_sm := set_cleanup_start_timestamp (ap_sm a) (duration_from_millis log_time_ms)\<rparr>
         in rbind (collect_expired X log_time_ms strm) (\<lambda>to_clean.
              delete_expired X a1 to_clean)))"

definition get_log_time :: "entry \<Rightarrow> u64" where
  "get_log_time e =
    (case entry_payload e of
       Normal_Entry d \<Rightarrow> (case le_time_ms d of None \<Rightarrow> 0 | Some ms \<Rightarrow> ms)
     | _ \<Rightarrow> 0)"

text \<open>\<open>changes.drain(..)\<close>: every queued change is published in order.\<close>

definition send_changes :: "'w applier \<Rightarrow> 'w applier" where
  "send_changes a = a\<lparr>ap_sm := fold (\<lambda>c s. on_change_applied s c) (changes a) (ap_sm a), changes := []\<rparr>"

definition apply_payload ::
  "pb_enums \<Rightarrow> 'w env \<Rightarrow> 'w applier \<Rightarrow> entry \<Rightarrow> (applied_state \<times> 'w applier) io_result" where
  "apply_payload E X a e =
    (case entry_payload e of
       Blank \<Rightarrow> Inr (AppliedNone, a)
     | Normal_Entry d \<Rightarrow> apply_cmd E X a (le_cmd d)
     | Membership_Entry m \<Rightarrow>
         Inr (AppliedNone,
              a\<lparr>ap_sm := with_sys_data (ap_sm a) (\<lambda>sd.
                  sd\<lparr>last_membership := \<lparr>sm_log_id = Some (entry_log_id e), sm_membership = m\<rparr>\<rparr>)\<rparr>))"

definition apply_entry ::
  "pb_enums \<Rightarrow> 'w env \<Rightarrow> 'w applier \<Rightarrow> entry \<Rightarrow> (applied_state \<times> 'w applier) io_result" where
  "apply_entry E X a e =
    (let log_time_ms = get_log_time e;
         a1 = a\<lparr>cmd_ctx := from_millis_and_log_id log_time_ms (entry_log_id e)\<rparr>
     in rbind (clean_expired_kvs X a1 log_time_ms) (\<lambda>a2.
        let a3 = a2\<lparr>ap_sm := with_sys_data (ap_sm a2) (\<lambda>sd. sd\<lparr>last_applied := Some (entry_log_id e)\<rparr>)\<rparr>
        in rbind (apply_payload E X a3 e) (\<lambda>(st, a4). Inr (st, send_changes a4))))"

text \<open>
  \<open>SMV003::apply_entries\<close> up to the commit: the entries are applied in order by one applier and
  each entry yields its applied state for the responder.
\<close>

fun apply_entries_loop ::
  "pb_enums \<Rightarrow> 'w env \<Rightarrow> 'w applier \<Rightarrow> entry strm \<Rightarrow> (applied_state list \<times> 'w applier) io_result" where
  "apply_entries_loop E X a [] = Inr ([], a)"
| "apply_entries_loop E X a (Inl err # rest) = Inl err"
| "apply_entries_loop E X a (Inr e # rest) =
    rbind (apply_entry E X a e) (\<lambda>(st, a1).
    rbind (apply_entries_loop E X a1 rest) (\<lambda>(sts, a2). Inr (st # sts, a2)))"

end
