(* ===== verification/Mem_View.thy ===== *)
theory Mem_View
  imports Sm_Api
begin

text \<open>
  A small in-memory instance of the library functions that the state machine uses, with
  association lists for the two maps.  It shows that the documented behaviour \<open>env_ok\<close> can be
  met, and the witnesses of the properties run on it.  It stands for library code and models
  nothing of the sources.
\<close>

type_synonym mem = "(rstring \<times> meta_value seq_marked) list \<times> (expire_key \<times> rstring option) list \<times> u64"

definition mem_user :: "mem \<Rightarrow> rstring \<Rightarrow> meta_value seq_marked" where
  "mem_user w k = (case map_of (fst w) k of None \<Rightarrow> SeqMarked 0 TombStone | Some m \<Rightarrow> m)"

definition mem_index :: "mem \<Rightarrow> expire_key \<Rightarrow> rstring option" where
  "mem_index w k = (case map_of (fst (snd w)) k of None \<Rightarrow> None | Some v \<Rightarrow> v)"

definition mem_seq :: "mem \<Rightarrow> u64" where
  "mem_seq w = snd (snd w)"

definition mem_keys :: "('k :: linorder \<times> 'v) list \<Rightarrow> 'k bound \<times> 'k bound \<Rightarrow> 'k list" where
  "mem_keys xs rng = filter (in_range rng) (remdups (sort (map fst xs)))"

fun mem_set :: "mem \<Rightarrow> rstring \<Rightarrow> meta_value option \<Rightarrow>
    ((meta_value seq_marked \<times> meta_value seq_marked) \<times> mem) io_result" where
  "mem_set w k (Some v) =
    (if mem_seq w = u64_max then Inl OtherError
     else let r = SeqMarked (mem_seq w + 1) (Normal v)
          in Inr ((mem_user w k, r), ((k, r) # fst w, fst (snd w), mem_seq w + 1)))"
| "mem_set w k None =
    (let r = SeqMarked (mem_seq w) TombStone
     in Inr ((mem_user w k, r), ((k, r) # fst w, fst (snd w), mem_seq w)))"

definition mem_expires_at_ms :: "kvmeta \<Rightarrow> u64" where
  "mem_expires_at_ms km =
    (case expire_at km of
       None \<Rightarrow> u64_max
     | Some e \<Rightarrow> word_of_nat (duration_as_millis (flexible_timestamp_to_duration e)))"

text \<open>Numbers are stored as eight bytes, most significant first.\<close>

definition u64_to_bytes :: "u64 \<Rightarrow> bytes" where
  "u64_to_bytes n = map (\<lambda>i. word_of_nat (unat n div 256 ^ i)) [7, 6, 5, 4, 3, 2, 1, 0]"

definition bytes_to_u64 :: "bytes \<Rightarrow> u64 option" where
  "bytes_to_u64 b =
    (if length b = 8 then Some (word_of_nat (foldl (\<lambda>a c. a * 256 + unat c) 0 b)) else None)"

definition mem_env :: "mem env" where
  "mem_env =
    \<lparr>x_seq = (\<lambda>m. case marked m of TombStone \<Rightarrow> 0 | Normal d \<Rightarrow> internal_seq m),
     x_is_tombstone = (\<lambda>m. case marked m of TombStone \<Rightarrow> True | Normal d \<Rightarrow> False),
     x_into_data = (\<lambda>m. case marked m of TombStone \<Rightarrow> None | Normal d \<Rightarrow> Some d),
     x_into_key = (\<lambda>m. case marked m of TombStone \<Rightarrow> None | Normal d \<Rightarrow> Some d),
     x_into_seqv = (\<lambda>m. case marked m of TombStone \<Rightarrow> None
       | Normal d \<Rightarrow> Some \<lparr>sv_seq = internal_seq m, sv_meta = fst d, sv_data = snd d\<rparr>),
     x_expires_at_ms = mem_expires_at_ms,
     x_expires_at_ms_opt = (\<lambda>m. case marked m of TombStone \<Rightarrow> None
       | Normal d \<Rightarrow> (case fst d of None \<Rightarrow> None
          | Some km \<Rightarrow> (case expire_at km of None \<Rightarrow> None | Some e \<Rightarrow> Some (mem_expires_at_ms km)))),
     x_match_seq = (\<lambda>m n. case m of MS_Any \<Rightarrow> True | MS_Exact k \<Rightarrow> n = k | MS_GE k \<Rightarrow> k \<le> n),
     x_is_expired = (\<lambda>k t. time_ms k < t),
     x_opt_seq = (\<lambda>n. case n of None \<Rightarrow> 0 | Some n \<Rightarrow> n),
     x_json_to_u64 = bytes_to_u64,
     x_u64_to_json = u64_to_bytes,
     um_get = (\<lambda>w k. Inr (mem_user w k)),
     um_range = (\<lambda>w rng. Inr (map (\<lambda>k. Inr (k, mem_user w k)) (mem_keys (fst w) rng))),
     um_fetch_and_set = mem_set,
     em_range = (\<lambda>w rng. Inr (map (\<lambda>k. Inr (k, case mem_index w k of
         None \<Rightarrow> SeqMarked 0 TombStone | Some v \<Rightarrow> SeqMarked 0 (Normal v))) (mem_keys (fst (snd w)) rng))),
     em_set = (\<lambda>w k v. (fst w, (k, v) # fst (snd w), snd (snd w)))\<rparr>"

definition mem_empty :: mem where
  "mem_empty = ([], [], 0)"

section \<open>The instance meets the documented behaviour\<close>

lemma u64_max_numeral: "u64_max = 18446744073709551615"
  by (simp add: u64_max_def)

lemma bytes_roundtrip: "bytes_to_u64 (u64_to_bytes n) = Some n"
proof -
  define m where "m = unat n"
  have low: "unat (word_of_nat k :: u8) = k mod 256" for k :: nat
    by (simp add: unat_of_nat)
  have step: "k div 256 * 256 + k mod 256 = k" for k :: nat
    by simp
  have "m < 256 ^ 8" unfolding m_def using unat_lt_u64 [of n] by simp
  then have top: "m div 256 ^ 8 = 0" by simp
  have d: "m div 256 ^ Suc i = m div 256 ^ i div 256" for i
    by (simp only: power_Suc2 div_mult2_eq)
  have fold: "m div 256 ^ Suc i * 256 + m div 256 ^ i mod 256 = m div 256 ^ i" for i
    using step [of "m div 256 ^ i"] d [of i] by simp
  have "foldl (\<lambda>a c. a * 256 + unat c) 0 (u64_to_bytes n) = m"
    using fold [of 7] fold [of 6] fold [of 5] fold [of 4] fold [of 3] fold [of 2] fold [of 1]
      fold [of 0] top
    by (simp add: u64_to_bytes_def low m_def [symmetric])
  then show ?thesis by (simp add: bytes_to_u64_def u64_to_bytes_def m_def)
qed

lemma mem_env_pure: "env_pure_ok mem_env"
  unfolding env_pure_ok_def
  by (intro conjI allI)
    (auto simp: mem_env_def mem_expires_at_ms_def bytes_roundtrip split: marked.splits option.splits)

lemma mem_keys_props:
  "sorted_wrt (<) (mem_keys xs rng)" "k \<in> set (mem_keys xs rng) \<longleftrightarrow> in_range rng k \<and> k \<in> fst ` set xs"
proof -
  have "sorted (remdups (sort (map fst xs)))" "distinct (remdups (sort (map fst xs)))"
    by (simp_all add: sorted_remdups)
  then have "sorted_wrt (<) (remdups (sort (map fst xs)))" by (simp add: strict_sorted_iff)
  then show "sorted_wrt (<) (mem_keys xs rng)" by (simp add: mem_keys_def sorted_wrt_filter)
  show "k \<in> set (mem_keys xs rng) \<longleftrightarrow> in_range rng k \<and> k \<in> fst ` set xs"
    by (auto simp: mem_keys_def)
qed

lemma ascending_map: "ascending (map (\<lambda>k. Inr (k, f k)) ks) \<longleftrightarrow> sorted_wrt (<) ks"
proof -
  have "map fst (ok_items (map (\<lambda>k. Inr (k, f k)) ks)) = ks" by (induction ks) auto
  then show ?thesis by (simp add: ascending_def)
qed

lemma mem_range_law: "range_law mem_env mem_user"
proof -
  have "k \<in> fst ` set (fst w)" if "marked (mem_user w k) \<noteq> TombStone" for w k
    using that by (auto simp: mem_user_def map_of_eq_None_iff split: option.splits)
      (metis fst_conv image_eqI map_of_SomeD)
  then show ?thesis
    by (auto simp: range_law_def mem_env_def ascending_map mem_keys_props)
qed

lemma mem_index_range_law: "index_range_law mem_env mem_index"
proof -
  have "k \<in> fst ` set (fst (snd w))" if "mem_index w k = Some v" for w k v
    using that by (auto simp: mem_index_def split: option.splits)
      (metis fst_conv image_eqI map_of_SomeD)
  then show ?thesis
    by (fastforce simp: index_range_law_def mem_env_def ascending_map mem_keys_props
        split: option.splits)
qed

lemma mem_set_laws:
  "set_value_law mem_env mem_user mem_index mem_seq"
  "set_tombstone_law mem_env mem_user mem_index mem_seq"
  "set_index_law mem_env mem_user mem_index mem_seq"
proof -
  have "w < w + 1" if "w \<noteq> u64_max" for w :: u64
    using that by (rule u64_less_inc)
  then show "set_value_law mem_env mem_user mem_index mem_seq"
    by (auto simp: set_value_law_def mem_env_def mem_user_def mem_index_def mem_seq_def Let_def
        split: if_splits)
  show "set_tombstone_law mem_env mem_user mem_index mem_seq"
    by (auto simp: set_tombstone_law_def mem_env_def mem_user_def mem_index_def mem_seq_def Let_def)
  show "set_index_law mem_env mem_user mem_index mem_seq"
    by (auto simp: set_index_law_def mem_env_def mem_user_def mem_index_def mem_seq_def)
qed

lemma mem_env_ok: "env_ok mem_env mem_user mem_index mem_seq"
  by (simp add: env_ok_def view_ok_def mem_env_pure mem_set_laws mem_range_law mem_index_range_law)
    (simp add: get_ok_def mem_env_def)

end
