(* ===== verification/Mem_Run.thy ===== *)
theory Mem_Run
  imports Applier Mem_View
begin

text \<open>
  Evaluation of the applier on the in-memory view: the simplification rules that run it, and
  one run that the properties are instantiated with.
\<close>

section \<open>Evaluation rules\<close>

lemmas applier_simps =
  applier_new_def apply_entry_def get_log_time_def clean_expired_kvs_def list_expire_index_def
  set_cleanup_start_timestamp_def with_sys_data_def apply_payload_def apply_upsert_kv_def
  applier_upsert_kv_def upsert_kv_primary_index_def update_meta_def update_expire_index_def
  push_change_def send_changes_def on_change_applied_def apply_kv_transaction_def
  eval_condition_def get_maybe_expired_kv_def list_kv_def execute_get_def execute_put_def
  execute_delete_def execute_delete_by_prefix_def execute_fetch_increase_u64_def
  execute_put_sequential_def seq_marked_to_seqv_def Let_def

lemmas base_simps =
  from_millis_and_log_id_def cmd_context_new_def cmd_context_from_millis_def resolve_meta_spec_def
  default_meta_spec_def time_from_millis_def time_millis_def duration_from_millis_def
  duration_as_millis_def millis_u64_def time_add_def
  flexible_timestamp_to_duration_def upsert_kv_update_def upsert_kv_delete_def with_meta_spec_def
  with_match_seq_def meta_spec_new_expire_def meta_spec_new_def log_entry_new_with_time_def change_new_def
  new_log_id_def branch_then_def branch_if_def pred_seq_def pred_leaf_def op_put_def key_lookup_just_def
  key_lookup_new_def payload_just_def payload_new_def to_meta_spec_def seqv_to_pb_def

lemma mem_env_fields:
  "x_seq mem_env m = (case marked m of TombStone \<Rightarrow> 0 | Normal d \<Rightarrow> internal_seq m)"
  "x_is_tombstone mem_env m = (case marked m of TombStone \<Rightarrow> True | Normal d \<Rightarrow> False)"
  "x_into_data mem_env m = (case marked m of TombStone \<Rightarrow> None | Normal d \<Rightarrow> Some d)"
  "x_into_key mem_env k = (case marked k of TombStone \<Rightarrow> None | Normal d \<Rightarrow> Some d)"
  "x_into_seqv mem_env m = (case marked m of TombStone \<Rightarrow> None
       | Normal d \<Rightarrow> Some \<lparr>sv_seq = internal_seq m, sv_meta = fst d, sv_data = snd d\<rparr>)"
  "x_expires_at_ms mem_env = mem_expires_at_ms"
  "x_expires_at_ms_opt mem_env m = (case marked m of TombStone \<Rightarrow> None
       | Normal d \<Rightarrow> (case fst d of None \<Rightarrow> None
          | Some km \<Rightarrow> (case expire_at km of None \<Rightarrow> None | Some e \<Rightarrow> Some (mem_expires_at_ms km))))"
  "x_match_seq mem_env s n = (case s of MS_Any \<Rightarrow> True | MS_Exact k \<Rightarrow> n = k | MS_GE k \<Rightarrow> k \<le> n)"
  "x_is_expired mem_env ek t = (time_ms ek < t)"
  "x_opt_seq mem_env o' = (case o' of None \<Rightarrow> 0 | Some n \<Rightarrow> n)"
  "um_get mem_env w key = Inr (mem_user w key)"
  "um_range mem_env w rng = Inr (map (\<lambda>k. Inr (k, mem_user w k)) (mem_keys (fst w) rng))"
  "um_fetch_and_set mem_env = mem_set"
  "em_range mem_env w erng = Inr (map (\<lambda>k. Inr (k, case mem_index w k of
         None \<Rightarrow> SeqMarked 0 TombStone | Some v \<Rightarrow> SeqMarked 0 (Normal v))) (mem_keys (fst (snd w)) erng))"
  "em_set mem_env w ek v = (fst w, (ek, v) # fst (snd w), snd (snd w))"
  by (simp_all add: mem_env_def)

lemmas mem_simps =
  mem_env_fields mem_user_def mem_index_def mem_seq_def mem_keys_def mem_expires_at_ms_def mem_empty_def
  u64_max_numeral

section \<open>A run\<close>

text \<open>
  Two entries: the first stores a key that expires, the second comes after that time and holds
  a transaction that stores another key if the first one is gone.
\<close>

definition demo_sm :: "mem sm" where
  "demo_sm =
    \<lparr>view = mem_empty,
     sys = \<lparr>last_applied = None,
            last_membership = \<lparr>sm_log_id = None, sm_membership = \<lparr>joint_config = [], member_nodes = []\<rparr>\<rparr>,
            nodes = Map.empty, sequence = 0, data_seq = None, key_counts = Map.empty, sm_features = {}\<rparr>,
     cleanup_start = 0, subscribed = True, sent = []\<rparr>"

definition demo_entry :: "u64 \<Rightarrow> u64 \<Rightarrow> cmd \<Rightarrow> entry" where
  "demo_entry i t c =
    \<lparr>entry_log_id = new_log_id 1 1 i, entry_payload = Normal_Entry (log_entry_new_with_time c (Some t))\<rparr>"

definition demo_first :: entry where
  "demo_first = demo_entry 1 1000000000000 (UpsertKV (with_meta_spec
     (upsert_kv_update (ascii ''a'') [1]) (meta_spec_new_expire 1000000005000)))"

definition demo_second :: entry where
  "demo_second = demo_entry 2 1000000006000 (KvTransaction \<lparr>branches =
     [branch_then (branch_if (pred_seq (ascii ''a'') Op_Eq 0)) [op_put (ascii ''b'') [2]]]\<rparr>)"

definition demo_entries :: "entry strm" where
  "demo_entries = map Inr ([demo_first] @ [demo_second])"

definition demo_states :: "applied_state list" where
  "demo_states = fst (projr (apply_entries_loop prost_enums mem_env (applier_new demo_sm) demo_entries))"

definition demo_end :: "mem applier" where
  "demo_end = snd (projr (apply_entries_loop prost_enums mem_env (applier_new demo_sm) demo_entries))"

lemmas demo_simps = demo_sm_def demo_entry_def demo_entries_def demo_first_def demo_second_def

lemma demo_index_ok: "index_ok mem_env mem_user mem_index mem_seq (view (ap_sm (applier_new demo_sm)))"
  by (simp add: index_ok_def applier_new_def demo_sm_def mem_simps)

lemma demo_run:
  "apply_entries_loop prost_enums mem_env (applier_new demo_sm) demo_entries = Inr (demo_states, demo_end)"
proof -
  have "\<not> isl (apply_entries_loop prost_enums mem_env (applier_new demo_sm) demo_entries)"
    by (simp add: demo_simps applier_simps base_simps mem_simps)
  then show ?thesis
    by (cases "apply_entries_loop prost_enums mem_env (applier_new demo_sm) demo_entries")
      (auto simp: demo_states_def demo_end_def)
qed

text \<open>The state after the first entry, and the state after cleaning it at the time of the second.\<close>

definition demo_mid :: "mem applier" where
  "demo_mid = snd (projr (apply_entry prost_enums mem_env (applier_new demo_sm) demo_first))"

definition demo_cleaned :: "mem applier" where
  "demo_cleaned = projr (clean_expired_kvs mem_env demo_mid 1000000006000)"

lemma demo_mid_run:
  "\<exists>st. apply_entry prost_enums mem_env (applier_new demo_sm) demo_first = Inr (st, demo_mid)"
proof -
  have "\<not> isl (apply_entry prost_enums mem_env (applier_new demo_sm) demo_first)"
    by (simp add: demo_simps applier_simps base_simps mem_simps)
  then show ?thesis
    by (cases "apply_entry prost_enums mem_env (applier_new demo_sm) demo_first") (auto simp: demo_mid_def)
qed

lemma demo_mid_fields:
  "view (ap_sm demo_mid) =
    ([(ascii ''a'', SeqMarked 1 (Normal (Some \<lparr>expire_at = Some 1000000005000, proposed_at_ms = Some 1000000000000\<rparr>, [1])))],
     [(ExpireKey 1000000005000 1, Some (ascii ''a''))], 1)"
  "millis_u64 (cleanup_start (ap_sm demo_mid)) = 1000000000000"
  "time_millis (ctx_time (cmd_ctx demo_mid)) = 1000000000000"
  by (simp_all add: demo_mid_def demo_simps applier_simps base_simps mem_simps)

lemma demo_clean_run: "clean_expired_kvs mem_env demo_mid 1000000006000 = Inr demo_cleaned"
proof -
  have "\<not> isl (clean_expired_kvs mem_env demo_mid 1000000006000)"
    by (simp add: demo_mid_fields applier_simps mem_simps upsert_kv_delete_def resolve_meta_spec_def
        default_meta_spec_def in_range_def less_eq_expire_key_def less_expire_key_def)
  then show ?thesis
    by (cases "clean_expired_kvs mem_env demo_mid 1000000006000") (auto simp: demo_cleaned_def)
qed

end
