(* ===== verification/Upsert_Spec.thy ===== *)
theory Upsert_Spec
  imports Mem_Run
begin

text \<open>
  The contract of an upsert as a client sees it.  The visible map gives for every key the value
  with its sequence number and metadata, if there is one; \<open>spec_upsert\<close> says what becomes of the
  value of the key, and the detailed steps on the primary index refine it.
\<close>

section \<open>Visible map and specification\<close>

definition visible ::
  "'w env \<Rightarrow> ('w \<Rightarrow> rstring \<Rightarrow> meta_value seq_marked) \<Rightarrow> 'w applier \<Rightarrow> rstring \<Rightarrow> bytes seqv option" where
  "visible X U a k = x_into_seqv X (U (view (ap_sm a)) k)"

definition seq_of :: "'a seqv option \<Rightarrow> u64" where
  "seq_of v = (case v of None \<Rightarrow> 0 | Some sv \<Rightarrow> sv_seq sv)"

fun matches :: "match_seq \<Rightarrow> u64 \<Rightarrow> bool" where
  "matches MS_Any n \<longleftrightarrow> True"
| "matches (MS_Exact m) n \<longleftrightarrow> n = m"
| "matches (MS_GE m) n \<longleftrightarrow> m \<le> n"

text \<open>The metadata that the upsert gives to the value.\<close>

definition new_meta :: "cmd_context \<Rightarrow> upsert_kv \<Rightarrow> kvmeta" where
  "new_meta ctx u =
    resolve_meta_spec ctx (case ukv_value_meta u of None \<Rightarrow> default_meta_spec | Some m \<Rightarrow> m)"

text \<open>
  The value of the key after the upsert, given the value before; \<open>expires\<close> gives the expiry time
  of metadata and \<open>n\<close> is the sequence number for a new value.
\<close>

definition spec_upsert ::
  "(kvmeta \<Rightarrow> u64) \<Rightarrow> cmd_context \<Rightarrow> upsert_kv \<Rightarrow> u64 \<Rightarrow> bytes seqv option \<Rightarrow> bytes seqv option" where
  "spec_upsert expires ctx u n old =
    (let m = new_meta ctx u in
     if \<not> matches (ukv_seq u) (seq_of old) then old
     else if expires m < time_millis (ctx_time ctx) then None
     else (case ukv_value u of
             Update v \<Rightarrow> Some \<lparr>sv_seq = n, sv_meta = Some m, sv_data = v\<rparr>
           | Delete \<Rightarrow> None
           | AsIs \<Rightarrow> map_option (\<lambda>sv. \<lparr>sv_seq = n, sv_meta = Some m, sv_data = sv_data sv\<rparr>) old))"

section \<open>The pure library functions\<close>

lemma into_seqv:
  assumes "env_ok X U N Q"
  shows "x_into_seqv X (SeqMarked s TombStone) = None"
    and "x_into_seqv X (SeqMarked s (Normal (m, v))) = Some \<lparr>sv_seq = s, sv_meta = m, sv_data = v\<rparr>"
  using assms by (simp_all add: env_ok_def env_pure_ok_def)

lemma into_seqv_cases:
  assumes "env_ok X U N Q"
  obtains s where "m = SeqMarked s TombStone" "x_into_seqv X m = None" "x_seq X m = 0"
  | s km v where "m = SeqMarked s (Normal (km, v))" "x_seq X m = s"
      "x_into_seqv X m = Some \<lparr>sv_seq = s, sv_meta = km, sv_data = v\<rparr>"
proof -
  have "x_seq X (SeqMarked s (Normal d)) = s" "x_seq X (SeqMarked s TombStone) = 0" for s d
    using assms by (simp_all add: env_ok_def env_pure_ok_def del: split_paired_All)
  with that into_seqv [OF assms] show thesis
    by (cases m; cases "marked m") (auto simp: prod_eq_iff)
qed

lemma into_seqv_None_iff:
  assumes "env_ok X U N Q"
  shows "x_into_seqv X m = None \<longleftrightarrow> marked m = TombStone"
  by (rule into_seqv_cases [OF assms, of m]) auto

lemma seq_of_into_seqv:
  assumes "env_ok X U N Q"
  shows "x_seq X m = seq_of (x_into_seqv X m)"
  by (rule into_seqv_cases [OF assms, of m]) (auto simp: seq_of_def)

lemma opt_seq: "env_ok X U N Q \<Longrightarrow> x_opt_seq X (map_option sv_seq v) = seq_of v"
  unfolding env_ok_def env_pure_ok_def by (cases v) (simp_all add: seq_of_def)

lemma match_seq_matches: "env_ok X U N Q \<Longrightarrow> x_match_seq X m n = matches m n"
  unfolding env_ok_def env_pure_ok_def by (cases m) simp_all

lemma is_tombstone: "env_ok X U N Q \<Longrightarrow> x_is_tombstone X m \<longleftrightarrow> marked m = TombStone"
  by (simp add: env_ok_def env_pure_ok_def)

lemma into_data: "env_ok X U N Q \<Longrightarrow> x_into_data X (SeqMarked s (Normal d)) = Some d"
  by (simp add: env_ok_def env_pure_ok_def del: split_paired_All)

lemma set_tombstone_seqv:
  "env_ok X U N Q \<Longrightarrow> um_fetch_and_set X w k None = Inr ((p, r), w') \<Longrightarrow> x_into_seqv X r = None"
  using set_tombstone_ok [of X U N Q w k p r w'] into_seqv(1) [of X U N Q] by auto

lemma set_value_seqv:
  "env_ok X U N Q \<Longrightarrow> um_fetch_and_set X w k (Some (m, v)) = Inr ((p, r), w') \<Longrightarrow>
   Q w < internal_seq r \<and> x_into_seqv X r = Some \<lparr>sv_seq = internal_seq r, sv_meta = m, sv_data = v\<rparr>"
  using set_value_ok [of X U N Q w k "(m, v)" p r w'] into_seqv(2) [of X U N Q] by auto

lemma update_meta_seqv:
  assumes "env_ok X U N Q" "update_meta X w k (Some m) = Inr ((p, r), w')"
  shows "x_into_seqv X r = map_option (\<lambda>sv. \<lparr>sv_seq = internal_seq r, sv_meta = Some m, sv_data = sv_data sv\<rparr>)
      (x_into_seqv X (U w k)) \<and> (x_into_seqv X r \<noteq> None \<longrightarrow> Q w < internal_seq r)"
proof -
  obtain got where got: "um_get X w k = Inr got" using assms(2) by (auto simp: update_meta_def)
  then have U: "got = U w k" using assms(1) by (rule um_get_ok [rotated])
  show ?thesis
  proof (cases "marked got")
    case (Normal d)
    obtain old v where d: "d = (old, v)" by fastforce
    obtain n where n: "got = SeqMarked n (Normal (old, v))" using Normal d by (cases got) simp
    have "x_into_data X got = Some (old, v)"
      and "x_into_seqv X (U w k) = Some \<lparr>sv_seq = n, sv_meta = old, sv_data = v\<rparr>"
      using into_data [OF assms(1)] into_seqv(2) [OF assms(1)] by (simp_all add: U [symmetric] n)
    then show ?thesis
      using assms(2) got Normal set_value_seqv [OF assms(1)]
      by (auto simp: update_meta_def is_tombstone [OF assms(1)])
  next
    case TombStone
    then have "x_into_seqv X (U w k) = None" using into_seqv_None_iff [OF assms(1)] U by simp
    moreover have "r = got" using assms(2) got TombStone
      by (auto simp: update_meta_def is_tombstone [OF assms(1)])
    ultimately show ?thesis using U by simp
  qed
qed

section \<open>Refinement\<close>

lemma primary_index_refines:
  assumes env: "env_ok X U N Q" and run: "upsert_kv_primary_index X s u ctx = Inr ((p, r), s')"
  shows "x_into_seqv X r =
      spec_upsert (x_expires_at_ms X) ctx u (internal_seq r) (x_into_seqv X (U (view s) (ukv_key u))) \<and>
    (x_into_seqv X r = x_into_seqv X (U (view s) (ukv_key u)) \<or> x_into_seqv X r = None \<or>
     Q (view s) < internal_seq r)"
proof -
  let ?k = "ukv_key u" and ?m = "new_meta ctx u"
  let ?old = "x_into_seqv X (U (view s) ?k)"
  obtain got where got: "um_get X (view s) ?k = Inr got"
    using run by (auto simp: upsert_kv_primary_index_def Let_def)
  have U: "got = U (view s) ?k" using env got by (rule um_get_ok)
  have match: "x_match_seq X (ukv_seq u) (x_seq X got) = matches (ukv_seq u) (seq_of ?old)"
    by (simp add: match_seq_matches [OF env] seq_of_into_seqv [OF env] U)
  show ?thesis
  proof (cases "matches (ukv_seq u) (seq_of ?old)")
    case False
    with run got match U show ?thesis
      by (auto simp: upsert_kv_primary_index_def Let_def spec_upsert_def)
  next
    case True
    define F where "F = (case ukv_value u of
            Update v \<Rightarrow> um_fetch_and_set X (view s) ?k (Some (Some ?m, v))
          | Delete \<Rightarrow> um_fetch_and_set X (view s) ?k None
          | AsIs \<Rightarrow> update_meta X (view s) ?k (Some ?m))"
    have "rbind F (\<lambda>((p, r), w1).
        if x_expires_at_ms X ?m < time_millis (ctx_time ctx) then
          rbind (um_fetch_and_set X w1 ?k None) (\<lambda>((p', r'), w2). Inr ((p, r'), s\<lparr>view := w2\<rparr>))
        else Inr ((p, r), s\<lparr>view := w1\<rparr>)) = Inr ((p, r), s')"
      using run got match True
      unfolding upsert_kv_primary_index_def Let_def F_def new_meta_def
      by (simp only: rbind.simps not_True_eq_False if_False)
    then obtain p1 r1 w1 where w1: "F = Inr ((p1, r1), w1)"
      and rest: "(if x_expires_at_ms X ?m < time_millis (ctx_time ctx) then
           rbind (um_fetch_and_set X w1 ?k None) (\<lambda>((p', r'), w2). Inr ((p1, r'), s\<lparr>view := w2\<rparr>))
         else Inr ((p1, r1), s\<lparr>view := w1\<rparr>)) = Inr ((p, r), s')"
      by (cases F) auto
    show ?thesis
    proof (cases "x_expires_at_ms X ?m < time_millis (ctx_time ctx)")
      case exp: True
      then have "x_into_seqv X r = None"
        using rest by (auto dest: set_tombstone_seqv [OF env])
      with exp True show ?thesis by (simp add: spec_upsert_def Let_def)
    next
      case exp: False
      with rest have r: "r = r1" by simp
      from w1 [unfolded F_def] have "x_into_seqv X r1 = (case ukv_value u of
             Update v \<Rightarrow> Some \<lparr>sv_seq = internal_seq r1, sv_meta = Some ?m, sv_data = v\<rparr>
           | Delete \<Rightarrow> None
           | AsIs \<Rightarrow> map_option (\<lambda>sv. \<lparr>sv_seq = internal_seq r1, sv_meta = Some ?m, sv_data = sv_data sv\<rparr>) ?old) \<and>
         (x_into_seqv X r1 \<noteq> None \<longrightarrow> Q (view s) < internal_seq r1)"
        by (cases "ukv_value u")
          (auto dest: set_value_seqv [OF env] set_tombstone_seqv [OF env] update_meta_seqv [OF env])
      with r exp True show ?thesis by (auto simp: spec_upsert_def Let_def)
    qed
  qed
qed

section \<open>What an upsert does to the applier\<close>

lemma upsert_kv_step:
  assumes "env_ok X U N Q" "applier_upsert_kv X a u = Inr ((pv, rv), a')"
  obtains p r w1 where "key_step U N Q (ukv_key u) (view (ap_sm a)) p r w1"
    "upsert_kv_primary_index X (ap_sm a) u (cmd_ctx a) = Inr ((p, r), (ap_sm a)\<lparr>view := w1\<rparr>)"
    "ap_sm a' = update_expire_index X ((ap_sm a)\<lparr>view := w1\<rparr>) (ukv_key u) p r"
    "pv = x_into_seqv X p" "rv = x_into_seqv X r" "cmd_ctx a' = cmd_ctx a"
    "changes a' = changes a @ (if pv = rv then [] else [(ukv_key u, pv, rv)])"
proof -
  obtain p r s1 where pi: "upsert_kv_primary_index X (ap_sm a) u (cmd_ctx a) = Inr ((p, r), s1)"
    and a': "a' = push_change (a\<lparr>ap_sm := update_expire_index X s1 (ukv_key u) p r\<rparr>) (ukv_key u)
        (x_into_seqv X p) (x_into_seqv X r)"
    and pv: "pv = x_into_seqv X p" and rv: "rv = x_into_seqv X r"
    using assms(2) by (auto simp: applier_upsert_kv_def Let_def)
  have step: "key_step U N Q (ukv_key u) (view (ap_sm a)) p r (view s1)"
    and s1: "s1 = (ap_sm a)\<lparr>view := view s1\<rparr>"
    using primary_index_step [OF assms(1) pi] by simp_all
  show thesis
  proof (rule that [OF step])
    show "upsert_kv_primary_index X (ap_sm a) u (cmd_ctx a) = Inr ((p, r), (ap_sm a)\<lparr>view := view s1\<rparr>)"
      using pi s1 by simp
    show "ap_sm a' = update_expire_index X ((ap_sm a)\<lparr>view := view s1\<rparr>) (ukv_key u) p r"
      using a' s1 by (simp add: push_change_def)
  qed (simp_all add: a' pv rv push_change_def)
qed

lemma upsert_kv_maps:
  assumes "env_ok X U N Q" "applier_upsert_kv X a u = Inr ((pv, rv), a')"
  obtains p r where "p = U (view (ap_sm a)) (ukv_key u)" "pv = x_into_seqv X p" "rv = x_into_seqv X r"
    "U (view (ap_sm a')) = (U (view (ap_sm a)))(ukv_key u := r)"
    "Q (view (ap_sm a)) \<le> Q (view (ap_sm a'))"
proof -
  obtain p r w1 where "key_step U N Q (ukv_key u) (view (ap_sm a)) p r w1"
    "ap_sm a' = update_expire_index X ((ap_sm a)\<lparr>view := w1\<rparr>) (ukv_key u) p r"
    "pv = x_into_seqv X p" "rv = x_into_seqv X r"
    by (rule upsert_kv_step [OF assms])
  then show thesis
    by (intro that [of p r]) (simp_all add: key_step_def update_expire_index_maps [OF assms(1)])
qed

lemma update_expire_index_fields [simp]:
  "sys (update_expire_index X s k p r) = sys s"
  "cleanup_start (update_expire_index X s k p r) = cleanup_start s"
  "sent (update_expire_index X s k p r) = sent s"
  "subscribed (update_expire_index X s k p r) = subscribed s"
  by (simp_all add: update_expire_index_def Let_def split: option.splits)

lemma upsert_refines_spec:
  assumes env: "env_ok X U N Q" and run: "applier_upsert_kv X a u = Inr ((p, r), a')"
  obtains n where "p = visible X U a (ukv_key u)"
    and "r = spec_upsert (x_expires_at_ms X) (cmd_ctx a) u n p"
    and "visible X U a' = (visible X U a)(ukv_key u := r)"
    and "r = p \<or> r = None \<or> Q (view (ap_sm a)) < n"
    and "changes a' = changes a @ (if p = r then [] else [(ukv_key u, p, r)])"
proof -
  obtain p0 r0 w1 where step: "key_step U N Q (ukv_key u) (view (ap_sm a)) p0 r0 w1"
    and prim: "upsert_kv_primary_index X (ap_sm a) u (cmd_ctx a) = Inr ((p0, r0), (ap_sm a)\<lparr>view := w1\<rparr>)"
    and a': "ap_sm a' = update_expire_index X ((ap_sm a)\<lparr>view := w1\<rparr>) (ukv_key u) p0 r0"
    and pr: "p = x_into_seqv X p0" "r = x_into_seqv X r0"
    and ch: "changes a' = changes a @ (if p = r then [] else [(ukv_key u, p, r)])"
    by (rule upsert_kv_step [OF env run])
  have p0: "p0 = U (view (ap_sm a)) (ukv_key u)" using step by (simp add: key_step_def)
  then have p: "p = visible X U a (ukv_key u)" using pr by (simp add: visible_def)
  have "U (view (ap_sm a')) = (U (view (ap_sm a)))(ukv_key u := r0)"
    using step a' by (simp add: key_step_def update_expire_index_maps [OF env])
  then have vis: "visible X U a' = (visible X U a)(ukv_key u := r)"
    by (auto simp: visible_def pr fun_eq_iff)
  show thesis
    using primary_index_refines [OF env prim]
    by (intro that [OF p _ vis _ ch, of "internal_seq r0"]) (auto simp: pr p0)
qed

text \<open>
  C2: an upsert refines its specification.  The value before is what was visible, the value after
  is the one specified for the sequence condition, the metadata and the operation, a stored value
  has a new sequence number, no other key changes, and the change is queued for the watchers
  exactly when the visible value changed.
\<close>

theorem upsert_refines:
  assumes "env_ok X U N Q" "applier_upsert_kv X a u = Inr ((p, r), a')"
  shows "\<exists>n. p = visible X U a (ukv_key u) \<and>
    r = spec_upsert (x_expires_at_ms X) (cmd_ctx a) u n p \<and>
    visible X U a' = (visible X U a)(ukv_key u := r) \<and>
    (r = p \<or> r = None \<or> Q (view (ap_sm a)) < n) \<and>
    changes a' = changes a @ (if p = r then [] else [(ukv_key u, p, r)])"
  by (rule upsert_refines_spec [OF assms]) blast

definition demo_upsert :: upsert_kv where
  "demo_upsert = with_match_seq (upsert_kv_update (ascii ''a'') [1]) (MS_Exact 0)"

lemma demo_upsert_run:
  obtains a' where "applier_upsert_kv mem_env (applier_new demo_sm) demo_upsert =
    Inr ((None, Some \<lparr>sv_seq = 1, sv_meta = Some \<lparr>expire_at = None, proposed_at_ms = Some 0\<rparr>, sv_data = [1]\<rparr>), a')"
  by (simp add: demo_upsert_def demo_simps applier_simps base_simps mem_simps)

theorem upsert_refines_witness:
  "\<exists>r a' n. applier_upsert_kv mem_env (applier_new demo_sm) demo_upsert = Inr ((None, r), a') \<and> r \<noteq> None \<and>
     r = spec_upsert (x_expires_at_ms mem_env) (cmd_ctx (applier_new demo_sm)) demo_upsert n None \<and>
     visible mem_env mem_user a' =
       (visible mem_env mem_user (applier_new demo_sm))(ukv_key demo_upsert := r)"
proof -
  obtain a' r where run: "applier_upsert_kv mem_env (applier_new demo_sm) demo_upsert = Inr ((None, Some r), a')"
    by (rule demo_upsert_run)
  show ?thesis using upsert_refines [OF mem_env_ok run] run by blast
qed

end
