(* ===== verification/Apply_Correct.thy ===== *)
theory Apply_Correct
  imports Upsert_Spec
begin

text \<open>
  Correctness of the application of log entries.  The locales collect what is kept by every
  operation that changes the state machine through upserts, and are interpreted on the
  agreement of the two indexes and on the growth of the sequence numbers.
\<close>

section \<open>The steps of an entry\<close>

definition with_entry_ctx :: "'w applier \<Rightarrow> entry \<Rightarrow> 'w applier" where
  "with_entry_ctx a e = a\<lparr>cmd_ctx := from_millis_and_log_id (get_log_time e) (entry_log_id e)\<rparr>"

definition with_last_applied :: "'w applier \<Rightarrow> entry \<Rightarrow> 'w applier" where
  "with_last_applied a e =
    a\<lparr>ap_sm := with_sys_data (ap_sm a) (\<lambda>sd. sd\<lparr>last_applied := Some (entry_log_id e)\<rparr>)\<rparr>"

lemma apply_entry_steps:
  assumes "apply_entry E X a e = Inr (st, a')"
  obtains a2 a4 where "clean_expired_kvs X (with_entry_ctx a e) (get_log_time e) = Inr a2"
    "apply_payload E X (with_last_applied a2 e) e = Inr (st, a4)" "a' = send_changes a4"
  using assms by (auto simp: apply_entry_def Let_def with_entry_ctx_def with_last_applied_def)

section \<open>Invariants of everything built from upserts\<close>

text \<open>
  Every operation of a transaction, and the removal of expired keys, changes the state machine
  through \<open>upsert_kv\<close> only.  A property of the applier that an upsert keeps is therefore kept
  by all of them; the locale states this once.
\<close>

locale upsert_invariant =
  fixes X :: "'w env" and I :: "'w applier \<Rightarrow> bool"
  assumes upsert_push_keeps: "I a \<Longrightarrow> applier_upsert_kv X a u = Inr ((p, r), a') \<Longrightarrow>
    I a' \<and> I (push_change a' (ukv_key u) p r)"
begin

lemma upsert_keeps: "I a \<Longrightarrow> applier_upsert_kv X a u = Inr (pr, a') \<Longrightarrow> I a'"
  using upsert_push_keeps [of a u "fst pr" "snd pr" a'] by simp

lemma put_keeps: "I a \<Longrightarrow> execute_put X a t p = Inr (r, a') \<Longrightarrow> I a'"
  by (auto simp: execute_put_def Let_def split: option.splits dest: upsert_keeps)

lemma delete_keeps: "I a \<Longrightarrow> execute_delete X a t = Inr (r, a') \<Longrightarrow> I a'"
  by (auto simp: execute_delete_def Let_def split: option.splits dest: upsert_keeps)

lemma delete_listed_keeps: "I a \<Longrightarrow> delete_listed X a strm n = Inr (m, a') \<Longrightarrow> I a'"
proof (induction strm arbitrary: a n)
  case (Cons x strm)
  then obtain k p r a1 where up: "applier_upsert_kv X a (upsert_kv_delete k) = Inr ((p, r), a1)"
    and rest: "delete_listed X (push_change a1 k p r) strm (n + 1) = Inr (m, a')"
    by (cases x) auto
  have "I (push_change a1 k p r)"
    using upsert_push_keeps [OF Cons.prems(1) up] by (simp add: upsert_kv_delete_def)
  then show ?case using Cons.IH rest by blast
qed simp

lemma delete_by_prefix_keeps: "I a \<Longrightarrow> execute_delete_by_prefix X a p = Inr (r, a') \<Longrightarrow> I a'"
  by (auto simp: execute_delete_by_prefix_def dest: delete_listed_keeps)

lemma fetch_increase_keeps: "I a \<Longrightarrow> execute_fetch_increase_u64 X a t d f = Inr (r, a') \<Longrightarrow> I a'"
  by (auto simp: execute_fetch_increase_u64_def Let_def split: if_splits dest: upsert_keeps)

lemma put_sequential_keeps:
  assumes "I a" "execute_put_sequential X a pre k p = Inr (r, a')"
  shows "I a'"
proof -
  obtain f a1 where f: "execute_fetch_increase_u64 X a (key_lookup_just k) 1 0 = Inr (f, a1)"
    using assms(2) by (auto simp: execute_put_sequential_def)
  have "I a1" by (rule fetch_increase_keeps [OF assms(1) f])
  then show ?thesis
    using assms(2) f by (auto simp: execute_put_sequential_def Let_def intro: upsert_keeps)
qed

lemma op_keeps: "I a \<Longrightarrow> execute_op X a x = Inr (r, a') \<Longrightarrow> I a'"
  by (cases x)
    (auto dest: put_keeps delete_keeps delete_by_prefix_keeps fetch_increase_keeps put_sequential_keeps)

lemma ops_keep: "I a \<Longrightarrow> execute_ops X a xs = Inr (rs, a') \<Longrightarrow> I a'"
  by (induction xs arbitrary: a rs) (auto dest: op_keeps)

lemma branches_keep: "I a \<Longrightarrow> run_branches X a i bs = Inr (r, a') \<Longrightarrow> I a'"
  by (induction bs arbitrary: i) (auto split: if_splits dest: ops_keep)

lemma transaction_keeps: "I a \<Longrightarrow> apply_kv_transaction X a t = Inr (st, a') \<Longrightarrow> I a'"
  by (auto simp: apply_kv_transaction_def dest: branches_keep)

lemma delete_expired_keeps: "I a \<Longrightarrow> delete_expired X a xs = Inr a' \<Longrightarrow> I a'"
proof (induction xs arbitrary: a)
  case (Cons x xs)
  then obtain pr a1 where "applier_upsert_kv X a (upsert_kv_delete (snd x)) = Inr (pr, a1)"
    and "delete_expired X a1 xs = Inr a'"
    by (cases x) auto
  then show ?case using Cons.IH upsert_keeps [OF Cons.prems(1)] by blast
qed simp

end

text \<open>When the property also ignores the non-user data, it is kept by every payload.\<close>

locale payload_invariant = upsert_invariant X I
  for X :: "'w env" and I :: "'w applier \<Rightarrow> bool" +
  assumes sys_keeps: "I (a\<lparr>ap_sm := (ap_sm a)\<lparr>sys := y\<rparr>\<rparr>) = I a"
begin

lemma with_sys_data_keeps [simp]: "I (a\<lparr>ap_sm := with_sys_data (ap_sm a) f\<rparr>) = I a"
  by (simp add: with_sys_data_def sys_keeps)

lemma cmd_keeps: "I a \<Longrightarrow> apply_cmd E X a c = Inr (st, a') \<Longrightarrow> I a'"
  by (cases c)
    (auto simp: apply_add_node_def apply_remove_node_def apply_set_feature_def apply_upsert_kv_def
      Let_def split: if_splits dest: transaction_keeps upsert_keeps)

lemma payload_keeps: "I a \<Longrightarrow> apply_payload E X a e = Inr (st, a') \<Longrightarrow> I a'"
  by (auto simp: apply_payload_def split: entry_payload.splits dest: cmd_keeps)

end

text \<open>When it also ignores the cleanup time, it is kept by the removal of expired keys.\<close>

locale state_invariant = payload_invariant X I
  for X :: "'w env" and I :: "'w applier \<Rightarrow> bool" +
  assumes cleanup_keeps: "I (a\<lparr>ap_sm := (ap_sm a)\<lparr>cleanup_start := d\<rparr>\<rparr>) = I a"
begin

lemma clean_keeps:
  assumes "I a" "clean_expired_kvs X a t = Inr a'"
  shows "I a'"
proof (cases "t = 0")
  case False
  let ?a1 = "a\<lparr>ap_sm := (ap_sm a)\<lparr>cleanup_start := duration_from_millis t\<rparr>\<rparr>"
  obtain xs where "delete_expired X ?a1 xs = Inr a'"
    using assms(2) False
    by (auto simp: clean_expired_kvs_def Let_def set_cleanup_start_timestamp_def)
  moreover have "I ?a1" using assms(1) by (simp add: cleanup_keeps)
  ultimately show ?thesis using delete_expired_keeps by blast
qed (use assms in \<open>simp add: clean_expired_kvs_def\<close>)

end

text \<open>
  When it also ignores the context and what has been queued and published, it is kept by the
  application of any entries.
\<close>

locale apply_invariant = state_invariant X I
  for X :: "'w env" and I :: "'w applier \<Rightarrow> bool" +
  assumes ctx_keeps: "I (a\<lparr>cmd_ctx := c\<rparr>) = I a"
    and changes_keep: "I (a\<lparr>changes := cs\<rparr>) = I a"
    and sent_keeps: "I (a\<lparr>ap_sm := (ap_sm a)\<lparr>sent := es\<rparr>\<rparr>) = I a"
begin

lemma publish_keeps: "I (a\<lparr>ap_sm := fold (\<lambda>c s. on_change_applied s c) cs (ap_sm a)\<rparr>) = I a"
proof -
  have "\<exists>es. fold (\<lambda>c s. on_change_applied s c) cs s = s\<lparr>sent := es\<rparr>" for s :: "'w sm"
  proof (induction cs arbitrary: s)
    case Nil
    show ?case by (rule exI [of _ "sent s"]) simp
  next
    case (Cons c cs)
    have "\<exists>es. on_change_applied s c = s\<lparr>sent := es\<rparr>"
      by (cases "subscribed s") (auto simp: on_change_applied_def intro: exI [of _ "sent s"])
    then obtain es where es: "on_change_applied s c = s\<lparr>sent := es\<rparr>" by blast
    obtain es' where "fold (\<lambda>c s. on_change_applied s c) cs (s\<lparr>sent := es\<rparr>) = s\<lparr>sent := es, sent := es'\<rparr>"
      using Cons.IH [of "s\<lparr>sent := es\<rparr>"] by blast
    then show ?case by (auto simp: es)
  qed
  then obtain es where "fold (\<lambda>c s. on_change_applied s c) cs (ap_sm a) = (ap_sm a)\<lparr>sent := es\<rparr>" by blast
  then show ?thesis by (simp add: sent_keeps)
qed

lemma send_keeps: "I (send_changes a) = I a"
proof -
  let ?b = "a\<lparr>ap_sm := fold (\<lambda>c s. on_change_applied s c) (changes a) (ap_sm a)\<rparr>"
  have "send_changes a = ?b\<lparr>changes := []\<rparr>" by (simp add: send_changes_def)
  then show ?thesis using publish_keeps [where a = a and cs = "changes a"] changes_keep by simp
qed

lemma apply_keeps:
  assumes "I a" "apply_entry E X a e = Inr (st, a')"
  shows "I a'"
proof -
  obtain a2 a4 where a2: "clean_expired_kvs X (with_entry_ctx a e) (get_log_time e) = Inr a2"
    and a4: "apply_payload E X (with_last_applied a2 e) e = Inr (st, a4)" and a': "a' = send_changes a4"
    by (rule apply_entry_steps [OF assms(2)])
  have "I a2" using clean_keeps [OF _ a2] assms(1) by (simp add: with_entry_ctx_def ctx_keeps)
  then have "I a4" using payload_keeps [OF _ a4] by (simp add: with_last_applied_def)
  then show ?thesis by (simp add: a' send_keeps)
qed

lemma entries_keep: "I a \<Longrightarrow> apply_entries_loop E X a es = Inr (sts, a') \<Longrightarrow> I a'"
proof (induction es arbitrary: a sts)
  case (Cons x es)
  then obtain e st a1 sts' where "apply_entry E X a e = Inr (st, a1)"
    and "apply_entries_loop E X a1 es = Inr (sts', a')"
    by (cases x) auto
  then show ?case using Cons.IH apply_keeps [OF Cons.prems(1)] by blast
qed simp

end

section \<open>Agreement of the two indexes, and growth of the sequence numbers\<close>

text \<open>The state of an applier whose two indexes agree, relative to lawful library functions.\<close>

definition agrees ::
  "'w env \<Rightarrow> ('w \<Rightarrow> rstring \<Rightarrow> meta_value seq_marked) \<Rightarrow> ('w \<Rightarrow> expire_key \<Rightarrow> rstring option) \<Rightarrow>
   ('w \<Rightarrow> u64) \<Rightarrow> 'w applier \<Rightarrow> bool" where
  "agrees X U N Q a \<longleftrightarrow> env_ok X U N Q \<and> index_ok X U N Q (view (ap_sm a))"

definition given_out ::
  "'w env \<Rightarrow> ('w \<Rightarrow> rstring \<Rightarrow> meta_value seq_marked) \<Rightarrow> ('w \<Rightarrow> expire_key \<Rightarrow> rstring option) \<Rightarrow>
   ('w \<Rightarrow> u64) \<Rightarrow> u64 \<Rightarrow> 'w applier \<Rightarrow> bool" where
  "given_out X U N Q q a \<longleftrightarrow> env_ok X U N Q \<and> q \<le> Q (view (ap_sm a))"

lemma push_change_fields [simp]:
  "ap_sm (push_change a k p r) = ap_sm a" "cmd_ctx (push_change a k p r) = cmd_ctx a"
  by (simp_all add: push_change_def)

interpretation idx: apply_invariant X "agrees X U N Q" for X U N Q
proof
  fix a u p r a'
  assume "agrees X U N Q a" and up: "applier_upsert_kv X a u = Inr ((p, r), a')"
  then have env: "env_ok X U N Q" and idx: "index_ok X U N Q (view (ap_sm a))"
    by (simp_all add: agrees_def)
  obtain p0 r0 w1 where "key_step U N Q (ukv_key u) (view (ap_sm a)) p0 r0 w1"
    and "ap_sm a' = update_expire_index X ((ap_sm a)\<lparr>view := w1\<rparr>) (ukv_key u) p0 r0"
    by (rule upsert_kv_step [OF env up])
  then show "agrees X U N Q a' \<and> agrees X U N Q (push_change a' (ukv_key u) p r)"
    using update_expire_index_keeps [OF env idx, of _ p0 r0 "(ap_sm a)\<lparr>view := w1\<rparr>"] env
    by (simp add: agrees_def)
qed (simp_all add: agrees_def)

interpretation grow: apply_invariant X "given_out X U N Q q" for X U N Q q
proof
  fix a u p r a'
  assume "given_out X U N Q q a" and up: "applier_upsert_kv X a u = Inr ((p, r), a')"
  then have env: "env_ok X U N Q" and q: "q \<le> Q (view (ap_sm a))"
    by (simp_all add: given_out_def)
  have "Q (view (ap_sm a)) \<le> Q (view (ap_sm a'))"
    by (rule upsert_kv_maps [OF env up])
  with q env show "given_out X U N Q q a' \<and> given_out X U N Q q (push_change a' (ukv_key u) p r)"
    by (simp add: given_out_def)
qed (simp_all add: given_out_def)

text \<open>
  C1: applying any sequence of log entries, with whatever commands and transactions they hold,
  keeps the two indexes of the state machine in agreement: the expiration index has exactly
  one entry for every stored value that expires, and none for anything else.  It never takes
  back a sequence number.
\<close>

theorem apply_entries_invariant:
  assumes "env_ok X U N Q" "index_ok X U N Q (view (ap_sm a))"
    and "apply_entries_loop E X a es = Inr (sts, a')"
  shows "index_ok X U N Q (view (ap_sm a')) \<and> Q (view (ap_sm a)) \<le> Q (view (ap_sm a'))"
  using idx.entries_keep [of X U N Q a E es sts a']
    grow.entries_keep [of X U N Q "Q (view (ap_sm a))" a E es sts a'] assms
  by (simp add: agrees_def given_out_def)

theorem apply_entries_invariant_witness:
  "index_ok mem_env mem_user mem_index mem_seq (view (ap_sm demo_end)) \<and>
   mem_seq (view (ap_sm (applier_new demo_sm))) \<le> mem_seq (view (ap_sm demo_end))"
  by (rule apply_entries_invariant [OF mem_env_ok demo_index_ok demo_run])

end
