(* ===== verification/Apply_Effects.thy ===== *)
theory Apply_Effects
  imports Apply_Correct
begin

text \<open>
  What the application of entries does to the visible map: keys whose time has passed are removed
  and only they, nothing that has expired is ever visible after an entry, and the published
  changes let a watcher follow the map.
\<close>

lemma visible_cong: "view (ap_sm a) = view (ap_sm b) \<Longrightarrow> visible X U a = visible X U b"
  by (simp add: visible_def fun_eq_iff)

section \<open>Expiry of visible values\<close>

definition exp_of :: "'w env \<Rightarrow> bytes seqv option \<Rightarrow> u64 option" where
  "exp_of X v =
    (case v of None \<Rightarrow> None
     | Some sv \<Rightarrow> (case sv_meta sv of None \<Rightarrow> None
        | Some km \<Rightarrow> if expire_at km = None then None else Some (x_expires_at_ms X km)))"

lemma exp_of_simps [simp]: "exp_of X None = None"
  by (simp add: exp_of_def)

lemma expires_opt_eq:
  assumes "env_ok X U N Q"
  shows "x_expires_at_ms_opt X m = exp_of X (x_into_seqv X m)"
proof -
  have "x_expires_at_ms_opt X (SeqMarked s TombStone) = None"
    "x_expires_at_ms_opt X (SeqMarked s (Normal (km, v))) =
      (case km of None \<Rightarrow> None | Some km \<Rightarrow> if expire_at km = None then None else Some (x_expires_at_ms X km))"
    for s km v
    using assms by (simp_all add: env_ok_def env_pure_ok_def)
  then show ?thesis
    by (cases rule: into_seqv_cases [OF assms, of m]) (auto simp: exp_of_def)
qed

text \<open>No visible value expires before \<open>t\<close>.\<close>

definition unexpired_at ::
  "'w env \<Rightarrow> ('w \<Rightarrow> rstring \<Rightarrow> meta_value seq_marked) \<Rightarrow> u64 \<Rightarrow> 'w applier \<Rightarrow> bool" where
  "unexpired_at X U t a \<longleftrightarrow> (\<forall>k x. exp_of X (visible X U a k) = Some x \<longrightarrow> t \<le> x)"

section \<open>Removal of expired keys\<close>

lemma set_try_filter_map:
  "Inr b \<in> set (try_filter_map f strm) \<longleftrightarrow> (\<exists>a. Inr a \<in> set strm \<and> f a = Some b)"
  by (induction f strm rule: try_filter_map.induct) (auto split: option.splits)

lemma no_error_try_filter_map [simp]: "no_error (try_filter_map f strm) = no_error strm"
  by (induction f strm rule: try_filter_map.induct) (auto simp: no_error_def split: option.splits)

lemma collect_expired_all:
  "collect_expired X t strm = Inr xs \<Longrightarrow> (\<And>ek k. Inr (ek, k) \<in> set strm \<Longrightarrow> x_is_expired X ek t) \<Longrightarrow>
   no_error strm \<and> (\<forall>p. p \<in> set xs \<longleftrightarrow> Inr p \<in> set strm)"
proof (induction strm arbitrary: xs)
  case (Cons x strm)
  obtain ek k where x: "x = Inr (ek, k)" using Cons.prems(1) by (cases x) auto
  then have "x_is_expired X ek t" by (intro Cons.prems(2) [of ek k]) simp
  with Cons.prems(1) obtain ys where "collect_expired X t strm = Inr ys" "xs = (ek, k) # ys"
    by (auto simp: x)
  with Cons.IH [of ys] Cons.prems(2) show ?case by (auto simp: x no_error_def)
qed (auto simp: no_error_def)

lemma em_range_ok:
  assumes "env_ok X U N Q" "em_range X w rng = Inr strm"
  shows "Inr (k, SeqMarked n (Normal v)) \<in> set strm \<Longrightarrow> in_range rng k \<and> N w k = Some v"
    and "no_error strm \<Longrightarrow> in_range rng k \<Longrightarrow> N w k = Some v \<Longrightarrow>
      \<exists>n. Inr (k, SeqMarked n (Normal v)) \<in> set strm"
  using assms unfolding env_ok_def view_ok_def index_range_law_def by blast+

lemma into_key:
  assumes "env_ok X U N Q"
  shows "x_into_key X m = Some k \<longleftrightarrow> (\<exists>n. m = SeqMarked n (Normal k))"
  using assms by (cases m; cases "marked m") (auto simp: env_ok_def env_pure_ok_def)

lemma is_expired: "env_ok X U N Q \<Longrightarrow> x_is_expired X ek t \<longleftrightarrow> time_ms ek < t"
  by (simp add: env_ok_def env_pure_ok_def)

lemma expire_interval:
  "in_range (Included (ExpireKey s 0), Excluded (ExpireKey t 0)) ek \<longleftrightarrow> s \<le> time_ms ek \<and> time_ms ek < t"
  by (cases ek) (auto simp: in_range_def less_eq_expire_key_def less_expire_key_def)

text \<open>The keys that are collected are the keys that have expired.\<close>

lemma collected_keys:
  assumes env: "env_ok X U N Q" and idx: "index_ok X U N Q (view s)"
    and start: "\<And>k x. x_expires_at_ms_opt X (U (view s) k) = Some x \<Longrightarrow> millis_u64 (cleanup_start s) \<le> x"
    and list: "list_expire_index X s t = Inr strm" and coll: "collect_expired X t strm = Inr xs"
  shows "k \<in> snd ` set xs \<longleftrightarrow> (\<exists>x. x_expires_at_ms_opt X (U (view s) k) = Some x \<and> x < t)"
proof (cases "ExpireKey t 0 \<le> ExpireKey (millis_u64 (cleanup_start s)) 0")
  case True
  then have "t \<le> millis_u64 (cleanup_start s)" by (auto simp: less_eq_expire_key_def)
  moreover have "strm = []" using list True by (simp add: list_expire_index_def Let_def)
  ultimately show ?thesis using coll start by fastforce
next
  case False
  let ?rng = "(Included (ExpireKey (millis_u64 (cleanup_start s)) 0), Excluded (ExpireKey t 0))"
  obtain strm0 where em: "em_range X (view s) ?rng = Inr strm0"
    and strm: "strm = try_filter_map (\<lambda>(k, m). map_option (\<lambda>v. (k, v)) (x_into_key X m)) strm0"
    using list False by (auto simp: list_expire_index_def Let_def)
  have mem: "Inr (ek, k) \<in> set strm \<longleftrightarrow> (\<exists>n. Inr (ek, SeqMarked n (Normal k)) \<in> set strm0)" for ek k
    unfolding strm set_try_filter_map using into_key [OF env] by (auto simp: image_iff)
  have exp: "Inr (ek, k) \<in> set strm \<Longrightarrow> x_is_expired X ek t" for ek k
    using em_range_ok(1) [OF env em] by (auto simp: mem expire_interval is_expired [OF env])
  have ok: "no_error strm0" and xs: "p \<in> set xs \<longleftrightarrow> Inr p \<in> set strm" for p
  proof -
    have "no_error strm \<and> (\<forall>p. p \<in> set xs \<longleftrightarrow> Inr p \<in> set strm)"
      by (rule collect_expired_all [OF coll]) (rule exp)
    then show "no_error strm0" "p \<in> set xs \<longleftrightarrow> Inr p \<in> set strm"
      by (simp_all add: strm del: split_paired_All)
  qed
  have "k \<in> snd ` set xs \<longleftrightarrow> (\<exists>ek. (ek, k) \<in> set xs)" by force
  also have "\<dots> \<longleftrightarrow> (\<exists>ek n. Inr (ek, SeqMarked n (Normal k)) \<in> set strm0)" by (simp add: xs mem)
  also have "\<dots> \<longleftrightarrow> (\<exists>ek. in_range ?rng ek \<and> N (view s) ek = Some k)"
    using em_range_ok [OF env em] ok by blast
  also have "\<dots> \<longleftrightarrow> (\<exists>x. x_expires_at_ms_opt X (U (view s) k) = Some x \<and> x < t)"
  proof
    assume "\<exists>x. x_expires_at_ms_opt X (U (view s) k) = Some x \<and> x < t"
    then obtain x where x: "x_expires_at_ms_opt X (U (view s) k) = Some x" "x < t" by blast
    then have "N (view s) (ExpireKey x (internal_seq (U (view s) k))) = Some k"
      by (simp add: index_okD(1) [OF idx])
    then show "\<exists>ek. in_range ?rng ek \<and> N (view s) ek = Some k"
      using x start by (auto simp: expire_interval intro!: exI [of _ "ExpireKey x (internal_seq (U (view s) k))"])
  qed (auto simp: expire_interval index_okD(1) [OF idx])
  finally show ?thesis .
qed

lemma visible_seq_pos:
  assumes "agrees X U N Q a" "visible X U a k = Some sv"
  shows "0 < sv_seq sv"
proof -
  have env: "env_ok X U N Q" and idx: "index_ok X U N Q (view (ap_sm a))"
    using assms(1) by (simp_all add: agrees_def)
  show ?thesis
    using assms(2) index_okD(3) [OF idx, of k]
    by (cases rule: into_seqv_cases [OF env, of "U (view (ap_sm a)) k"]) (auto simp: visible_def)
qed

lemma delete_visible:
  assumes "agrees X U N Q a" "applier_upsert_kv X a (upsert_kv_delete k) = Inr ((p, r), a')"
  shows "visible X U a' = (visible X U a)(k := None)" "r = None"
proof -
  have env: "env_ok X U N Q" using assms(1) by (simp add: agrees_def)
  obtain n where "p = visible X U a k"
    and r: "r = spec_upsert (x_expires_at_ms X) (cmd_ctx a) (upsert_kv_delete k) n p"
    and "visible X U a' = (visible X U a)(k := r)"
    by (rule upsert_refines_spec [OF env assms(2)]) (auto simp: upsert_kv_delete_def)
  moreover have "matches (MS_GE 1) (seq_of p)" if "p \<noteq> None"
    using that visible_seq_pos [OF assms(1)] \<open>p = visible X U a k\<close>
    by (auto simp: seq_of_def word_le_nat_alt word_less_nat_alt Suc_le_eq)
  then show "r = None"
    unfolding r by (cases p) (auto simp: spec_upsert_def upsert_kv_delete_def Let_def)
  ultimately show "visible X U a' = (visible X U a)(k := None)" by simp
qed

lemma delete_expired_visible:
  "agrees X U N Q a \<Longrightarrow> delete_expired X a xs = Inr a' \<Longrightarrow>
   visible X U a' = (\<lambda>k. if k \<in> snd ` set xs then None else visible X U a k)"
proof (induction xs arbitrary: a)
  case (Cons x xs)
  then obtain pr a1 where up: "applier_upsert_kv X a (upsert_kv_delete (snd x)) = Inr (pr, a1)"
    and rest: "delete_expired X a1 xs = Inr a'"
    by (cases x) auto
  have "visible X U a1 = (visible X U a)(snd x := None)"
    using delete_visible(1) [OF Cons.prems(1), of "snd x" "fst pr" "snd pr" a1] up by simp
  then show ?case
    using Cons.IH [OF idx.upsert_keeps [OF Cons.prems(1) up] rest] by (auto simp: fun_eq_iff)
qed (simp add: fun_eq_iff)

lemma millis_u64_from_millis [simp]: "millis_u64 (duration_from_millis t) = t"
  by (simp add: millis_u64_def duration_as_millis_def duration_from_millis_def)

lemma clean_expired:
  assumes "env_ok X U N Q" "index_ok X U N Q (view (ap_sm a))"
    and "unexpired_at X U (millis_u64 (cleanup_start (ap_sm a))) a"
    and "clean_expired_kvs X a t = Inr a'" "t \<noteq> 0"
  shows "visible X U a' k =
    (if \<exists>x. exp_of X (visible X U a k) = Some x \<and> x < t then None else visible X U a k)"
proof -
  let ?a1 = "a\<lparr>ap_sm := set_cleanup_start_timestamp (ap_sm a) (duration_from_millis t)\<rparr>"
  obtain strm xs where list: "list_expire_index X (ap_sm a) t = Inr strm"
    and coll: "collect_expired X t strm = Inr xs" and del: "delete_expired X ?a1 xs = Inr a'"
    using assms(4,5) by (auto simp: clean_expired_kvs_def Let_def)
  have "k \<in> snd ` set xs \<longleftrightarrow> (\<exists>x. x_expires_at_ms_opt X (U (view (ap_sm a)) k) = Some x \<and> x < t)"
    using assms(3)
    by (intro collected_keys [OF assms(1,2) _ list coll])
      (auto simp: unexpired_at_def expires_opt_eq [OF assms(1)] visible_def)
  then have keys: "k \<in> snd ` set xs \<longleftrightarrow> (\<exists>x. exp_of X (visible X U a k) = Some x \<and> x < t)"
    by (simp add: expires_opt_eq [OF assms(1)] visible_def)
  have "agrees X U N Q ?a1"
    using assms(1,2) by (simp add: agrees_def set_cleanup_start_timestamp_def)
  then have "visible X U a' k = (if k \<in> snd ` set xs then None else visible X U ?a1 k)"
    using delete_expired_visible [OF _ del] by simp
  moreover have "visible X U ?a1 = visible X U a"
    by (rule visible_cong) (simp add: set_cleanup_start_timestamp_def)
  ultimately show ?thesis by (simp only: keys)
qed

text \<open>
  C25: removal of expired keys.  Provided that no visible value expires before the time up to which
  the expiration index was already cleaned, cleaning at time \<open>t\<close> hides exactly the keys whose
  expiry time is before \<open>t\<close> and leaves every other value as it was.
\<close>

theorem clean_expired_exact:
  assumes "env_ok X U N Q" "index_ok X U N Q (view (ap_sm a))"
    and "unexpired_at X U (millis_u64 (cleanup_start (ap_sm a))) a"
    and "clean_expired_kvs X a t = Inr a'" "t \<noteq> 0"
  shows "visible X U a' k =
    (if \<exists>x. exp_of X (visible X U a k) = Some x \<and> x < t then None else visible X U a k)"
  by (rule clean_expired [OF assms])

lemma demo_mid_visible:
  "visible mem_env mem_user demo_mid k =
    (if k = ascii ''a'' then Some \<lparr>sv_seq = 1,
       sv_meta = Some \<lparr>expire_at = Some 1000000005000, proposed_at_ms = Some 1000000000000\<rparr>, sv_data = [1]\<rparr>
     else None)"
  by (simp add: visible_def demo_mid_fields mem_user_def mem_env_fields)

lemma demo_mid_expiry:
  "exp_of mem_env (visible mem_env mem_user demo_mid k) =
    (if k = ascii ''a'' then Some 1000000005000 else None)"
  by (simp add: demo_mid_visible exp_of_def mem_env_fields mem_expires_at_ms_def
      flexible_timestamp_to_duration_def duration_as_millis_def duration_from_millis_def)

lemma demo_mid_index: "index_ok mem_env mem_user mem_index mem_seq (view (ap_sm demo_mid))"
  using demo_mid_run idx.apply_keeps [of mem_env mem_user mem_index mem_seq]
  by (metis agrees_def demo_index_ok mem_env_ok)

theorem clean_expired_exact_witness:
  "visible mem_env mem_user demo_mid (ascii ''a'') \<noteq> None \<and>
   visible mem_env mem_user demo_cleaned (ascii ''a'') = None"
proof
  have "unexpired_at mem_env mem_user (millis_u64 (cleanup_start (ap_sm demo_mid))) demo_mid"
    unfolding unexpired_at_def demo_mid_expiry demo_mid_fields(2) by simp
  from clean_expired_exact [OF mem_env_ok demo_mid_index this demo_clean_run, of "ascii ''a''"]
  show "visible mem_env mem_user demo_cleaned (ascii ''a'') = None"
    unfolding demo_mid_expiry by simp
qed (simp add: demo_mid_visible)

text \<open>Upserts never make a value visible that expires before the time of the command.\<close>

definition fresh ::
  "'w env \<Rightarrow> ('w \<Rightarrow> rstring \<Rightarrow> meta_value seq_marked) \<Rightarrow> ('w \<Rightarrow> expire_key \<Rightarrow> rstring option) \<Rightarrow>
   ('w \<Rightarrow> u64) \<Rightarrow> 'w applier \<Rightarrow> bool" where
  "fresh X U N Q a \<longleftrightarrow>
    env_ok X U N Q \<and> unexpired_at X U (time_millis (ctx_time (cmd_ctx a))) a"

interpretation fresh: state_invariant X "fresh X U N Q" for X U N Q
proof
  fix a u p r a'
  assume "fresh X U N Q a" and up: "applier_upsert_kv X a u = Inr ((p, r), a')"
  then have env: "env_ok X U N Q" and old: "unexpired_at X U (time_millis (ctx_time (cmd_ctx a))) a"
    by (simp_all add: fresh_def)
  have ctx: "cmd_ctx a' = cmd_ctx a" by (rule upsert_kv_step [OF env up])
  obtain n where p: "p = visible X U a (ukv_key u)"
    and r: "r = spec_upsert (x_expires_at_ms X) (cmd_ctx a) u n p"
    and vis: "visible X U a' = (visible X U a)(ukv_key u := r)"
    by (rule upsert_refines_spec [OF env up])
  have "time_millis (ctx_time (cmd_ctx a)) \<le> x" if "exp_of X r = Some x" for x
    using that old unfolding r
    by (auto simp: spec_upsert_def Let_def unexpired_at_def p exp_of_def
        split: if_splits operation.splits option.splits)
  with old vis have "unexpired_at X U (time_millis (ctx_time (cmd_ctx a))) a'"
    by (simp add: unexpired_at_def)
  moreover have "visible X U (push_change a' (ukv_key u) p r) = visible X U a'"
    by (rule visible_cong) simp
  ultimately show "fresh X U N Q a' \<and> fresh X U N Q (push_change a' (ukv_key u) p r)"
    using env ctx by (simp add: fresh_def unexpired_at_def)
qed (simp_all add: fresh_def unexpired_at_def visible_def)

section \<open>Entries\<close>

text \<open>What upserts and payloads do not touch.\<close>

definition framed :: "duration \<Rightarrow> bool \<Rightarrow> kv_change list \<Rightarrow> cmd_context \<Rightarrow> 'w applier \<Rightarrow> bool" where
  "framed d b es c a \<longleftrightarrow>
    cleanup_start (ap_sm a) = d \<and> subscribed (ap_sm a) = b \<and> sent (ap_sm a) = es \<and> cmd_ctx a = c"

lemma upsert_frame:
  assumes "applier_upsert_kv X a u = Inr (pr, a')"
  shows "cleanup_start (ap_sm a') = cleanup_start (ap_sm a) \<and> subscribed (ap_sm a') = subscribed (ap_sm a) \<and>
    sent (ap_sm a') = sent (ap_sm a) \<and> cmd_ctx a' = cmd_ctx a"
proof -
  have "s' = s\<lparr>view := view s'\<rparr>" if "upsert_kv_primary_index X s u c = Inr (x, s')" for s s' u c x
    using that by (auto simp: upsert_kv_primary_index_def Let_def split: if_splits)
  then show ?thesis
    using assms by (fastforce simp: applier_upsert_kv_def Let_def dest: arg_cong [where f = cleanup_start]
        arg_cong [where f = subscribed] arg_cong [where f = sent])
qed

interpretation frame: payload_invariant X "framed d b es c" for X d b es c
  by unfold_locales (auto simp: framed_def dest: upsert_frame)

lemma clean_frame:
  assumes "clean_expired_kvs X a t = Inr a'" "t \<noteq> 0"
  shows "framed (duration_from_millis t) (subscribed (ap_sm a)) (sent (ap_sm a)) (cmd_ctx a) a'"
proof -
  let ?a1 = "a\<lparr>ap_sm := set_cleanup_start_timestamp (ap_sm a) (duration_from_millis t)\<rparr>"
  obtain xs where del: "delete_expired X ?a1 xs = Inr a'"
    using assms by (auto simp: clean_expired_kvs_def Let_def)
  show ?thesis
    by (rule frame.delete_expired_keeps [OF _ del]) (simp add: framed_def set_cleanup_start_timestamp_def)
qed

lemma send_changes_view [simp]:
  "view (ap_sm (send_changes a)) = view (ap_sm a)"
  "cleanup_start (ap_sm (send_changes a)) = cleanup_start (ap_sm a)"
  "subscribed (ap_sm (send_changes a)) = subscribed (ap_sm a)"
proof -
  have "view (fold (\<lambda>c s. on_change_applied s c) cs s) = view s \<and>
    cleanup_start (fold (\<lambda>c s. on_change_applied s c) cs s) = cleanup_start s \<and>
    subscribed (fold (\<lambda>c s. on_change_applied s c) cs s) = subscribed s" for cs and s :: "'a sm"
    by (induction cs arbitrary: s) (auto simp: on_change_applied_def)
  then show "view (ap_sm (send_changes a)) = view (ap_sm a)"
    "cleanup_start (ap_sm (send_changes a)) = cleanup_start (ap_sm a)"
    "subscribed (ap_sm (send_changes a)) = subscribed (ap_sm a)"
    by (simp_all add: send_changes_def)
qed

lemma time_of_entry_ctx [simp]:
  "time_millis (ctx_time (cmd_ctx (with_entry_ctx a e))) = get_log_time e"
  by (simp add: with_entry_ctx_def from_millis_and_log_id_def time_from_millis_def time_millis_def
      interval_from_millis_def interval_from_duration_def duration_as_millis_def duration_from_millis_def)

lemma with_steps_view [simp]:
  "view (ap_sm (with_entry_ctx a e)) = view (ap_sm a)"
  "cleanup_start (ap_sm (with_entry_ctx a e)) = cleanup_start (ap_sm a)"
  "subscribed (ap_sm (with_entry_ctx a e)) = subscribed (ap_sm a)"
  "sent (ap_sm (with_entry_ctx a e)) = sent (ap_sm a)" "changes (with_entry_ctx a e) = changes a"
  "view (ap_sm (with_last_applied a e)) = view (ap_sm a)" "cmd_ctx (with_last_applied a e) = cmd_ctx a"
  "cleanup_start (ap_sm (with_last_applied a e)) = cleanup_start (ap_sm a)"
  "subscribed (ap_sm (with_last_applied a e)) = subscribed (ap_sm a)"
  "sent (ap_sm (with_last_applied a e)) = sent (ap_sm a)" "changes (with_last_applied a e) = changes a"
  by (simp_all add: with_entry_ctx_def with_last_applied_def with_sys_data_def)

text \<open>The state between entries: the indexes agree, and nothing that is left expired too early.\<close>

definition clean_state ::
  "'w env \<Rightarrow> ('w \<Rightarrow> rstring \<Rightarrow> meta_value seq_marked) \<Rightarrow> ('w \<Rightarrow> expire_key \<Rightarrow> rstring option) \<Rightarrow>
   ('w \<Rightarrow> u64) \<Rightarrow> 'w applier \<Rightarrow> bool" where
  "clean_state X U N Q a \<longleftrightarrow>
    agrees X U N Q a \<and> unexpired_at X U (millis_u64 (cleanup_start (ap_sm a))) a"

lemma apply_entry_clean:
  assumes "clean_state X U N Q a" "apply_entry E X a e = Inr (st, a')" "get_log_time e \<noteq> 0"
  shows "clean_state X U N Q a' \<and> cleanup_start (ap_sm a') = duration_from_millis (get_log_time e)"
proof -
  let ?t = "get_log_time e"
  have agr: "agrees X U N Q a" and env: "env_ok X U N Q" and idx: "index_ok X U N Q (view (ap_sm a))"
    and un: "unexpired_at X U (millis_u64 (cleanup_start (ap_sm a))) a"
    using assms(1) by (simp_all add: clean_state_def agrees_def)
  obtain a2 a4 where a2: "clean_expired_kvs X (with_entry_ctx a e) ?t = Inr a2"
    and a4: "apply_payload E X (with_last_applied a2 e) e = Inr (st, a4)" and a': "a' = send_changes a4"
    by (rule apply_entry_steps [OF assms(2)])
  have vis: "visible X U (with_entry_ctx a e) = visible X U a"
    "visible X U (with_last_applied a2 e) = visible X U a2" "visible X U a' = visible X U a4"
    by (rule visible_cong, simp add: a')+
  have "unexpired_at X U (millis_u64 (cleanup_start (ap_sm (with_entry_ctx a e)))) (with_entry_ctx a e)"
    using un vis(1) by (simp add: unexpired_at_def)
  then have "visible X U a2 k = (if \<exists>x. exp_of X (visible X U a k) = Some x \<and> x < ?t then None
      else visible X U a k)" for k
    using clean_expired [OF env _ _ a2 assms(3), of k] idx by (simp only: vis(1) with_steps_view)
  then have "unexpired_at X U ?t a2" by (auto simp: unexpired_at_def not_less)
  moreover have frame: "framed (duration_from_millis ?t) (subscribed (ap_sm a)) (sent (ap_sm a))
      (cmd_ctx (with_entry_ctx a e)) a2"
    using clean_frame [OF a2 assms(3)] by simp
  ultimately have "fresh X U N Q (with_last_applied a2 e)"
    using env vis(2) by (simp add: fresh_def framed_def unexpired_at_def)
  then have "fresh X U N Q a4" by (rule fresh.payload_keeps [OF _ a4])
  moreover have "framed (duration_from_millis ?t) (subscribed (ap_sm a)) (sent (ap_sm a))
      (cmd_ctx (with_entry_ctx a e)) a4"
    using frame by (intro frame.payload_keeps [OF _ a4]) (simp add: framed_def)
  ultimately show ?thesis
    using idx.apply_keeps [OF agr assms(2)] vis(3)
    by (simp add: clean_state_def fresh_def framed_def unexpired_at_def a')
qed

lemma apply_entries_clean:
  "clean_state X U N Q a \<Longrightarrow> apply_entries_loop E X a (map Inr es) = Inr (sts, a') \<Longrightarrow>
   list_all (\<lambda>e. get_log_time e \<noteq> 0) es \<Longrightarrow>
   clean_state X U N Q a' \<and>
   (es \<noteq> [] \<longrightarrow> cleanup_start (ap_sm a') = duration_from_millis (get_log_time (last es)))"
proof (induction es arbitrary: a sts)
  case (Cons e es)
  then obtain st a1 sts' where a1: "apply_entry E X a e = Inr (st, a1)"
    and rest: "apply_entries_loop E X a1 (map Inr es) = Inr (sts', a')"
    by auto
  have "clean_state X U N Q a1" and "cleanup_start (ap_sm a1) = duration_from_millis (get_log_time e)"
    using apply_entry_clean [OF Cons.prems(1) a1] Cons.prems(3) by simp_all
  then show ?case using Cons.IH [OF _ rest] Cons.prems(3) rest by auto
qed simp

text \<open>
  C26: nothing that has expired is visible.  Applying log entries that carry a time, in whatever
  order these times come, leaves only values whose expiry time is not before the time of the last
  entry, provided that at the start no value expires before the time up to which the index was
  cleaned.
\<close>

theorem apply_entries_unexpired:
  assumes "env_ok X U N Q" "index_ok X U N Q (view (ap_sm a))"
    and "unexpired_at X U (millis_u64 (cleanup_start (ap_sm a))) a"
    and "apply_entries_loop E X a (map Inr (es @ [e])) = Inr (sts, a')"
    and "list_all (\<lambda>e. get_log_time e \<noteq> 0) (es @ [e])"
  shows "unexpired_at X U (get_log_time e) a'"
  using apply_entries_clean [of X U N Q a E "es @ [e]" sts a'] assms
  by (auto simp: clean_state_def agrees_def)

theorem apply_entries_unexpired_witness:
  "unexpired_at mem_env mem_user 1000000006000 demo_end"
proof -
  have "unexpired_at mem_env mem_user (get_log_time demo_second) demo_end"
    by (rule apply_entries_unexpired [OF mem_env_ok demo_index_ok _ demo_run [unfolded demo_entries_def]])
      (simp_all add: unexpired_at_def applier_new_def demo_sm_def millis_u64_def duration_as_millis_def
        demo_first_def demo_second_def demo_entry_def get_log_time_def log_entry_new_with_time_def)
  then show ?thesis
    by (simp add: demo_second_def demo_entry_def get_log_time_def log_entry_new_with_time_def)
qed

section \<open>Published changes\<close>

text \<open>A watcher that keeps a map and applies the changes it receives.\<close>

fun replay :: "kv_change list \<Rightarrow> (rstring \<Rightarrow> bytes seqv option) \<Rightarrow> rstring \<Rightarrow> bytes seqv option" where
  "replay [] m = m"
| "replay ((k, p, r) # cs) m = replay cs (m(k := r))"

lemma replay_append [simp]: "replay (cs @ ds) m = replay ds (replay cs m)"
  by (induction cs arbitrary: m) auto

definition tracked ::
  "'w env \<Rightarrow> ('w \<Rightarrow> rstring \<Rightarrow> meta_value seq_marked) \<Rightarrow> ('w \<Rightarrow> expire_key \<Rightarrow> rstring option) \<Rightarrow>
   ('w \<Rightarrow> u64) \<Rightarrow> (rstring \<Rightarrow> bytes seqv option) \<Rightarrow> 'w applier \<Rightarrow> bool" where
  "tracked X U N Q m a \<longleftrightarrow>
    env_ok X U N Q \<and> replay (changes a) m = visible X U a \<and> (\<forall>(k, p, r) \<in> set (changes a). p \<noteq> r)"

interpretation track: state_invariant X "tracked X U N Q m" for X U N Q m
proof
  fix a u p r a'
  assume "tracked X U N Q m a" and up: "applier_upsert_kv X a u = Inr ((p, r), a')"
  then have env: "env_ok X U N Q" and rep: "replay (changes a) m = visible X U a"
    and neq: "\<forall>(k, p, r) \<in> set (changes a). p \<noteq> r"
    by (simp_all add: tracked_def)
  have "p = visible X U a (ukv_key u)" and vis: "visible X U a' = (visible X U a)(ukv_key u := r)"
    and ch: "changes a' = changes a @ (if p = r then [] else [(ukv_key u, p, r)])"
    by (rule upsert_refines_spec [OF env up]; blast)+
  then have a': "tracked X U N Q m a'"
    using rep neq env by (auto simp: tracked_def)
  moreover have "visible X U (push_change a' (ukv_key u) p r) = visible X U a'"
    by (rule visible_cong) simp
  ultimately show "tracked X U N Q m a' \<and> tracked X U N Q m (push_change a' (ukv_key u) p r)"
    using vis by (auto simp: tracked_def push_change_def)
qed (auto simp: tracked_def visible_def fun_eq_iff)

lemma send_changes_sent:
  assumes "subscribed (ap_sm a)"
  shows "sent (ap_sm (send_changes a)) = sent (ap_sm a) @ changes a" "changes (send_changes a) = []"
proof -
  have "sent (fold (\<lambda>c s. on_change_applied s c) cs s) = sent s @ cs" if "subscribed s" for cs and s :: "'a sm"
    using that by (induction cs arbitrary: s) (auto simp: on_change_applied_def)
  with assms show "sent (ap_sm (send_changes a)) = sent (ap_sm a) @ changes a" "changes (send_changes a) = []"
    by (simp_all add: send_changes_def)
qed

lemma clean_sent:
  "clean_expired_kvs X a t = Inr a' \<Longrightarrow> sent (ap_sm a') = sent (ap_sm a) \<and> subscribed (ap_sm a') = subscribed (ap_sm a)"
  using clean_frame [of X a t a'] by (cases "t = 0") (auto simp: clean_expired_kvs_def [of X a 0] framed_def)

lemma apply_entry_published:
  assumes env: "env_ok X U N Q" and sub: "subscribed (ap_sm a)" and ch: "changes a = []"
    and run: "apply_entry E X a e = Inr (st, a')"
  shows "\<exists>cs. sent (ap_sm a') = sent (ap_sm a) @ cs \<and> replay cs (visible X U a) = visible X U a' \<and>
    (\<forall>(k, p, r) \<in> set cs. p \<noteq> r) \<and> changes a' = [] \<and> subscribed (ap_sm a')"
proof -
  obtain a2 a4 where a2: "clean_expired_kvs X (with_entry_ctx a e) (get_log_time e) = Inr a2"
    and a4: "apply_payload E X (with_last_applied a2 e) e = Inr (st, a4)" and a': "a' = send_changes a4"
    by (rule apply_entry_steps [OF run])
  have vis: "visible X U (with_entry_ctx a e) = visible X U a"
    "visible X U (with_last_applied a2 e) = visible X U a2" "visible X U a' = visible X U a4"
    by (rule visible_cong, simp add: a')+
  have "tracked X U N Q (visible X U a) (with_entry_ctx a e)"
    using env ch vis(1) by (simp add: tracked_def)
  then have "tracked X U N Q (visible X U a) a2" by (rule track.clean_keeps [OF _ a2])
  then have "tracked X U N Q (visible X U a) (with_last_applied a2 e)"
    using vis(2) by (simp add: tracked_def)
  then have "tracked X U N Q (visible X U a) a4" by (rule track.payload_keeps [OF _ a4])
  moreover have "framed (cleanup_start (ap_sm a2)) True (sent (ap_sm a)) (cmd_ctx a2) a4"
    using clean_sent [OF a2] sub by (intro frame.payload_keeps [OF _ a4]) (simp add: framed_def)
  ultimately show ?thesis
    using vis(3) send_changes_sent [of a4] by (auto simp: tracked_def framed_def a')
qed

text \<open>
  C4: watchers can follow the state.  With a subscriber, applying log entries publishes a sequence
  of changes; replaying them on the map that was visible before gives the map that is visible
  after, whether a key was changed by a command, by an operation of a transaction or because it
  expired, and every published change names a new value.
\<close>

theorem apply_entries_published:
  assumes "env_ok X U N Q" "subscribed (ap_sm a)" "changes a = []"
    and "apply_entries_loop E X a es = Inr (sts, a')"
  shows "\<exists>cs. sent (ap_sm a') = sent (ap_sm a) @ cs \<and> replay cs (visible X U a) = visible X U a' \<and>
    (\<forall>(k, p, r) \<in> set cs. p \<noteq> r)"
  using assms(2-4)
proof (induction es arbitrary: a sts)
  case (Cons x es)
  then obtain e st a1 sts' where a1: "apply_entry E X a e = Inr (st, a1)"
    and rest: "apply_entries_loop E X a1 es = Inr (sts', a')"
    by (cases x) auto
  obtain cs where cs: "sent (ap_sm a1) = sent (ap_sm a) @ cs" "replay cs (visible X U a) = visible X U a1"
    "\<forall>(k, p, r) \<in> set cs. p \<noteq> r" "changes a1 = []" "subscribed (ap_sm a1)"
    using apply_entry_published [OF assms(1) Cons.prems(1,2) a1] by blast
  obtain ds where ds: "sent (ap_sm a') = sent (ap_sm a1) @ ds" "replay ds (visible X U a1) = visible X U a'"
    "\<forall>(k, p, r) \<in> set ds. p \<noteq> r"
    using Cons.IH [OF cs(5,4) rest] by blast
  show ?case using cs ds by (intro exI [of _ "cs @ ds"]) auto
qed simp

theorem apply_entries_published_witness:
  "\<exists>cs. sent (ap_sm demo_end) = cs \<and>
     replay cs (visible mem_env mem_user (applier_new demo_sm)) = visible mem_env mem_user demo_end"
  using apply_entries_published [OF mem_env_ok _ _ demo_run]
  by (auto simp: applier_new_def demo_sm_def)

end
