(* ===== verification/Txn_Correct.thy ===== *)
theory Txn_Correct
  imports Apply_Effects
begin

text \<open>
  Transactions.  The evaluation of predicates agrees with their meaning on the visible map, the
  first branch whose predicate holds is executed and no other, and the operations on counters,
  sequential keys and prefixes do what they promise.
\<close>

section \<open>Listing by prefix\<close>

lemma unat_plus_one_u64:
  assumes "n \<noteq> u64_max"
  shows "unat (n + 1) = unat n + 1"
proof -
  have "1 + n \<noteq> 0" using u64_less_inc [OF assms] by (auto simp: add.commute)
  then show ?thesis using unatSuc [of n] by (simp add: add.commute)
qed

text \<open>Keys are Rust strings, and there are fewer of them than a \<open>u64\<close> can count.\<close>

definition keys_ok :: "(rstring \<Rightarrow> 'v option) \<Rightarrow> bool" where
  "keys_ok V \<longleftrightarrow> finite {k. V k \<noteq> None} \<and> card {k. V k \<noteq> None} < 2 ^ 64 - 1 \<and>
    (\<forall>k. V k \<noteq> None \<longrightarrow> valid_str k)"

text \<open>The visible keys that a listing by a prefix takes.\<close>

definition listed_keys :: "(rstring \<Rightarrow> 'v option) \<Rightarrow> rstring \<Rightarrow> rstring set" where
  "listed_keys V p = {k. V k \<noteq> None \<and> listed_by p k}"

lemma listed_keys_finite:
  assumes "keys_ok V"
  shows "finite (listed_keys V p)" "card (listed_keys V p) < 2 ^ 64 - 1"
proof -
  have sub: "listed_keys V p \<subseteq> {k. V k \<noteq> None}" by (auto simp: listed_keys_def)
  show "finite (listed_keys V p)" using sub assms by (auto simp: keys_ok_def intro: finite_subset)
  show "card (listed_keys V p) < 2 ^ 64 - 1"
    using card_mono [OF _ sub] assms by (auto simp: keys_ok_def)
qed

lemma um_range_ok:
  assumes "env_ok X U N Q" "um_range X w rng = Inr strm"
  shows "ascending strm"
    and "Inr (k, m) \<in> set strm \<Longrightarrow> in_range rng k \<and> m = U w k"
    and "no_error strm \<Longrightarrow> in_range rng k \<Longrightarrow> marked (U w k) \<noteq> TombStone \<Longrightarrow> Inr (k, U w k) \<in> set strm"
  using assms unfolding env_ok_def view_ok_def range_law_def by blast+

lemma ok_items_filter: "ok_items (try_filter_map f strm) = List.map_filter f (ok_items strm)"
  by (induction f strm rule: try_filter_map.induct) (auto simp: List.map_filter_simps split: option.splits)

lemma ok_items_set: "x \<in> set (ok_items strm) \<longleftrightarrow> Inr x \<in> set strm"
  by (induction strm rule: ok_items.induct) auto

lemma ok_items_length: "no_error strm \<Longrightarrow> length (ok_items strm) = length strm"
  by (induction strm rule: ok_items.induct) (auto simp: no_error_def)

lemma map_filter_fst_distinct:
  assumes "distinct (map fst xs)" "\<And>x y. f x = Some y \<Longrightarrow> fst y = fst x"
  shows "distinct (map fst (List.map_filter f xs))"
proof -
  have sub: "fst ` set (List.map_filter f xs) \<subseteq> fst ` set xs" for xs
    using assms(2) by (induction xs) (auto simp: List.map_filter_simps split: option.splits)
  show ?thesis
    using assms(1)
  proof (induction xs)
    case (Cons x xs)
    then show ?case
      using sub [of xs] assms(2) [of x] by (auto simp: List.map_filter_simps split: option.splits)
  qed (simp add: List.map_filter_simps)
qed

lemma list_kv_items:
  assumes env: "env_ok X U N Q" and list: "list_kv X (ap_sm a) p = Inr strm"
    and keys: "keys_ok (visible X U a)"
  shows "distinct (map fst (ok_items strm))"
    and "Inr (k, sv) \<in> set strm \<Longrightarrow> listed_by p k \<and> visible X U a k = Some sv"
    and "no_error strm \<Longrightarrow> listed_by p k \<Longrightarrow> visible X U a k = Some sv \<Longrightarrow> Inr (k, sv) \<in> set strm"
proof -
  obtain strm0 where um: "um_range X (view (ap_sm a)) (prefix_bounds p) = Inr strm0"
    and strm: "strm = try_filter_map (seq_marked_to_seqv X) strm0"
    using list by (cases "prefix_right_bound p") (auto simp: list_kv_def prefix_bounds_def)
  have rng: "in_range (prefix_bounds p) k \<longleftrightarrow> listed_by p k" if "visible X U a k \<noteq> None" for k
    using that keys by (intro prefix_bounds_listed) (simp add: keys_ok_def)
  have "distinct (map fst (ok_items strm0))"
    using um_range_ok(1) [OF env um] by (simp add: ascending_def strict_sorted_iff)
  then show "distinct (map fst (ok_items strm))"
    unfolding strm ok_items_filter
    by (rule map_filter_fst_distinct) (auto simp: seq_marked_to_seqv_def)
  have mem: "Inr (k, sv) \<in> set strm \<longleftrightarrow> (\<exists>m. Inr (k, m) \<in> set strm0 \<and> x_into_seqv X m = Some sv)" for k sv
    unfolding strm set_try_filter_map by (auto simp: seq_marked_to_seqv_def)
  show "listed_by p k \<and> visible X U a k = Some sv" if "Inr (k, sv) \<in> set strm"
    using that um_range_ok(2) [OF env um] rng [of k] by (auto simp: mem visible_def)
  show "Inr (k, sv) \<in> set strm" if "no_error strm" "listed_by p k" "visible X U a k = Some sv"
  proof -
    have "marked (U (view (ap_sm a)) k) \<noteq> TombStone"
      using that(3) into_seqv_None_iff [OF env, of "U (view (ap_sm a)) k"] by (simp add: visible_def)
    then have "Inr (k, U (view (ap_sm a)) k) \<in> set strm0"
      using that rng [of k] by (intro um_range_ok(3) [OF env um]) (auto simp: strm)
    with that(3) show ?thesis by (auto simp: mem visible_def)
  qed
qed

section \<open>Conditions\<close>

text \<open>The meaning of a condition on the visible map.\<close>

definition cond_true :: "(rstring \<Rightarrow> bytes seqv option) \<Rightarrow> condition \<Rightarrow> bool" where
  "cond_true V c =
    (case cond_target c of
       Op_Seq s \<Rightarrow> eval_compare (seq_of (V (cond_key c))) (cond_op c) s
     | Op_Value v \<Rightarrow> (case V (cond_key c) of
           None \<Rightarrow> False | Some sv \<Rightarrow> eval_compare (sv_data sv) (cond_op c) v)
     | Op_KeysWithPrefix n \<Rightarrow> eval_compare (card (listed_keys V (cond_key c))) (cond_op c) (unat n))"

lemma count_items_eq:
  "count_items acc strm = Inr n \<Longrightarrow> no_error strm \<and> n = acc + word_of_nat (length strm)"
  by (induction acc strm rule: count_items.induct) (auto simp: no_error_def)

lemma eval_compare_cong:
  fixes a b :: "'a :: linorder" and c d :: "'b :: linorder"
  assumes "a < b \<longleftrightarrow> c < d" "a = b \<longleftrightarrow> c = d"
  shows "eval_compare a opr b = eval_compare c opr d"
  using assms by (cases opr) (auto simp: le_less not_less [symmetric])

text \<open>
  Counting stops after one item more than the number compared with; the comparison is the same
  as with the number of all keys.
\<close>

lemma count_compare:
  assumes env: "env_ok X U N Q" and list: "list_kv X (ap_sm a) p = Inr strm"
    and keys: "keys_ok (visible X U a)"
    and cnt: "count_items 0 (take (unat (n + 1)) strm) = Inr c"
  shows "eval_compare c opr n = eval_compare (card (listed_keys (visible X U a) p)) opr (unat n)"
proof -
  note items = list_kv_items [OF env list keys]
  let ?V = "visible X U a" and ?S = "listed_keys (visible X U a) p"
  have fin: "finite ?S" and small: "card ?S < 2 ^ 64 - 1" using listed_keys_finite [OF keys] by auto
  have ne: "no_error (take (unat (n + 1)) strm)" and c: "c = word_of_nat (length (take (unat (n + 1)) strm))"
    using count_items_eq [OF cnt] by simp_all
  have sub: "fst ` set (ok_items strm) \<subseteq> ?S"
    using items(2) by (auto simp: ok_items_set listed_keys_def)
  show ?thesis
  proof (cases "n = u64_max")
    case True
    then have "c = 0" using c by (simp add: u64_max_def)
    moreover have "u64_max \<noteq> 0" by (simp add: u64_max_def)
    ultimately show ?thesis using True small by (intro eval_compare_cong) (auto simp: word_less_nat_alt)
  next
    case False
    then have n1: "unat (n + 1) = unat n + 1" using unat_plus_one_u64 by blast
    show ?thesis
    proof (cases "unat n < length strm")
      case True
      have "length (ok_items (take (unat n + 1) strm)) = unat n + 1"
        using True ok_items_length [OF ne] by (simp add: n1)
      moreover have "ok_items strm = ok_items (take (unat n + 1) strm) @ ok_items (drop (unat n + 1) strm)"
        using ok_items_append [of "take (unat n + 1) strm" "drop (unat n + 1) strm"] by simp
      ultimately have "unat n + 1 \<le> length (ok_items strm)" by simp
      also have "\<dots> = card (fst ` set (ok_items strm))"
        using distinct_card [OF items(1)] by simp
      also have "\<dots> \<le> card ?S" by (rule card_mono [OF fin sub])
      finally have "unat n < card ?S" by simp
      moreover have "unat c = unat n + 1"
        using c True False n1 unat_lt_u64 [of "n + 1"] by (simp add: unat_of_nat min_def)
      ultimately show ?thesis by (intro eval_compare_cong) (auto simp: word_less_nat_alt word_unat_eq_iff)
    next
      case le: False
      then have tk: "take (unat (n + 1)) strm = strm" by (simp add: n1)
      have "?S \<subseteq> fst ` set (ok_items strm)"
        using items(3) ne by (force simp: tk ok_items_set listed_keys_def image_iff)
      then have "card ?S = length strm"
        using sub distinct_card [OF items(1)] ok_items_length [of strm] ne by (simp add: tk subset_antisym)
      moreover have "unat c = length strm"
        using c le unat_lt_u64 [of n] by (simp add: tk unat_of_nat)
      ultimately show ?thesis by (intro eval_compare_cong) (auto simp: word_less_nat_alt word_unat_eq_iff)
    qed
  qed
qed

lemma eval_condition_true:
  assumes env: "env_ok X U N Q" and keys: "keys_ok (visible X U a)"
    and run: "eval_condition X a c = Inr b"
  shows "b = cond_true (visible X U a) c"
proof -
  obtain got where got: "um_get X (view (ap_sm a)) (cond_key c) = Inr got"
    using run by (auto simp: eval_condition_def get_maybe_expired_kv_def)
  then have V: "x_into_seqv X got = visible X U a (cond_key c)"
    using um_get_ok [OF env got] by (simp add: visible_def)
  show ?thesis
  proof (cases "cond_target c")
    case (Op_Seq s)
    then show ?thesis
      using run got V
      by (simp add: eval_condition_def get_maybe_expired_kv_def cond_true_def opt_seq [OF env])
  next
    case (Op_Value v)
    then show ?thesis
      using run got V
      by (auto simp: eval_condition_def get_maybe_expired_kv_def cond_true_def split: option.splits)
  next
    case (Op_KeysWithPrefix n)
    then obtain strm cnt where list: "list_kv X (ap_sm a) (cond_key c) = Inr strm"
      and cnt: "count_items 0 (take (unat (n + 1)) strm) = Inr cnt"
      and b: "b = eval_compare cnt (cond_op c) n"
      using run got by (auto simp: eval_condition_def get_maybe_expired_kv_def)
    from count_compare [OF env list keys cnt] show ?thesis
      by (simp add: b cond_true_def Op_KeysWithPrefix)
  qed
qed

section \<open>Predicates and branches\<close>

lemma eval_predicate_true:
  assumes env: "env_ok X U N Q" and keys: "keys_ok (visible X U a)"
  shows "eval_predicate X a p = Inr b \<Longrightarrow>
      b = holds (cond_true (visible X U a)) p"
    and "eval_all X a ps = Inr b \<Longrightarrow>
      b = list_all (holds (cond_true (visible X U a))) ps"
    and "eval_any X a ps = Inr b \<Longrightarrow>
      b = list_ex (holds (cond_true (visible X U a))) ps"
  using assms
proof (induction X a p and X a ps and X a ps arbitrary: b and b and b
    rule: eval_predicate_eval_all_eval_any.induct)
  case (3 X a c)
  then show ?case using eval_condition_true [of X U N Q a c b] by simp
next
  case (7 X a c cs)
  from 7(3) obtain m where m: "eval_predicate X a c = Inr m"
    and rest: "(if m then Inr True else eval_any X a cs) = Inr b" by auto
  have "m = holds (cond_true (visible X U a)) c" using 7(1) [OF m] 7(4,5) by simp
  then show ?case using 7(2) [of m b] 7(4,5) rest m by (cases m) auto
qed (auto split: if_splits)

lemma execute_ops_length: "execute_ops X a xs = Inr (rs, a') \<Longrightarrow> length rs = length xs"
  by (induction xs arbitrary: a rs) auto

lemma run_branches_first:
  assumes env: "env_ok X U N Q" and keys: "keys_ok (visible X U a)"
  shows "run_branches X a i bs = Inr (r, a') \<Longrightarrow>
    (case first_match (cond_true (visible X U a)) i bs of
       None \<Rightarrow> r = \<lparr>executed_branch = None, ktr_responses = []\<rparr> \<and> a' = a
     | Some j \<Rightarrow> i \<le> j \<and> j < i + length bs \<and> executed_branch r = Some (word_of_nat j) \<and>
         execute_ops X a (br_operations (bs ! (j - i))) = Inr (ktr_responses r, a'))"
proof (induction bs arbitrary: i)
  case (Cons b bs)
  then obtain m where m: "eval_predicate X a (br_predicate b) = Inr m" by auto
  have "m = holds (cond_true (visible X U a)) (br_predicate b)"
    by (rule eval_predicate_true(1) [OF env keys m])
  then show ?case
    using Cons.prems Cons.IH [of "i + 1"] m
    by (cases m) (auto simp: Suc_diff_le split: option.splits)
qed simp

text \<open>
  C3: a transaction executes the operations of the first branch whose predicate is true of the
  visible map, and answers each of them; when no predicate is true nothing changes.  A counting
  condition compares with the number of visible keys that start with its prefix; for a prefix whose
  last character below the maximum is U+D7FF it compares with the number of all visible keys from
  the prefix on.
\<close>

theorem transaction_first_match:
  assumes "env_ok X U N Q" "keys_ok (visible X U a)"
    and "apply_kv_transaction X a t = Inr (AppliedKvTransactionReply r, a')"
  shows "case first_match (cond_true (visible X U a)) 0 (branches t) of
      None \<Rightarrow> r = \<lparr>executed_branch = None, ktr_responses = []\<rparr> \<and> a' = a
    | Some j \<Rightarrow> j < length (branches t) \<and> executed_branch r = Some (word_of_nat j) \<and>
        execute_ops X a (br_operations (branches t ! j)) = Inr (ktr_responses r, a') \<and>
        length (ktr_responses r) = length (br_operations (branches t ! j))"
proof -
  have "run_branches X a 0 (branches t) = Inr (r, a')"
    using assms(3) by (auto simp: apply_kv_transaction_def)
  from run_branches_first [OF assms(1,2) this] show ?thesis
    by (auto dest: execute_ops_length split: option.splits)
qed

section \<open>Deletion by prefix\<close>

lemma delete_listed_visible:
  "agrees X U N Q a \<Longrightarrow> delete_listed X a strm n = Inr (m, a') \<Longrightarrow>
   no_error strm \<and> m = n + word_of_nat (length strm) \<and>
   visible X U a' = (\<lambda>k. if k \<in> fst ` set (ok_items strm) then None else visible X U a k)"
proof (induction strm arbitrary: a n)
  case (Cons x strm)
  then obtain k sv p r a1 where x: "x = Inr (k, sv)"
    and up: "applier_upsert_kv X a (upsert_kv_delete k) = Inr ((p, r), a1)"
    and rest: "delete_listed X (push_change a1 k p r) strm (n + 1) = Inr (m, a')"
    by (cases x) auto
  have "visible X U (push_change a1 k p r) = visible X U a1" by (rule visible_cong) simp
  also have "\<dots> = (visible X U a)(k := None)" by (rule delete_visible [OF Cons.prems(1) up])
  finally have vis: "visible X U (push_change a1 k p r) = (visible X U a)(k := None)" .
  have "agrees X U N Q (push_change a1 k p r)"
    using idx.upsert_push_keeps [OF Cons.prems(1) up] by (simp add: upsert_kv_delete_def)
  from Cons.IH [OF this rest] show ?case
    by (auto simp: x vis no_error_def fun_eq_iff)
qed (auto simp: no_error_def fun_eq_iff)

text \<open>
  C27: \<open>delete_by_prefix\<close> hides exactly the keys that start with the prefix, leaves the other keys
  as they were, and reports how many there were, as far as 32 bits can hold it.  The empty prefix
  hides every key.  With a prefix whose last character below the maximum is U+D7FF it hides every
  key from the prefix on, also keys that do not start with it.
\<close>

theorem delete_by_prefix_exact:
  assumes "env_ok X U N Q" "index_ok X U N Q (view (ap_sm a))" "keys_ok (visible X U a)"
    and "execute_delete_by_prefix X a p = Inr (resp, a')"
  shows "visible X U a' = (\<lambda>k. if listed_by p k then None else visible X U a k) \<and>
    tdp_count resp = word_of_nat (card (listed_keys (visible X U a) p)) \<and> tdp_prefix resp = p"
proof -
  obtain strm count where list: "list_kv X (ap_sm a) p = Inr strm"
    and del: "delete_listed X a strm 0 = Inr (count, a')" and resp: "resp = \<lparr>tdp_prefix = p, tdp_count = count\<rparr>"
    using assms(4) by (auto simp: execute_delete_by_prefix_def)
  note items = list_kv_items [OF assms(1) list assms(3)]
  have "agrees X U N Q a" using assms(1,2) by (simp add: agrees_def)
  from delete_listed_visible [OF this del] have ne: "no_error strm" and cnt: "count = word_of_nat (length strm)"
    and vis: "visible X U a' = (\<lambda>k. if k \<in> fst ` set (ok_items strm) then None else visible X U a k)"
    by simp_all
  have keys: "fst ` set (ok_items strm) = listed_keys (visible X U a) p"
  proof
    show "fst ` set (ok_items strm) \<subseteq> listed_keys (visible X U a) p"
      using items(2) by (auto simp: ok_items_set listed_keys_def)
    show "listed_keys (visible X U a) p \<subseteq> fst ` set (ok_items strm)"
    proof
      fix k assume "k \<in> listed_keys (visible X U a) p"
      then obtain sv where "visible X U a k = Some sv" "listed_by p k" by (auto simp: listed_keys_def)
      then have "(k, sv) \<in> set (ok_items strm)" using items(3) ne by (simp add: ok_items_set)
      then show "k \<in> fst ` set (ok_items strm)" by (rule rev_image_eqI) simp
    qed
  qed
  then have "card (listed_keys (visible X U a) p) = length strm"
    using distinct_card [OF items(1)] ok_items_length [OF ne] by simp
  moreover have "visible X U a' = (\<lambda>k. if listed_by p k then None else visible X U a k)"
    unfolding vis keys by (rule ext) (simp add: listed_keys_def)
  ultimately show ?thesis by (simp add: resp cnt)
qed

section \<open>Counters and sequential keys\<close>

text \<open>The number a key holds, as the counters read it.\<close>

definition counter :: "'w env \<Rightarrow> bytes seqv option \<Rightarrow> u64" where
  "counter X v = (case v of None \<Rightarrow> 0 | Some sv \<Rightarrow> (case x_json_to_u64 X (sv_data sv) of None \<Rightarrow> 0 | Some n \<Rightarrow> n))"

lemma default_meta_never_expires:
  assumes "env_ok X U N Q" "ukv_value_meta u = None"
  shows "\<not> x_expires_at_ms X (new_meta ctx u) < t"
proof -
  have "x_expires_at_ms X km = u64_max" if "expire_at km = None" for km
    using assms(1) that by (simp add: env_ok_def env_pure_ok_def)
  then show ?thesis
    using assms(2) by (simp add: new_meta_def default_meta_spec_def resolve_meta_spec_def not_less)
qed

lemma update_visible:
  assumes env: "env_ok X U N Q" and run: "applier_upsert_kv X a (upsert_kv_update k v) = Inr ((p, r), a')"
  shows "\<exists>sv. r = Some sv \<and> sv_data sv = v \<and> visible X U a' = (visible X U a)(k := r) \<and>
    (visible X U a k = r \<or> Q (view (ap_sm a)) < sv_seq sv)"
proof -
  let ?u = "upsert_kv_update k v"
  obtain n where p: "p = visible X U a k" and r: "r = spec_upsert (x_expires_at_ms X) (cmd_ctx a) ?u n p"
    and vis: "visible X U a' = (visible X U a)(k := r)" and n: "r = p \<or> r = None \<or> Q (view (ap_sm a)) < n"
    by (rule upsert_refines_spec [OF env run]) (simp add: upsert_kv_update_def)
  have "r = Some \<lparr>sv_seq = n, sv_meta = Some (new_meta (cmd_ctx a) ?u), sv_data = v\<rparr>"
    unfolding r using default_meta_never_expires [OF env, of ?u]
    by (simp add: spec_upsert_def upsert_kv_update_def Let_def)
  with vis n p show ?thesis by auto
qed

lemma fetch_increase_visible:
  assumes "env_ok X U N Q" "execute_fetch_increase_u64 X a t delta flr = Inr (resp, a')"
  shows "fir_before resp = counter X (visible X U a (kl_key t)) \<and>
    fir_before_seq resp = seq_of (visible X U a (kl_key t)) \<and>
    (if \<exists>m. kl_match_seq t = Some m \<and> m \<noteq> seq_of (visible X U a (kl_key t))
     then a' = a \<and> fir_after resp = fir_before resp \<and> fir_after_seq resp = fir_before_seq resp
     else fir_after resp = saturating_add_signed (max (fir_before resp) flr) delta \<and>
       counter X (visible X U a' (kl_key t)) = fir_after resp \<and>
       fir_after_seq resp = seq_of (visible X U a' (kl_key t)) \<and>
       (\<forall>k. k \<noteq> kl_key t \<longrightarrow> visible X U a' k = visible X U a k))"
proof -
  let ?k = "kl_key t" and ?V = "visible X U a"
  have json: "x_json_to_u64 X (x_u64_to_json X n) = Some n" for n
    using assms(1) by (simp add: env_ok_def env_pure_ok_def)
  obtain got where got: "um_get X (view (ap_sm a)) ?k = Inr got"
    using assms(2) by (auto simp: execute_fetch_increase_u64_def get_maybe_expired_kv_def)
  then have V: "x_into_seqv X got = ?V ?k" using um_get_ok [OF assms(1) got] by (simp add: visible_def)
  note run = assms(2) [unfolded execute_fetch_increase_u64_def get_maybe_expired_kv_def got rbind.simps V
      Let_def opt_seq [OF assms(1)] counter_def [symmetric]]
  show ?thesis
  proof (cases "\<exists>m. kl_match_seq t = Some m \<and> m \<noteq> seq_of (?V ?k)")
    case True
    then have "(case kl_match_seq t of Some m \<Rightarrow> m \<noteq> seq_of (?V ?k) | None \<Rightarrow> False)" by auto
    with run True show ?thesis
      by (simp only: if_True) (auto simp: fetch_increase_response_unchanged_def)
  next
    case False
    define before where "before = counter X (?V ?k)"
    define after where "after = saturating_add_signed (max before flr) delta"
    have "\<not> (case kl_match_seq t of Some m \<Rightarrow> m \<noteq> seq_of (?V ?k) | None \<Rightarrow> False)"
      using False by (auto split: option.splits)
    with run obtain p r where up: "applier_upsert_kv X a (upsert_kv_update ?k (x_u64_to_json X after)) = Inr ((p, r), a')"
      and resp: "resp = fetch_increase_response_new ?k \<lparr>sv_seq = seq_of (?V ?k), sv_meta = None, sv_data = before\<rparr>
          \<lparr>sv_seq = seq_of r, sv_meta = None, sv_data = after\<rparr>"
      by (auto simp: after_def before_def)
    obtain sv where "r = Some sv" "sv_data sv = x_u64_to_json X after" "visible X U a' = ?V(?k := r)"
      using update_visible [OF assms(1) up] by blast
    moreover have "counter X (Some sv) = after" using \<open>sv_data sv = x_u64_to_json X after\<close>
      by (simp add: counter_def json)
    ultimately show ?thesis
      unfolding if_not_P [OF False] by (simp add: resp fetch_increase_response_new_def after_def before_def)
  qed
qed

text \<open>
  C28: \<open>fetch_increase_u64\<close>.  The response reports the counter before and after.  When the sequence
  guard fails nothing changes; otherwise the key holds, read back as a number, the larger of the
  counter and the floor plus the signed step, saturated at the ends of \<open>u64\<close>.
\<close>

theorem fetch_increase_effect:
  assumes "env_ok X U N Q" "execute_fetch_increase_u64 X a t delta flr = Inr (resp, a')"
  shows "fir_before resp = counter X (visible X U a (kl_key t)) \<and>
    fir_before_seq resp = seq_of (visible X U a (kl_key t)) \<and>
    (if \<exists>m. kl_match_seq t = Some m \<and> m \<noteq> seq_of (visible X U a (kl_key t))
     then a' = a \<and> fir_after resp = fir_before resp \<and> fir_after_seq resp = fir_before_seq resp
     else fir_after resp = saturating_add_signed (max (fir_before resp) flr) delta \<and>
       counter X (visible X U a' (kl_key t)) = fir_after resp \<and>
       fir_after_seq resp = seq_of (visible X U a' (kl_key t)) \<and>
       (\<forall>k. k \<noteq> kl_key t \<longrightarrow> visible X U a' k = visible X U a k))"
  by (rule fetch_increase_visible [OF assms])

lemma saturating_inc:
  assumes "n \<noteq> u64_max"
  shows "saturating_add_signed n 1 = n + 1"
proof -
  have "int (unat (n + 1)) = int (unat n) + 1" using unat_plus_one_u64 [OF assms] by simp
  then have inc: "uint (n + 1) = uint n + 1" by simp
  moreover have "uint (n + 1) < 2 ^ 64" using uint_lt2p [of "n + 1"] by simp
  ultimately have "uint (saturating_add_signed n 1) = uint (n + 1)"
    by (simp add: uint_saturating_add_signed)
  then show ?thesis by (simp add: word_uint_eq_iff)
qed

lemma saturating_inc_max: "saturating_add_signed u64_max 1 = u64_max"
proof -
  have "uint u64_max = 2 ^ 64 - 1" using unat_u64_max by (metis of_nat_numeral of_nat_1 of_nat_power of_nat_diff one_le_numeral one_le_power uint_nat)
  then show ?thesis by (simp add: word_uint_eq_iff uint_saturating_add_signed)
qed

text \<open>
  C29: \<open>put_sequential\<close>.  The key is the prefix with the number that the sequence key held, and that
  number is then one larger, except that it stays at the end of \<open>u64\<close>.  So of two such operations in
  a row on one sequence key the second takes the next number, and with the same prefix their keys
  ascend below the end of \<open>u64\<close>.  The first operation must not put its key over the sequence key
  itself.
\<close>

theorem put_sequential_ascending:
  assumes "env_ok X U N Q" "execute_put_sequential X a pre1 k p1 = Inr (r1, a1)"
    and "execute_put_sequential X a1 pre2 k p2 = Inr (r2, a2)" "tpo_key r1 \<noteq> k"
  shows "let n = counter X (visible X U a k); n' = (if n = u64_max then n else n + 1) in
    tpo_key r1 = build_key pre1 n \<and> tpo_key r2 = build_key pre2 n' \<and>
    (pre1 = pre2 \<and> n \<noteq> u64_max \<longrightarrow> tpo_key r1 < tpo_key r2)"
proof -
  have step: "tpo_key r = build_key pre (counter X (visible X U b k)) \<and>
      (tpo_key r \<noteq> k \<longrightarrow> counter X (visible X U b' k) = saturating_add_signed (max (counter X (visible X U b k)) 0) 1)"
    if run: "execute_put_sequential X b pre k p = Inr (r, b')" for b b' pre p r
  proof -
    obtain f b1 pr where f: "execute_fetch_increase_u64 X b (key_lookup_just k) 1 0 = Inr (f, b1)"
      and up: "applier_upsert_kv X b1 (with_meta_spec (upsert_kv_update (pre @ format_seq_number (fir_before f)) (pl_value p))
          (to_meta_spec p)) = Inr (pr, b')"
      and r: "tpo_key r = pre @ format_seq_number (fir_before f)"
      using run by (auto simp: execute_put_sequential_def Let_def)
    have "fir_before f = counter X (visible X U b k)"
      and "counter X (visible X U b1 k) = saturating_add_signed (max (counter X (visible X U b k)) 0) 1"
      using fetch_increase_visible [OF assms(1) f] by (auto simp: key_lookup_just_def key_lookup_new_def)
    moreover have "visible X U b' j = visible X U b1 j" if "j \<noteq> pre @ format_seq_number (fir_before f)" for j
      using that up
      by (cases pr) (auto elim!: upsert_refines_spec [OF assms(1)] simp: with_meta_spec_def upsert_kv_update_def)
    ultimately show ?thesis using r by (auto simp: build_key_def)
  qed
  let ?n = "counter X (visible X U a k)"
  have "tpo_key r1 = build_key pre1 ?n" and "counter X (visible X U a1 k) = (if ?n = u64_max then ?n else ?n + 1)"
    using step [OF assms(2)] assms(4) by (auto simp: saturating_inc saturating_inc_max)
  with step [OF assms(3)] u64_less_inc [of ?n] show ?thesis
    by (auto simp: build_key_def format_seq_number_less Let_def)
qed

section \<open>Instances\<close>

lemma demo_start_visible: "visible mem_env mem_user (applier_new demo_sm) k = None"
  by (simp add: visible_def applier_new_def demo_sm_def mem_user_def mem_empty_def mem_env_fields)

definition demo_txn :: kv_txn where
  "demo_txn = \<lparr>branches =
     [branch_then (branch_if (pred_seq (ascii ''a'') Op_Gt 0)) [op_delete (ascii ''a'')],
      branch_then (branch_if (pred_seq (ascii ''a'') Op_Eq 0)) [op_put (ascii ''b'') [2]]]\<rparr>"

lemma demo_txn_run:
  obtains r a' where "apply_kv_transaction mem_env (applier_new demo_sm) demo_txn = Inr (AppliedKvTransactionReply r, a')"
  by (simp add: demo_txn_def demo_simps applier_simps base_simps mem_simps)

theorem transaction_first_match_witness:
  "\<exists>r a'. apply_kv_transaction mem_env (applier_new demo_sm) demo_txn = Inr (AppliedKvTransactionReply r, a') \<and>
     executed_branch r = Some 1 \<and> length (ktr_responses r) = 1"
proof -
  obtain r a' where run: "apply_kv_transaction mem_env (applier_new demo_sm) demo_txn = Inr (AppliedKvTransactionReply r, a')"
    by (rule demo_txn_run)
  have "first_match (cond_true (visible mem_env mem_user (applier_new demo_sm))) 0 (branches demo_txn) = Some 1"
    by (simp add: demo_txn_def branch_then_def branch_if_def pred_seq_def pred_leaf_def cond_true_def
        demo_start_visible seq_of_def)
  moreover have "keys_ok (visible mem_env mem_user (applier_new demo_sm))"
    by (simp add: keys_ok_def demo_start_visible)
  ultimately have "executed_branch r = Some 1 \<and> length (ktr_responses r) = length (br_operations (branches demo_txn ! 1))"
    using transaction_first_match [OF mem_env_ok _ run] by simp
  moreover have "length (br_operations (branches demo_txn ! 1)) = 1"
    by (simp add: demo_txn_def branch_then_def branch_if_def)
  ultimately show ?thesis using run by auto
qed

lemma demo_delete_run:
  obtains resp a' where "execute_delete_by_prefix mem_env demo_mid (ascii ''a'') = Inr (resp, a')"
  by (simp add: demo_mid_fields applier_simps mem_simps upsert_kv_delete_def resolve_meta_spec_def
      default_meta_spec_def in_range_def prefix_right_bound_def is_scalar_def)

theorem delete_by_prefix_exact_witness:
  "\<exists>resp a'. execute_delete_by_prefix mem_env demo_mid (ascii ''a'') = Inr (resp, a') \<and>
     visible mem_env mem_user a' (ascii ''a'') = None \<and> tdp_count resp = 1"
proof -
  obtain resp a' where run: "execute_delete_by_prefix mem_env demo_mid (ascii ''a'') = Inr (resp, a')"
    by (rule demo_delete_run)
  have one: "{k. visible mem_env mem_user demo_mid k \<noteq> None} = {ascii ''a''}"
    by (auto simp: demo_mid_visible)
  then have "keys_ok (visible mem_env mem_user demo_mid)"
    unfolding keys_ok_def by (simp add: demo_mid_visible is_scalar_def)
  moreover have "listed_keys (visible mem_env mem_user demo_mid) (ascii ''a'') = {ascii ''a''}"
    by (auto simp: listed_keys_def listed_by_def no_next_char_def is_scalar_def demo_mid_visible)
  ultimately show ?thesis
    using delete_by_prefix_exact [OF mem_env_ok demo_mid_index _ run] run
    by (auto simp: listed_by_def no_next_char_def is_scalar_def)
qed

lemma demo_counter_run:
  obtains resp a' where "execute_fetch_increase_u64 mem_env (applier_new demo_sm) (key_lookup_just (ascii ''c'')) 5 2 = Inr (resp, a')"
  by (simp add: demo_simps applier_simps base_simps mem_simps)

theorem fetch_increase_effect_witness:
  "\<exists>resp a'. execute_fetch_increase_u64 mem_env (applier_new demo_sm) (key_lookup_just (ascii ''c'')) 5 2 = Inr (resp, a') \<and>
     counter mem_env (visible mem_env mem_user a' (ascii ''c'')) = saturating_add_signed (max (fir_before resp) 2) 5"
proof -
  obtain resp a' where run: "execute_fetch_increase_u64 mem_env (applier_new demo_sm) (key_lookup_just (ascii ''c'')) 5 2 = Inr (resp, a')"
    by (rule demo_counter_run)
  from fetch_increase_effect [OF mem_env_ok run] run show ?thesis
    by (auto simp: key_lookup_just_def key_lookup_new_def)
qed

definition demo_put_seq :: "mem applier \<Rightarrow> (txn_put_response \<times> mem applier) io_result" where
  "demo_put_seq a = execute_put_sequential mem_env a (ascii ''p/'') (ascii ''s'') (payload_just [7])"

lemma demo_put_seq_run:
  obtains r1 a1 r2 a2 where "demo_put_seq (applier_new demo_sm) = Inr (r1, a1)" "demo_put_seq a1 = Inr (r2, a2)"
    "tpo_key r1 \<noteq> ascii ''s''"
  by (simp add: demo_put_seq_def demo_simps applier_simps base_simps mem_simps)

theorem put_sequential_ascending_witness:
  "\<exists>r1 a1 r2 a2. demo_put_seq (applier_new demo_sm) = Inr (r1, a1) \<and> demo_put_seq a1 = Inr (r2, a2) \<and>
     tpo_key r1 < tpo_key r2"
proof -
  obtain r1 a1 r2 a2 where run: "demo_put_seq (applier_new demo_sm) = Inr (r1, a1)" "demo_put_seq a1 = Inr (r2, a2)"
    and key: "tpo_key r1 \<noteq> ascii ''s''"
    by (rule demo_put_seq_run)
  have "counter mem_env (visible mem_env mem_user (applier_new demo_sm) (ascii ''s'')) \<noteq> u64_max"
    by (simp add: counter_def demo_start_visible u64_max_def)
  with put_sequential_ascending [OF mem_env_ok run [unfolded demo_put_seq_def] key] run
  show ?thesis by (auto simp: Let_def)
qed

end
