(* ===== verification/Upsert_Txn.thy ===== *)
theory Upsert_Txn
  imports Upsert_Spec
begin

text \<open>
  The client's upsert.  \<open>KvApiExt::upsert_kv\<close> sends an upsert as a legacy transaction
  (\<open>txn_request_upsert_ext.rs\<close>) and reads the change back from the reply
  (\<open>txn_reply_upsert_ext.rs\<close>); the transaction refines the specification of the upsert.
\<close>

section \<open>Conversions\<close>

text \<open>The deprecated \<open>AsIs\<close> is unreachable in the source, which panics on it.\<close>

definition from_upsert :: "upsert_kv \<Rightarrow> txn_request option" where
  "from_upsert u =
    (let conditions =
       (case ukv_seq u of
          MS_Any \<Rightarrow> []
        | MS_Exact v \<Rightarrow> [tc_match_seq (ukv_key u) CR_Eq v]
        | MS_GE v \<Rightarrow> [tc_match_seq (ukv_key u) CR_Ge v]);
         opr =
       (case ukv_value u of
          Update x \<Rightarrow>
            Some (let x = txn_op_put (ukv_key u) x in
              case ukv_value_meta u of
                None \<Rightarrow> x
              | Some spec \<Rightarrow>
                  txn_op_with_ttl
                    (txn_op_with_expires_at x (map_option flexible_timestamp_to_duration (ms_expire_at spec)))
                    (map_option interval_to_duration (ms_ttl spec)))
        | Delete \<Rightarrow> Some (txn_op_delete (ukv_key u))
        | AsIs \<Rightarrow> None)
     in map_option (\<lambda>x.
          let txn = txn_request_new conditions [x] in
          if conditions \<noteq> [] then with_else txn [txn_op_get (ukv_key u)] else txn) opr)"

text \<open>
  In the protobuf message the response is an optional field, and a missing one is a further error of
  the source; the responses of the state machine always have one, and the model has no other.
\<close>

datatype invalid_reply = No_Responses | Unexpected_Response

definition into_upsert_reply :: "txn_reply \<Rightarrow> invalid_reply + (bytes, unit) change" where
  "into_upsert_reply reply =
    (case tre_responses reply of
       [] \<Rightarrow> Inl No_Responses
     | res # _ \<Rightarrow>
         (case res of
            RespPut r \<Rightarrow> Inr (change_new (map_option seqv_from_pb (tpo_prev_value r)) (map_option seqv_from_pb (tpo_current r)))
          | RespDelete r \<Rightarrow>
              (let p = map_option seqv_from_pb (tdo_prev_value r) in
               if tdo_success r then Inr (change_new p None) else Inr (change_new p p))
          | RespGet r \<Rightarrow>
              (let current = map_option seqv_from_pb (tgr_value r) in Inr (change_new current current))
          | _ \<Rightarrow> Inl Unexpected_Response))"

section \<open>The upsert that is sent\<close>

text \<open>
  The expiry time of an update is sent in milliseconds, whatever unit it was given in; a deletion
  carries no metadata.
\<close>

definition sent_upsert :: "upsert_kv \<Rightarrow> upsert_kv" where
  "sent_upsert u = u\<lparr>ukv_value_meta :=
    (case ukv_value u of
       Delete \<Rightarrow> None
     | _ \<Rightarrow> map_option (\<lambda>spec. meta_spec_new
         (map_option (\<lambda>t. millis_u64 (flexible_timestamp_to_duration t)) (ms_expire_at spec)) (ms_ttl spec))
         (ukv_value_meta u))\<rparr>"

text \<open>The operation that is executed when the condition on the sequence number holds.\<close>

definition upsert_operation :: "upsert_kv \<Rightarrow> txn_operation" where
  "upsert_operation u =
    (case ukv_value u of
       Update v \<Rightarrow> Put (key_lookup_just (ukv_key u))
         (let spec = (case ukv_value_meta (sent_upsert u) of None \<Rightarrow> default_meta_spec | Some m \<Rightarrow> m)
          in payload_new v (ms_expire_at spec) (map_option (\<lambda>i. millis_u64 (interval_to_duration i)) (ms_ttl spec)))
     | _ \<Rightarrow> OpDelete (key_lookup_just (ukv_key u)))"

lemma txn_of_upsert:
  assumes "from_upsert u = Some txn"
  shows "branches (txn_from_legacy E txn) =
    \<lparr>br_predicate = And (map (\<lambda>c. Leaf (condition_from_pb E c)) (tr_condition txn)), br_operations = [upsert_operation u]\<rparr> #
    (if ukv_seq u = MS_Any then [] else [\<lparr>br_predicate = always_true, br_operations = [Get (ukv_key u)]\<rparr>])"
    "tr_condition txn =
      (case ukv_seq u of MS_Any \<Rightarrow> [] | MS_Exact v \<Rightarrow> [tc_match_seq (ukv_key u) CR_Eq v] | MS_GE v \<Rightarrow> [tc_match_seq (ukv_key u) CR_Ge v])"
  using assms
  by (auto simp: from_upsert_def txn_from_legacy_def txn_request_new_def with_else_def Let_def upsert_operation_def sent_upsert_def
      txn_op_put_def txn_put_request_new_def txn_op_with_ttl_def txn_op_with_expires_at_def txn_op_delete_def txn_op_delete_exact_def
      txn_delete_request_new_def txn_op_get_def operation_from_pb_def key_lookup_just_def payload_new_def default_meta_spec_def
      meta_spec_new_def option.map_comp comp_def
      split: operation.splits match_seq.splits option.splits)

section \<open>Execution\<close>

lemma upsert_condition:
  assumes "env_ok X U N Q" "pb_enums_ok E" "from_upsert u = Some txn"
    and "eval_predicate X a (And (map (\<lambda>c. Leaf (condition_from_pb E c)) (tr_condition txn))) = Inr b"
  shows "b = matches (ukv_seq u) (seq_of (visible X U a (ukv_key u)))"
proof (cases "ukv_seq u = MS_Any")
  case True
  with assms(4) txn_of_upsert(2) [OF assms(3)] show ?thesis by simp
next
  case False
  obtain got where got: "um_get X (view (ap_sm a)) (ukv_key u) = Inr got"
    using assms(4) False txn_of_upsert(2) [OF assms(3)]
    by (auto simp: eval_condition_def get_maybe_expired_kv_def condition_from_pb_def tc_match_seq_def split: match_seq.splits)
  then have V: "x_into_seqv X got = visible X U a (ukv_key u)"
    using um_get_ok [OF assms(1) got] by (simp add: visible_def)
  have "from_condition_result E (condition_result_i32 CR_Eq) = Op_Eq" "from_condition_result E (condition_result_i32 CR_Ge) = Op_Ge"
    using assms(2) by (simp_all add: from_condition_result_def pb_enums_ok_def del: condition_result_i32.simps)
  with assms(4) False txn_of_upsert(2) [OF assms(3)] got V show ?thesis
    by (auto simp: eval_condition_def get_maybe_expired_kv_def condition_from_pb_def tc_match_seq_def opt_seq [OF assms(1)]
        simp del: condition_result_i32.simps split: match_seq.splits if_splits)
qed

lemma sent_upsert_fields [simp]:
  "ukv_key (sent_upsert u) = ukv_key u" "ukv_seq (sent_upsert u) = ukv_seq u" "ukv_value (sent_upsert u) = ukv_value u"
  by (simp_all add: sent_upsert_def)

text \<open>
  What the client sees of an upsert of \<open>u\<close> that changes \<open>p\<close> to \<open>r\<close>, where \<open>same\<close> compares values; the
  sequence number of a new value is larger than every number used so far.
\<close>

definition upsert_seen ::
  "(bytes seqv option \<Rightarrow> bytes seqv option \<Rightarrow> bool) \<Rightarrow>
   'w env \<Rightarrow> ('w \<Rightarrow> rstring \<Rightarrow> meta_value seq_marked) \<Rightarrow> ('w \<Rightarrow> u64) \<Rightarrow> 'w applier \<Rightarrow> 'w applier \<Rightarrow> upsert_kv \<Rightarrow>
   (bytes, unit) change \<Rightarrow> bool" where
  "upsert_seen same X U Q a a' u c \<longleftrightarrow>
    prev c = visible X U a (ukv_key u) \<and>
    (\<exists>n. same (result c) (spec_upsert (x_expires_at_ms X) (cmd_ctx a) u n (prev c)) \<and>
      (result c = prev c \<or> result c = None \<or> Q (view (ap_sm a)) < n)) \<and>
    visible X U a' = (visible X U a)(ukv_key u := result c) \<and>
    changes a' = changes a @ (if prev c = result c then [] else [(ukv_key u, prev c, result c)])"

text \<open>
  Values that differ at most in the unit of the expiry time: the same sequence number, data and
  time of proposal, and the same instant of expiry.
\<close>

definition expiry :: "kvmeta \<Rightarrow> duration option" where
  "expiry km = map_option flexible_timestamp_to_duration (expire_at km)"

definition same_value :: "bytes seqv option \<Rightarrow> bytes seqv option \<Rightarrow> bool" where
  "same_value = rel_option (\<lambda>x y. sv_seq x = sv_seq y \<and> sv_data x = sv_data y \<and>
    rel_option (\<lambda>m k. proposed_at_ms m = proposed_at_ms k \<and> expiry m = expiry k) (sv_meta x) (sv_meta y))"

text \<open>
  The expiry time of stored metadata is in seconds or in milliseconds, told apart by its magnitude,
  as documented for the metadata that a client gives.
\<close>

definition reads_flexible :: "'w env \<Rightarrow> bool" where
  "reads_flexible X \<longleftrightarrow> (\<forall>km d. expiry km = Some d \<longrightarrow> x_expires_at_ms X km = millis_u64 d)"

text \<open>
  An absolute expiry time of an update is later than 100000000 seconds (March 1973), from where on a
  time in milliseconds is not taken for one in seconds, or it is 0.
\<close>

definition expiry_kept :: "upsert_kv \<Rightarrow> bool" where
  "expiry_kept u \<longleftrightarrow>
    (\<forall>v spec t. ukv_value u = Update v \<and> ukv_value_meta u = Some spec \<and> ms_ttl spec = None \<and> ms_expire_at spec = Some t \<longrightarrow>
      t = 0 \<or> 100000000 < t)"

lemma flexible_twice:
  assumes "t = 0 \<or> 100000000 < t"
  shows "flexible_timestamp_to_duration (millis_u64 (flexible_timestamp_to_duration t)) = flexible_timestamp_to_duration t"
proof (cases "100000000000 < t")
  case True
  then show ?thesis
    by (simp add: flexible_timestamp_to_duration_def millis_u64_def duration_as_millis_def duration_from_millis_def)
next
  case False
  then have le: "unat t \<le> 100000000000" by (simp add: word_less_nat_alt not_less)
  then have u: "unat (word_of_nat (unat t * 1000) :: u64) = unat t * 1000"
    by (simp only: unat_of_nat) (simp add: take_bit_nat_eq_self)
  then have u': "unat (1000 * t) = 1000 * unat t" by (simp add: mult.commute)
  have "t = 0 \<or> 100000000000 < unat t * 1000"
    using assms by (auto simp: word_less_nat_alt)
  with False u' show ?thesis
    by (auto simp: flexible_timestamp_to_duration_def millis_u64_def duration_as_millis_def duration_from_millis_def
        duration_from_secs_def word_less_nat_alt)
qed

text \<open>An earlier time is read back as another one: a day in January 1970 as one in 2033.\<close>

lemma flexible_twice_early:
  "flexible_timestamp_to_duration (millis_u64 (flexible_timestamp_to_duration 2000000)) = duration_from_secs 2000000000"
  by (simp add: flexible_timestamp_to_duration_def millis_u64_def duration_as_millis_def duration_from_secs_def)

lemma sent_meta:
  assumes "ukv_value u = Update v" "expiry_kept u"
  shows "proposed_at_ms (new_meta ctx (sent_upsert u)) = proposed_at_ms (new_meta ctx u)"
    and "expiry (new_meta ctx (sent_upsert u)) = expiry (new_meta ctx u)"
proof -
  show "proposed_at_ms (new_meta ctx (sent_upsert u)) = proposed_at_ms (new_meta ctx u)"
    by (simp add: new_meta_def resolve_meta_spec_def)
  show "expiry (new_meta ctx (sent_upsert u)) = expiry (new_meta ctx u)"
  proof (cases "ukv_value_meta u")
    case None
    with assms(1) show ?thesis by (simp add: new_meta_def sent_upsert_def)
  next
    case (Some spec)
    show ?thesis
    proof (cases "ms_ttl spec")
      case None
      then have "flexible_timestamp_to_duration (millis_u64 (flexible_timestamp_to_duration t)) = flexible_timestamp_to_duration t"
        if "ms_expire_at spec = Some t" for t
        using assms Some that by (intro flexible_twice) (auto simp: expiry_kept_def)
      with None Some assms(1) show ?thesis
        by (cases "ms_expire_at spec") (simp_all add: new_meta_def sent_upsert_def resolve_meta_spec_def meta_spec_new_def expiry_def)
    next
      case (Some ttl)
      with \<open>ukv_value_meta u = Some spec\<close> assms(1) show ?thesis
        by (simp add: new_meta_def sent_upsert_def resolve_meta_spec_def meta_spec_new_def expiry_def)
    qed
  qed
qed

lemma expires_by_expiry:
  assumes "env_ok X U N Q" "reads_flexible X" "expiry m = expiry k"
  shows "x_expires_at_ms X m = x_expires_at_ms X k"
proof (cases "expiry k")
  case None
  with assms(3) have "expire_at m = None" "expire_at k = None" by (simp_all add: expiry_def)
  with assms(1) show ?thesis by (simp add: env_ok_def env_pure_ok_def)
next
  case (Some d)
  with assms(2,3) show ?thesis by (simp add: reads_flexible_def)
qed

lemma same_value_refl: "same_value v v"
  by (simp add: same_value_def option.rel_refl)

lemma spec_sent:
  assumes "env_ok X U N Q" "reads_flexible X" "expiry_kept u" "ukv_value u \<noteq> AsIs"
  shows "same_value (spec_upsert (x_expires_at_ms X) ctx (sent_upsert u) n p) (spec_upsert (x_expires_at_ms X) ctx u n p)"
proof (cases "ukv_value u")
  case (Update v)
  note meta = sent_meta [OF Update assms(3), of ctx]
  show ?thesis
    using meta expires_by_expiry [OF assms(1,2) meta(2)] Update
    by (auto simp: spec_upsert_def Let_def same_value_refl) (simp add: same_value_def)
qed (use assms(4) in \<open>auto simp: spec_upsert_def Let_def same_value_refl\<close>)

lemma upsert_seen_sent:
  assumes "env_ok X U N Q" "reads_flexible X" "expiry_kept u" "ukv_value u \<noteq> AsIs"
    and "upsert_seen (=) X U Q a a' (sent_upsert u) c"
  shows "upsert_seen same_value X U Q a a' u c"
  using assms(5) spec_sent [OF assms(1-4), of "cmd_ctx a"] unfolding upsert_seen_def by (metis sent_upsert_fields(1))

lemma seqv_pb_option [simp]: "map_option seqv_from_pb (map_option seqv_to_pb v) = v"
  by (cases v) simp_all

lemma payload_meta:
  "to_meta_spec (payload_new v (ms_expire_at spec) (map_option (\<lambda>i. millis_u64 (interval_to_duration i)) (ms_ttl spec))) = spec"
proof -
  have "interval_from_millis (millis_u64 (interval_to_duration i)) = i" for i
    by (cases i) (simp add: interval_from_millis_def interval_from_duration_def interval_to_duration_def millis_u64_def
        duration_from_millis_def duration_as_millis_def)
  then show ?thesis
    by (simp add: to_meta_spec_def payload_new_def meta_spec_new_def option.map_comp comp_def option.map_ident)
qed

lemma upsert_seenI:
  assumes "p = visible X U a (ukv_key u)" "r = spec_upsert (x_expires_at_ms X) (cmd_ctx a) u n p"
    and "visible X U a' = (visible X U a)(ukv_key u := r)"
    and "changes a' = changes a @ (if p = r then [] else [(ukv_key u, p, r)])"
    and "r = p \<or> r = None \<or> Q (view (ap_sm a)) < n"
  shows "upsert_seen (=) X U Q a a' u (change_new p r)"
proof -
  have "\<exists>n. r = spec_upsert (x_expires_at_ms X) (cmd_ctx a) u n p \<and> (r = p \<or> r = None \<or> Q (view (ap_sm a)) < n)"
    using assms(2,5) by blast
  with assms(1,3,4) show ?thesis unfolding upsert_seen_def change_new_def by simp
qed

lemma upsert_put_seen:
  assumes env: "env_ok X U N Q" and u: "ukv_value u = Update v"
    and match: "matches (ukv_seq u) (seq_of (visible X U a (ukv_key u)))"
    and run: "execute_op X a (upsert_operation u) = Inr (resp, a')" and one: "tre_responses reply = [resp]"
  shows "\<exists>c. into_upsert_reply reply = Inr c \<and> upsert_seen (=) X U Q a a' (sent_upsert u) c"
proof -
  let ?spec = "case ukv_value_meta (sent_upsert u) of None \<Rightarrow> default_meta_spec | Some m \<Rightarrow> m"
  let ?u = "with_meta_spec (upsert_kv_update (ukv_key u) v) ?spec"
  obtain p r where pr: "applier_upsert_kv X a ?u = Inr ((p, r), a')"
    and resp: "resp = RespPut \<lparr>tpo_key = ukv_key u, tpo_prev_value = map_option seqv_to_pb p, tpo_current = map_option seqv_to_pb r\<rparr>"
    using run u
    by (auto simp: upsert_operation_def execute_put_def key_lookup_just_def key_lookup_new_def Let_def payload_meta)
      (simp add: payload_new_def)
  obtain n where n: "p = visible X U a (ukv_key u)" "r = spec_upsert (x_expires_at_ms X) (cmd_ctx a) ?u n p"
    "visible X U a' = (visible X U a)(ukv_key u := r)"
    "changes a' = changes a @ (if p = r then [] else [(ukv_key u, p, r)])"
    "r = p \<or> r = None \<or> Q (view (ap_sm a)) < n"
    by (rule upsert_refines_spec [OF env pr]) (simp add: with_meta_spec_def upsert_kv_update_def)
  have "r = spec_upsert (x_expires_at_ms X) (cmd_ctx a) (sent_upsert u) n p"
    using n(2) match u by (simp add: spec_upsert_def new_meta_def with_meta_spec_def upsert_kv_update_def n(1) Let_def)
  then have "upsert_seen (=) X U Q a a' (sent_upsert u) (change_new p r)"
    using n by (intro upsert_seenI) simp_all
  with resp one show ?thesis by (simp add: into_upsert_reply_def)
qed

lemma visible_seq_zero:
  assumes "env_ok X U N Q" "index_ok X U N Q (view (ap_sm a))" "seq_of (visible X U a k) = 0"
  shows "visible X U a k = None"
proof (rule into_seqv_cases [OF assms(1), of "U (view (ap_sm a)) k"])
  fix s km v
  assume m: "U (view (ap_sm a)) k = SeqMarked s (Normal (km, v))"
    "x_into_seqv X (U (view (ap_sm a)) k) = Some \<lparr>sv_seq = s, sv_meta = km, sv_data = v\<rparr>"
  have "marked (U (view (ap_sm a)) k) \<noteq> TombStone" using m(1) by simp
  then have "0 < internal_seq (U (view (ap_sm a)) k)" using assms(2) unfolding index_ok_def by blast
  with m assms(3) show ?thesis by (simp add: visible_def seq_of_def)
qed (simp add: visible_def)

lemma upsert_delete_seen:
  assumes env: "env_ok X U N Q" and idx: "index_ok X U N Q (view (ap_sm a))" and u: "ukv_value u = Delete"
    and match: "matches (ukv_seq u) (seq_of (visible X U a (ukv_key u)))"
    and run: "execute_op X a (upsert_operation u) = Inr (resp, a')" and one: "tre_responses reply = [resp]"
  shows "\<exists>c. into_upsert_reply reply = Inr c \<and> upsert_seen (=) X U Q a a' (sent_upsert u) c"
proof -
  let ?u = "upsert_kv_delete (ukv_key u)"
  obtain p r where pr: "applier_upsert_kv X a ?u = Inr ((p, r), a')"
    and resp: "resp = RespDelete \<lparr>tdo_key = ukv_key u, tdo_success = (p \<noteq> None \<and> r = None), tdo_prev_value = map_option seqv_to_pb p\<rparr>"
    using run u by (auto simp: upsert_operation_def execute_delete_def key_lookup_just_def key_lookup_new_def Let_def)
  obtain n where n: "p = visible X U a (ukv_key u)" "r = spec_upsert (x_expires_at_ms X) (cmd_ctx a) ?u n p"
    "visible X U a' = (visible X U a)(ukv_key u := r)"
    "changes a' = changes a @ (if p = r then [] else [(ukv_key u, p, r)])"
    "r = p \<or> r = None \<or> Q (view (ap_sm a)) < n"
    by (rule upsert_refines_spec [OF env pr]) (simp add: upsert_kv_delete_def)
  have one_le: "1 \<le> x" if "x \<noteq> 0" for x :: u64
    using that by (simp add: word_le_nat_alt Suc_le_eq unat_gt_0)
  have r: "r = None"
    using n(2) visible_seq_zero [OF env idx, of "ukv_key u"] one_le [of "seq_of p"]
    by (cases "seq_of p = 0") (simp_all add: spec_upsert_def upsert_kv_delete_def Let_def n(1) [symmetric])
  moreover have "spec_upsert (x_expires_at_ms X) (cmd_ctx a) (sent_upsert u) n p = None"
    using match u by (simp add: spec_upsert_def Let_def n(1))
  ultimately have "upsert_seen (=) X U Q a a' (sent_upsert u) (change_new p r)"
    using n by (intro upsert_seenI [where n = n]) simp_all
  moreover have "into_upsert_reply reply = Inr (change_new p r)"
    using resp one r by (auto simp: into_upsert_reply_def Let_def)
  ultimately show ?thesis by blast
qed

lemma upsert_txn_seen:
  assumes env: "env_ok X U N Q" and idx: "index_ok X U N Q (view (ap_sm a))" and enums: "pb_enums_ok E"
    and u: "from_upsert u = Some txn" and run: "run_branches X a 0 (branches (txn_from_legacy E txn)) = Inr (rep, a')"
  shows "\<exists>c. into_upsert_reply (into_txn_reply rep txn) = Inr c \<and> upsert_seen (=) X U Q a a' (sent_upsert u) c"
proof -
  let ?cond = "And (map (\<lambda>c. Leaf (condition_from_pb E c)) (tr_condition txn))"
  obtain b where b: "eval_predicate X a ?cond = Inr b"
    using run by (auto simp: txn_of_upsert(1) [OF u] simp del: eval_predicate.simps)
  note m = upsert_condition [OF env enums u b]
  have reply: "tre_responses (into_txn_reply rep txn) = ktr_responses rep"
    by (simp add: into_txn_reply_def Let_def split: option.splits)
  show ?thesis
  proof (cases b)
    case True
    then obtain resp where x: "execute_op X a (upsert_operation u) = Inr (resp, a')" "ktr_responses rep = [resp]"
      using run b by (auto simp: txn_of_upsert(1) [OF u] simp del: eval_predicate.simps)
    have "ukv_value u \<noteq> AsIs" using u by (auto simp: from_upsert_def Let_def)
    then show ?thesis
      using upsert_put_seen [OF env _ _ x(1), of _ "into_txn_reply rep txn"]
        upsert_delete_seen [OF env idx _ _ x(1), of "into_txn_reply rep txn"] x(2) reply m True
      by (cases "ukv_value u") simp_all
  next
    case False
    then have s: "ukv_seq u \<noteq> MS_Any" using m by auto
    obtain got where got: "um_get X (view (ap_sm a)) (ukv_key u) = Inr got" "a' = a"
      "ktr_responses rep = [RespGet \<lparr>tgr_key = ukv_key u, tgr_value = map_option seqv_to_pb (x_into_seqv X got)\<rparr>]"
      using run b False s
      by (auto simp: txn_of_upsert(1) [OF u] always_true_def execute_get_def get_maybe_expired_kv_def)
    let ?v = "visible X U a (ukv_key u)"
    have "x_into_seqv X got = ?v" using um_get_ok [OF env got(1)] by (simp add: visible_def)
    moreover have "upsert_seen (=) X U Q a a (sent_upsert u) (change_new ?v ?v)"
      using m False by (intro upsert_seenI [where n = 0]) (simp_all add: spec_upsert_def Let_def)
    ultimately show ?thesis using got reply by (auto simp: into_upsert_reply_def Let_def)
  qed
qed

text \<open>
  C8: The upsert of a client.  When the transaction that it is sent as is applied, the change that
  the client reads from the reply has the visible value before and the value that the upsert itself
  specifies after, with the same sequence number, data and time of proposal and the same instant of
  expiry, whose unit may differ; no other key changes, and the change is queued for the watchers
  exactly when the visible value changed.  It covers conditions that fail and deletions of absent
  keys.  An absolute expiry time must be 0 or later than 100000000 seconds.
\<close>

theorem client_upsert_refines:
  assumes "env_ok X U N Q" "index_ok X U N Q (view (ap_sm a))" "pb_enums_ok E" "reads_flexible X" "expiry_kept u"
    and "from_upsert u = Some txn" "apply_cmd E X a (CmdTransaction txn) = Inr (st, a')"
  shows "\<exists>rep c. st = AppliedKvTransactionReply rep \<and> into_upsert_reply (into_txn_reply rep txn) = Inr c \<and>
    upsert_seen same_value X U Q a a' u c"
proof -
  obtain rep where rep: "st = AppliedKvTransactionReply rep" "run_branches X a 0 (branches (txn_from_legacy E txn)) = Inr (rep, a')"
    using assms(7) by (auto simp: apply_kv_transaction_def)
  have "ukv_value u \<noteq> AsIs" using assms(6) by (auto simp: from_upsert_def Let_def)
  with upsert_txn_seen [OF assms(1-3,6) rep(2)] upsert_seen_sent [OF assms(1,4,5)] rep(1) show ?thesis by blast
qed

lemma mem_reads_flexible: "reads_flexible mem_env"
  by (auto simp: reads_flexible_def expiry_def mem_env_fields mem_expires_at_ms_def millis_u64_def)

definition demo_timed_upsert :: upsert_kv where
  "demo_timed_upsert = with_meta_spec demo_upsert (meta_spec_new_expire 2000000000)"

theorem client_upsert_refines_witness:
  "\<exists>txn st a' rep c. from_upsert demo_timed_upsert = Some txn \<and>
    apply_cmd prost_enums mem_env (applier_new demo_sm) (CmdTransaction txn) = Inr (st, a') \<and>
    st = AppliedKvTransactionReply rep \<and> into_upsert_reply (into_txn_reply rep txn) = Inr c \<and>
    upsert_seen same_value mem_env mem_user mem_seq (applier_new demo_sm) a' demo_timed_upsert c"
proof -
  obtain txn where txn: "from_upsert demo_timed_upsert = Some txn"
    by (simp add: from_upsert_def demo_timed_upsert_def demo_upsert_def base_simps Let_def)
  have kept: "expiry_kept demo_timed_upsert"
    by (simp add: expiry_kept_def demo_timed_upsert_def demo_upsert_def base_simps)
  have "\<not> isl (apply_cmd prost_enums mem_env (applier_new demo_sm) (CmdTransaction txn))"
    using txn by (auto simp: from_upsert_def demo_timed_upsert_def demo_upsert_def demo_simps applier_simps base_simps mem_simps txn_from_legacy_def
      txn_request_new_def with_else_def tc_match_seq_def prost_enums_def condition_from_pb_def from_condition_result_def
      txn_op_put_def txn_put_request_new_def operation_from_pb_def txn_op_with_ttl_def txn_op_with_expires_at_def
      flexible_timestamp_to_duration_def)
  then obtain st a' where "apply_cmd prost_enums mem_env (applier_new demo_sm) (CmdTransaction txn) = Inr (st, a')"
    by (cases "apply_cmd prost_enums mem_env (applier_new demo_sm) (CmdTransaction txn)") auto
  with client_upsert_refines [OF mem_env_ok demo_index_ok prost_enums_ok mem_reads_flexible kept txn this] txn show ?thesis by blast
qed

end
