(* ===== verification/Network.thy ===== *)
theory Network
  imports Sm_Api
begin

text \<open>
  The raft network of a node (\<open>network.rs\<close> of the service and \<open>grpc_helper.rs\<close>): the cached client
  and connecting, append requests that are reduced when they are too large, their splitting for the
  streamed append, votes with the fallback to the old method, and the transfer of leadership.

  The transport and JSON are library code: \<open>net_env\<close>.  The type \<open>'w\<close> is the world outside the node,
  which every call may change, and \<open>'c\<close> is a connected client.  Metrics, logs and pauses are left out.
\<close>

section \<open>Requests, replies and errors\<close>

text \<open>The status codes that the source distinguishes.\<close>

datatype grpc_code = ResourceExhausted | Unavailable | UnknownCode | Unimplemented | NotFoundCode | OtherCode

datatype rpc_error = Unreachable | NetworkFailure

record raft_reply =
  rr_data :: rstring
  rr_error :: rstring

record ('c, 'w) net_env =
  sm_nodes :: "'w \<Rightarrow> u64 \<Rightarrow> node option"
  grpc_connect :: "'w \<Rightarrow> rstring \<Rightarrow> 'c option \<times> 'w"
  json_of_append :: "append_request \<Rightarrow> rstring option"
  append_of_json :: "rstring \<Rightarrow> append_response option"
  json_of_vote :: "vote_request \<Rightarrow> rstring option"
  vote_of_json :: "rstring \<Rightarrow> vote_response option"
  raft_error_of_json :: "rstring \<Rightarrow> unit option"
  call_append_entries :: "'w \<Rightarrow> 'c \<Rightarrow> rstring \<Rightarrow> (grpc_code + raft_reply) \<times> 'w"
  call_vote :: "'w \<Rightarrow> 'c \<Rightarrow> rstring \<Rightarrow> (grpc_code + raft_reply) \<times> 'w"
  call_vote_v001 :: "'w \<Rightarrow> 'c \<Rightarrow> pb_vote_request \<Rightarrow> (grpc_code + pb_vote_response) \<times> 'w"
  call_transfer_leader :: "'w \<Rightarrow> 'c \<Rightarrow> pb_transfer_leader_request \<Rightarrow> (grpc_code + unit) \<times> 'w"

text \<open>A reply is an error when its error text is not empty; \<open>None\<close> is text that cannot be read.\<close>

definition parse_raft_reply :: "(rstring \<Rightarrow> 'r option) \<Rightarrow> (rstring \<Rightarrow> unit option) \<Rightarrow> raft_reply \<Rightarrow> (unit + 'r) option" where
  "parse_raft_reply of_json err_of_json reply =
    (if rr_error reply \<noteq> [] then map_option (\<lambda>e. Inl ()) (err_of_json (rr_error reply))
     else map_option Inr (of_json (rr_data reply)))"

definition parse_grpc_resp ::
  "(rstring \<Rightarrow> 'r option) \<Rightarrow> (rstring \<Rightarrow> unit option) \<Rightarrow> grpc_code + raft_reply \<Rightarrow> rpc_error + 'r" where
  "parse_grpc_resp of_json err_of_json grpc_res =
    (case grpc_res of
       Inl e \<Rightarrow> Inl Unreachable
     | Inr reply \<Rightarrow>
         (case parse_raft_reply of_json err_of_json reply of
            None \<Rightarrow> Inl NetworkFailure
          | Some (Inl e) \<Rightarrow> Inl Unreachable
          | Some (Inr r) \<Rightarrow> Inr r))"

section \<open>Connecting\<close>

record ('c, 'w) network =
  nw_target :: u64
  nw_endpoint :: endpoint
  nw_client :: "'c option"
  nw_world :: 'w

definition lookup_target_address :: "('c, 'w) net_env \<Rightarrow> ('c, 'w) network \<Rightarrow> endpoint option" where
  "lookup_target_address X nw = map_option node_endpoint (sm_nodes X (nw_world nw) (nw_target nw))"

fun connect_loop :: "('c, 'w) net_env \<Rightarrow> nat \<Rightarrow> ('c, 'w) network \<Rightarrow> (rpc_error + 'c) \<times> ('c, 'w) network" where
  "connect_loop X 0 nw = (Inl Unreachable, nw)"
| "connect_loop X (Suc n) nw =
    (case lookup_target_address X nw of
       None \<Rightarrow> (Inl Unreachable, nw)
     | Some e \<Rightarrow>
         (let address = ascii ''http://'' @ endpoint_display e; (res, w) = grpc_connect X (nw_world nw) address;
              nw1 = nw\<lparr>nw_endpoint := e, nw_world := w\<rparr> in
          case res of
            Some c \<Rightarrow> (Inr c, nw1)
          | None \<Rightarrow> connect_loop X n nw1))"

definition take_client :: "('c, 'w) net_env \<Rightarrow> ('c, 'w) network \<Rightarrow> (rpc_error + 'c) \<times> ('c, 'w) network" where
  "take_client X nw =
    (case nw_client nw of
       Some c \<Rightarrow> (Inr c, nw\<lparr>nw_client := None\<rparr>)
     | None \<Rightarrow> connect_loop X 3 nw)"

section \<open>Appending\<close>

definition build_partial_append_request :: "append_request \<Rightarrow> nat \<Rightarrow> append_request" where
  "build_partial_append_request original n =
    \<lparr>ar_vote = ar_vote original, ar_prev_log_id = ar_prev_log_id original,
     ar_entries = take n (ar_entries original), ar_leader_commit = ar_leader_commit original\<rparr>"

definition try_reduce_entries :: "nat \<Rightarrow> nat option" where
  "try_reduce_entries current = (if current \<le> 1 then None else Some (current div 2))"

text \<open>\<open>limit\<close> is the advisory size of a message in bytes.\<close>

function append_loop ::
  "('c, 'w) net_env \<Rightarrow> nat \<Rightarrow> append_request \<Rightarrow> nat \<Rightarrow> ('c, 'w) network \<Rightarrow> (rpc_error + append_response) \<times> ('c, 'w) network" where
  "append_loop X limit rpc n nw =
    (let partial_rpc = build_partial_append_request rpc n in
     case json_of_append X partial_rpc of
       None \<Rightarrow> (Inl Unreachable, nw)
     | Some data \<Rightarrow>
         if limit < utf8_len data then
           (case try_reduce_entries n of
              Some m \<Rightarrow> append_loop X limit rpc m nw
            | None \<Rightarrow> (Inl Unreachable, nw))
         else
           (case take_client X nw of
              (Inl e, nw1) \<Rightarrow> (Inl e, nw1)
            | (Inr c, nw1) \<Rightarrow>
                (case call_append_entries X (nw_world nw1) c data of
                   (Inr reply, w) \<Rightarrow>
                     let nw2 = nw1\<lparr>nw_client := Some c, nw_world := w\<rparr> in
                     if n < length (ar_entries rpc)
                     then (Inr (PartialSuccess (if ar_entries partial_rpc = [] then None
                         else Some (entry_log_id (last (ar_entries partial_rpc))))), nw2)
                     else (parse_grpc_resp (append_of_json X) (raft_error_of_json X) (Inr reply), nw2)
                 | (Inl code, w) \<Rightarrow>
                     if code = ResourceExhausted then
                       (case try_reduce_entries n of
                          Some m \<Rightarrow> append_loop X limit rpc m (nw1\<lparr>nw_world := w\<rparr>)
                        | None \<Rightarrow> (Inl Unreachable, nw1\<lparr>nw_world := w\<rparr>))
                     else (parse_grpc_resp (append_of_json X) (raft_error_of_json X) (Inl code), nw1\<lparr>nw_world := w\<rparr>))))"
  by pat_completeness auto
termination
  by (relation "measure (\<lambda>(X, limit, rpc, n, nw). n)") (auto simp: try_reduce_entries_def split: if_splits)

declare append_loop.simps [simp del]

definition append_entries ::
  "('c, 'w) net_env \<Rightarrow> nat \<Rightarrow> append_request \<Rightarrow> ('c, 'w) network \<Rightarrow> (rpc_error + append_response) \<times> ('c, 'w) network" where
  "append_entries X limit rpc nw = append_loop X limit rpc (length (ar_entries rpc)) nw"

text \<open>
  The requests of the streamed append for one request; \<open>encoded_len\<close> is the size that protobuf computes.
  \<open>None\<close> is the panic of an entry without a protobuf form.
\<close>

definition split_append_request_v002 :: "(pb_append_request \<Rightarrow> nat) \<Rightarrow> append_request \<Rightarrow> nat \<Rightarrow> pb_append_request list option" where
  "split_append_request_v002 encoded_len req advisory_message_size =
    (case append_request_to_pb req of
       None \<Rightarrow> None
     | Some full \<Rightarrow>
         if \<not> (ar_entries req \<noteq> [] \<and> advisory_message_size < encoded_len full) then Some [full]
         else ocollect (map (\<lambda>i.
           append_request_to_pb
             \<lparr>ar_vote = ar_vote req,
              ar_prev_log_id = (if i = 0 then ar_prev_log_id req else Some (entry_log_id (ar_entries req ! (i - 1)))),
              ar_entries = [ar_entries req ! i], ar_leader_commit = ar_leader_commit req\<rparr>)
           [0..<length (ar_entries req)]))"

text \<open>What is sent for a stream of requests when the channel takes \<open>accepts\<close> messages before it is closed.\<close>

fun send_append_requests_v002 ::
  "(pb_append_request \<Rightarrow> nat) \<Rightarrow> nat \<Rightarrow> nat \<Rightarrow> append_request list \<Rightarrow> pb_append_request list option" where
  "send_append_requests_v002 encoded_len limit accepts [] = Some []"
| "send_append_requests_v002 encoded_len limit accepts (req # rest) =
    (case split_append_request_v002 encoded_len req limit of
       None \<Rightarrow> None
     | Some requests \<Rightarrow>
         if accepts < length requests then Some (take accepts requests)
         else map_option ((@) requests) (send_append_requests_v002 encoded_len limit (accepts - length requests) rest))"

definition should_reuse_client_after_append_v002_failure :: "grpc_code \<Rightarrow> bool" where
  "should_reuse_client_after_append_v002_failure status \<longleftrightarrow> status \<noteq> Unavailable \<and> status \<noteq> UnknownCode"

section \<open>Votes and leadership\<close>

definition vote_rpc :: "('c, 'w) net_env \<Rightarrow> vote_request \<Rightarrow> ('c, 'w) network \<Rightarrow> (rpc_error + vote_response) \<times> ('c, 'w) network" where
  "vote_rpc X rpc nw =
    (case take_client X nw of
       (Inl e, nw1) \<Rightarrow> (Inl e, nw1)
     | (Inr c, nw1) \<Rightarrow>
         (case call_vote_v001 X (nw_world nw1) c (vote_request_to_pb rpc) of
            (Inr response, w) \<Rightarrow>
              (Inr (vote_response_from_pb response), nw1\<lparr>nw_client := Some c, nw_world := w\<rparr>)
          | (Inl e, w) \<Rightarrow>
              let nw2 = nw1\<lparr>nw_world := w\<rparr> in
              if \<not> (e = Unimplemented \<or> e = NotFoundCode) then (Inl Unreachable, nw2)
              else
                (case json_of_vote X rpc of
                   None \<Rightarrow> (Inl Unreachable, nw2)
                 | Some data \<Rightarrow>
                     let (grpc_res, w2) = call_vote X w c data;
                         nw3 = nw2\<lparr>nw_client := (case grpc_res of Inr _ \<Rightarrow> Some c | Inl _ \<Rightarrow> nw_client nw2), nw_world := w2\<rparr>
                     in (parse_grpc_resp (vote_of_json X) (raft_error_of_json X) grpc_res, nw3))))"

definition transfer_leader ::
  "('c, 'w) net_env \<Rightarrow> transfer_leader_request \<Rightarrow> ('c, 'w) network \<Rightarrow> (rpc_error + unit) \<times> ('c, 'w) network" where
  "transfer_leader X req nw =
    (case take_client X nw of
       (Inl e, nw1) \<Rightarrow> (Inl e, nw1)
     | (Inr c, nw1) \<Rightarrow>
         (case call_transfer_leader X (nw_world nw1) c (transfer_leader_to_pb req) of
            (Inr _, w) \<Rightarrow> (Inr (), nw1\<lparr>nw_client := Some c, nw_world := w\<rparr>)
          | (Inl e, w) \<Rightarrow> (Inl Unreachable, nw1\<lparr>nw_world := w\<rparr>)))"

end
