(* ===== verification/Network_Correct.thy ===== *)
theory Network_Correct
  imports Network
begin

text \<open>
  Properties of the raft network: what an append reports, how many requests it takes, and what the
  split of a streamed append covers.
\<close>

section \<open>Append requests\<close>

lemma connect_loop_world:
  assumes "\<And>w a. g (snd (grpc_connect X w a)) = (g w :: nat)"
  shows "g (nw_world (snd (connect_loop X n nw))) = g (nw_world nw)"
proof (induction n arbitrary: nw)
  case (Suc n)
  have "g w = g (nw_world nw)" if "grpc_connect X (nw_world nw) a = (r, w)" for a r w
    using assms [of "nw_world nw" a] that by simp
  with Suc.IH show ?case by (auto simp: Let_def split: option.splits prod.splits)
qed simp

lemma take_client_world:
  assumes "\<And>w a. g (snd (grpc_connect X w a)) = (g w :: nat)" "take_client X nw = (r, nw1)"
  shows "g (nw_world nw1) = g (nw_world nw)"
  using connect_loop_world [of g X 3 nw, OF assms(1)] assms(2) by (auto simp: take_client_def split: option.splits)

lemma try_reduce_Some: "try_reduce_entries n = Some m \<Longrightarrow> m = n div 2 \<and> 0 < m \<and> m < n"
  by (auto simp: try_reduce_entries_def split: if_splits)

text \<open>One round of the loop, by what it does.\<close>

lemma append_loop_cases:
  obtains (gave_up) e where "append_loop X limit rpc n nw = (Inl e, nw)"
  | (no_client) e nw1 where "take_client X nw = (Inl e, nw1)" "append_loop X limit rpc n nw = (Inl e, nw1)"
  | (smaller) m where "try_reduce_entries n = Some m" "append_loop X limit rpc n nw = append_loop X limit rpc m nw"
  | (replied) data c nw1 reply w where "json_of_append X (build_partial_append_request rpc n) = Some data" "utf8_len data \<le> limit"
      "take_client X nw = (Inr c, nw1)" "call_append_entries X (nw_world nw1) c data = (Inr reply, w)"
      "append_loop X limit rpc n nw =
        (if n < length (ar_entries rpc)
         then Inr (PartialSuccess (if take n (ar_entries rpc) = [] then None else Some (entry_log_id (last (take n (ar_entries rpc))))))
         else parse_grpc_resp (append_of_json X) (raft_error_of_json X) (Inr reply), nw1\<lparr>nw_client := Some c, nw_world := w\<rparr>)"
  | (retried) data c nw1 m w where "take_client X nw = (Inr c, nw1)"
      "call_append_entries X (nw_world nw1) c data = (Inl ResourceExhausted, w)" "try_reduce_entries n = Some m"
      "append_loop X limit rpc n nw = append_loop X limit rpc m (nw1\<lparr>nw_world := w\<rparr>)"
  | (refused) data c nw1 code w e where "take_client X nw = (Inr c, nw1)" "call_append_entries X (nw_world nw1) c data = (Inl code, w)"
      "append_loop X limit rpc n nw = (Inl e, nw1\<lparr>nw_world := w\<rparr>)"
proof -
  note step = append_loop.simps [of X limit rpc n nw, unfolded Let_def]
  show thesis
  proof (cases "json_of_append X (build_partial_append_request rpc n)")
    case None
    then show thesis using gave_up by (simp add: step)
  next
    case (Some data)
    show thesis
    proof (cases "limit < utf8_len data")
      case True
      then show thesis using gave_up smaller Some by (cases "try_reduce_entries n") (simp_all add: step)
    next
      case False
      obtain r nw1 where t: "take_client X nw = (r, nw1)" by fastforce
      show thesis
      proof (cases r)
        case (Inl e)
        then show thesis using no_client False Some t by (simp add: step)
      next
        case (Inr c)
        obtain r2 w where c: "call_append_entries X (nw_world nw1) c data = (r2, w)" by fastforce
        note here = t [unfolded Inr] c
        have res: "append_loop X limit rpc n nw = (case r2 of
            Inr reply \<Rightarrow> (if n < length (ar_entries rpc)
              then Inr (PartialSuccess (if take n (ar_entries rpc) = [] then None else Some (entry_log_id (last (take n (ar_entries rpc))))))
              else parse_grpc_resp (append_of_json X) (raft_error_of_json X) (Inr reply), nw1\<lparr>nw_client := Some c, nw_world := w\<rparr>)
          | Inl code \<Rightarrow> if code = ResourceExhausted then
              (case try_reduce_entries n of
                 Some m \<Rightarrow> append_loop X limit rpc m (nw1\<lparr>nw_world := w\<rparr>)
               | None \<Rightarrow> (Inl Unreachable, nw1\<lparr>nw_world := w\<rparr>))
              else (Inl Unreachable, nw1\<lparr>nw_world := w\<rparr>))"
          using False Some here
          by (simp add: step build_partial_append_request_def parse_grpc_resp_def split: sum.splits)
        show thesis
        proof (cases r2)
          case (Inr reply)
          show thesis
            by (rule replied [OF Some _ here(1) here(2) [unfolded Inr]]) (use False res Inr in simp_all)
        next
          case (Inl code)
          show thesis
          proof (cases "code = ResourceExhausted \<and> try_reduce_entries n \<noteq> None")
            case True
            then obtain m where m: "try_reduce_entries n = Some m" by blast
            show thesis
              by (rule retried [OF here(1) _ m]) (use here(2) Inl True res m in simp_all)
          next
            case False
            then have "append_loop X limit rpc n nw = (Inl Unreachable, nw1\<lparr>nw_world := w\<rparr>)"
              using res Inl by (auto split: option.splits)
            then show thesis by (rule refused [OF here(1) here(2) [unfolded Inl]])
          qed
        qed
      qed
    qed
  qed
qed

lemma append_loop_calls:
  assumes calls: "\<And>w c d. g (snd (call_append_entries X w c d)) = Suc (g w)" and conn: "\<And>w a. g (snd (grpc_connect X w a)) = g w"
  shows "\<exists>q. g (nw_world (snd (append_loop X limit rpc n nw))) = g (nw_world nw) + q \<and> 2 ^ q \<le> 2 * max 1 n"
proof (induction n arbitrary: nw rule: less_induct)
  case (less n)
  have shorter: "\<exists>q. g (nw_world (snd (append_loop X limit rpc m nw'))) = g (nw_world nw') + q \<and> 2 * 2 ^ q \<le> 2 * max 1 n"
    if "try_reduce_entries n = Some m" for m nw'
  proof -
    have m: "m = n div 2" "0 < m" "m < n" using try_reduce_Some [OF that] by simp_all
    then obtain q where "g (nw_world (snd (append_loop X limit rpc m nw'))) = g (nw_world nw') + q" "2 ^ q \<le> 2 * m"
      using less.IH [OF m(3), of nw'] by (auto simp: max_def split: if_splits)
    moreover have "2 * m \<le> max 1 n" using m(1) by simp
    ultimately show ?thesis by (intro exI [of _ q]) simp
  qed
  have called: "g w' = Suc (g w)" if "call_append_entries X w c d = (r, w')" for w c d r w'
    using calls [of w c d] that by simp
  have one: "\<exists>q. g x = g y + q \<and> 2 ^ q \<le> 2 * max 1 n" if "g x = g y \<or> g x = Suc (g y)" for x y
    using that by (auto intro: exI [of _ 0] exI [of _ 1])
  note taken = take_client_world [of g X, OF conn]
  show ?case
  proof (cases rule: append_loop_cases [of X limit rpc n nw])
    case (smaller m)
    then show ?thesis using shorter [OF smaller(1), of nw] by fastforce
  next
    case (retried data c nw1 m w)
    obtain q where "g (nw_world (snd (append_loop X limit rpc m (nw1\<lparr>nw_world := w\<rparr>)))) = g w + q" "2 * 2 ^ q \<le> 2 * max 1 n"
      using shorter [OF retried(3), of "nw1\<lparr>nw_world := w\<rparr>"] by auto
    then show ?thesis using taken [OF retried(1)] called [OF retried(2)] retried(4) by (intro exI [of _ "Suc q"]) simp
  qed (use taken called in \<open>auto intro!: one\<close>)
qed

lemma append_loop_outcome:
  assumes "n \<le> length (ar_entries rpc)" "n = length (ar_entries rpc) \<or> 0 < n" "append_loop X limit rpc n nw = (Inr resp, nw')"
  shows "\<exists>j c data reply w. let k = n div 2 ^ j in
    (k = length (ar_entries rpc) \<or> 0 < k) \<and>
    json_of_append X (build_partial_append_request rpc k) = Some data \<and> utf8_len data \<le> limit \<and>
    call_append_entries X w c data = (Inr reply, nw_world nw') \<and> nw_client nw' = Some c \<and>
    (if k < length (ar_entries rpc) then resp = PartialSuccess (Some (entry_log_id (ar_entries rpc ! (k - 1))))
     else parse_grpc_resp (append_of_json X) (raft_error_of_json X) (Inr reply) = Inr resp)"
  using assms
proof (induction n arbitrary: nw rule: less_induct)
  case (less n)
  have shorter: ?case if r: "try_reduce_entries n = Some m" "append_loop X limit rpc m nw1 = (Inr resp, nw')" for m nw1
  proof -
    have m: "m = n div 2" "0 < m" "m < n" using try_reduce_Some [OF r(1)] by simp_all
    from less.IH [OF m(3) _ _ r(2)] m less.prems(1) obtain j c data reply w where
      "let k = m div 2 ^ j in
        (k = length (ar_entries rpc) \<or> 0 < k) \<and>
        json_of_append X (build_partial_append_request rpc k) = Some data \<and> utf8_len data \<le> limit \<and>
        call_append_entries X w c data = (Inr reply, nw_world nw') \<and> nw_client nw' = Some c \<and>
        (if k < length (ar_entries rpc) then resp = PartialSuccess (Some (entry_log_id (ar_entries rpc ! (k - 1))))
         else parse_grpc_resp (append_of_json X) (raft_error_of_json X) (Inr reply) = Inr resp)"
      by auto
    moreover have "m div 2 ^ j = n div 2 ^ Suc j" using m(1) by (simp add: div_mult2_eq)
    ultimately show ?thesis by (intro exI [of _ "Suc j"] exI [of _ c] exI [of _ data] exI [of _ reply] exI [of _ w]) simp
  qed
  show ?case
  proof (cases rule: append_loop_cases [of X limit rpc n nw])
    case (replied data c nw1 reply w)
    have l: "last (take n (ar_entries rpc)) = ar_entries rpc ! (n - 1)" if "n < length (ar_entries rpc)" "0 < n"
      using that by (subst last_conv_nth) auto
    show ?thesis
      using replied less.prems l
      by (intro exI [of _ 0] exI [of _ c] exI [of _ data] exI [of _ reply] exI [of _ "nw_world nw1"])
        (auto simp: Let_def split: if_splits)
  qed (use shorter less.prems(3) in auto)
qed

text \<open>
  C17: An append of \<open>n\<close> entries always ends, after at most \<open>1 + log2 n\<close> requests (\<open>g\<close> counts the
  requests that were sent).
\<close>

theorem append_entries_calls:
  assumes "\<And>w c d. g (snd (call_append_entries X w c d)) = Suc (g w)" "\<And>w a. g (snd (grpc_connect X w a)) = g w"
  shows "\<exists>q. g (nw_world (snd (append_entries X limit rpc nw))) = g (nw_world nw) + q \<and> 2 ^ q \<le> 2 * max 1 (length (ar_entries rpc))"
  using append_loop_calls [of g, OF assms] by (simp add: append_entries_def)

text \<open>
  C16: When an append reports success, the last request that was sent fits the size limit and holds
  the first \<open>n div 2 ^ j\<close> of the \<open>n\<close> entries, at least one unless there are none.  With all entries
  the report is the reply of the peer.  With fewer it is partial success up to the last entry that
  was sent, whatever the reply of the peer says.
\<close>

theorem append_entries_outcome:
  assumes "append_entries X limit rpc nw = (Inr resp, nw')"
  shows "\<exists>j c data reply w. let k = length (ar_entries rpc) div 2 ^ j in
    (k = length (ar_entries rpc) \<or> 0 < k) \<and>
    json_of_append X (build_partial_append_request rpc k) = Some data \<and> utf8_len data \<le> limit \<and>
    call_append_entries X w c data = (Inr reply, nw_world nw') \<and> nw_client nw' = Some c \<and>
    (if k < length (ar_entries rpc) then resp = PartialSuccess (Some (entry_log_id (ar_entries rpc ! (k - 1))))
     else parse_grpc_resp (append_of_json X) (raft_error_of_json X) (Inr reply) = Inr resp)"
  using append_loop_outcome [of "length (ar_entries rpc)" rpc X limit nw resp nw'] assms by (simp add: append_entries_def)

text \<open>
  A peer in memory: a request has one character per entry, the world counts the requests, and the
  peer answers every request with a higher vote.
\<close>

definition ndemo_vote :: vote where
  "ndemo_vote = \<lparr>vote_term = 9, vote_node_id = 2, vote_committed = True\<rparr>"

definition ndemo_env :: "(unit, nat) net_env" where
  "ndemo_env =
    \<lparr>sm_nodes = (\<lambda>w i. None), grpc_connect = (\<lambda>w a. (None, w)),
     json_of_append = (\<lambda>r. Some (map (\<lambda>e. 97) (ar_entries r))), append_of_json = (\<lambda>j. Some (HigherVote ndemo_vote)),
     json_of_vote = (\<lambda>r. None), vote_of_json = (\<lambda>j. None), raft_error_of_json = (\<lambda>j. None),
     call_append_entries = (\<lambda>w c d. (Inr \<lparr>rr_data = [97], rr_error = []\<rparr>, Suc w)),
     call_vote = (\<lambda>w c d. (Inl OtherCode, w)), call_vote_v001 = (\<lambda>w c r. (Inl OtherCode, w)),
     call_transfer_leader = (\<lambda>w c r. (Inl OtherCode, w))\<rparr>"

definition ndemo_entry :: "u64 \<Rightarrow> entry" where
  "ndemo_entry i = \<lparr>entry_log_id = new_log_id 1 1 i, entry_payload = Blank\<rparr>"

definition ndemo_rpc :: append_request where
  "ndemo_rpc = \<lparr>ar_vote = ndemo_vote\<lparr>vote_term := 1\<rparr>, ar_prev_log_id = None,
    ar_entries = [ndemo_entry 1, ndemo_entry 2, ndemo_entry 3, ndemo_entry 4], ar_leader_commit = None\<rparr>"

definition ndemo_network :: "(unit, nat) network" where
  "ndemo_network = \<lparr>nw_target = 2, nw_endpoint = endpoint_new [] 0, nw_client = Some (), nw_world = 0\<rparr>"

lemma ndemo_append: "append_entries ndemo_env limit ndemo_rpc ndemo_network =
    (if limit < 1 then (Inl Unreachable, ndemo_network)
     else (Inr (if limit < 2 then PartialSuccess (Some (new_log_id 1 1 1))
       else if limit < 4 then PartialSuccess (Some (new_log_id 1 1 2)) else HigherVote ndemo_vote), ndemo_network\<lparr>nw_world := 1\<rparr>))"
proof -
  have step: "append_loop ndemo_env limit ndemo_rpc n ndemo_network =
    (if limit < n then case try_reduce_entries n of Some m \<Rightarrow> append_loop ndemo_env limit ndemo_rpc m ndemo_network | None \<Rightarrow> (Inl Unreachable, ndemo_network)
     else (Inr (if n < 4 then PartialSuccess (Some (new_log_id 1 1 (word_of_nat n))) else HigherVote ndemo_vote), ndemo_network\<lparr>nw_world := 1\<rparr>))"
    if "n \<in> {1, 2, 4}" for n
  proof -
    have len: "utf8_len (map (\<lambda>e. 97) xs) = length xs" for xs :: "entry list"
      by (induction xs) (simp_all add: utf8_len_def utf8_width_def)
    have env: "json_of_append ndemo_env r = Some (map (\<lambda>e. 97) (ar_entries r))" "take_client ndemo_env ndemo_network = (Inr (), ndemo_network\<lparr>nw_client := None\<rparr>)"
      "call_append_entries ndemo_env w c d = (Inr \<lparr>rr_data = [97], rr_error = []\<rparr>, Suc w)"
      "parse_grpc_resp (append_of_json ndemo_env) (raft_error_of_json ndemo_env) (Inr \<lparr>rr_data = [97], rr_error = []\<rparr>) = Inr (HigherVote ndemo_vote)"
      "ndemo_network\<lparr>nw_client := Some (), nw_world := w\<rparr> = ndemo_network\<lparr>nw_world := w\<rparr>" "nw_world ndemo_network = 0" for r w c d
      by (simp_all add: ndemo_env_def take_client_def ndemo_network_def parse_grpc_resp_def parse_raft_reply_def)
    have rpc: "ar_entries ndemo_rpc = [ndemo_entry 1, ndemo_entry 2, ndemo_entry 3, ndemo_entry 4]" by (simp add: ndemo_rpc_def)
    from that show ?thesis
      by (subst append_loop.simps) (auto simp: build_partial_append_request_def len rpc env ndemo_entry_def numeral_2_eq_2 [symmetric] Let_def)
  qed
  have "length (ar_entries ndemo_rpc) = 4" by (simp add: ndemo_rpc_def)
  then show ?thesis using step [of 4] step [of 2] step [of 1]
    by (auto simp: append_entries_def try_reduce_entries_def)
qed

theorem append_entries_calls_witness:
  "(\<forall>w c d. snd (call_append_entries ndemo_env w c d) = Suc w) \<and> (\<forall>w a. snd (grpc_connect ndemo_env w a) = w) \<and>
   (\<exists>q. nw_world (snd (append_entries ndemo_env 2 ndemo_rpc ndemo_network)) = nw_world ndemo_network + q \<and> 2 ^ q \<le> (8 :: nat))"
proof -
  have env: "snd (call_append_entries ndemo_env w c d) = Suc w" "snd (grpc_connect ndemo_env w a) = w" for w c d a
    by (simp_all add: ndemo_env_def)
  with append_entries_calls [of "\<lambda>w. w" ndemo_env 2 ndemo_rpc ndemo_network] show ?thesis by (simp add: ndemo_rpc_def)
qed

theorem append_entries_outcome_witness:
  "append_entries ndemo_env 2 ndemo_rpc ndemo_network =
     (Inr (PartialSuccess (Some (new_log_id 1 1 2))), ndemo_network\<lparr>nw_world := 1\<rparr>) \<and>
   append_of_json ndemo_env [97] = Some (HigherVote ndemo_vote) \<and>
   (\<exists>j data. json_of_append ndemo_env (build_partial_append_request ndemo_rpc (4 div 2 ^ j)) = Some data \<and> utf8_len data \<le> 2)"
proof -
  have r: "append_entries ndemo_env 2 ndemo_rpc ndemo_network =
     (Inr (PartialSuccess (Some (new_log_id 1 1 2))), ndemo_network\<lparr>nw_world := 1\<rparr>)"
    by (simp add: ndemo_append)
  have "length (ar_entries ndemo_rpc) = 4" "append_of_json ndemo_env [97] = Some (HigherVote ndemo_vote)"
    by (simp_all add: ndemo_rpc_def ndemo_env_def)
  with append_entries_outcome [OF r] r show ?thesis by (auto simp: Let_def)
qed

section \<open>Streamed appends\<close>

text \<open>Requests that follow one another: each begins after the last entry of the one before.\<close>

fun chained :: "pb_log_id option \<Rightarrow> pb_append_request list \<Rightarrow> bool" where
  "chained p [] \<longleftrightarrow> True"
| "chained p (r # rs) \<longleftrightarrow> par_prev_log_id r = p \<and> chained (if par_entries r = [] then p else ple_log_id (last (par_entries r))) rs"

lemma entry_to_pb_log_id: "entry_to_pb e = Some p \<Longrightarrow> ple_log_id p = Some (log_id_to_pb (entry_log_id e))"
  by (auto simp: entry_to_pb_def Let_def split: entry_payload.splits option.splits)

lemma chained_nth:
  assumes "\<And>i. i < length rs \<Longrightarrow> par_entries (rs ! i) = [ps ! i]" "length ps = length rs"
    and "\<And>i. i < length rs \<Longrightarrow> par_prev_log_id (rs ! i) = (if i = 0 then p else ple_log_id (ps ! (i - 1)))"
  shows "chained p rs \<and> concat (map par_entries rs) = ps"
  using assms
proof (induction rs arbitrary: p ps)
  case (Cons r rs)
  obtain q qs where ps: "ps = q # qs" using Cons.prems(2) by (cases ps) auto
  have r: "par_entries r = [q]" "par_prev_log_id r = p" using Cons.prems(1,3) [of 0] ps by simp_all
  have "chained (ple_log_id q) rs \<and> concat (map par_entries rs) = qs"
    by (rule Cons.IH) (use Cons.prems(1,3) [of "Suc _"] Cons.prems(2) ps in \<open>auto simp: nth_Cons split: nat.splits\<close>)
  with r ps show ?case by simp
qed simp

lemma ocollect_single:
  assumes "ocollect (map f xs) = Some ps" "length xs = n"
  shows "length ps = n" "i < n \<Longrightarrow> f (xs ! i) = Some (ps ! i)"
  using ocollect_Some_nth [OF assms(1)] assms(2) by auto

definition single_append :: "append_request \<Rightarrow> nat \<Rightarrow> append_request" where
  "single_append req i =
    \<lparr>ar_vote = ar_vote req,
     ar_prev_log_id = (if i = 0 then ar_prev_log_id req else Some (entry_log_id (ar_entries req ! (i - 1)))),
     ar_entries = [ar_entries req ! i], ar_leader_commit = ar_leader_commit req\<rparr>"

lemma split_many:
  assumes "append_request_to_pb req = Some full"
  obtains rs where "ocollect (map (\<lambda>i. append_request_to_pb (single_append req i)) [0..<length (ar_entries req)]) = Some rs"
    "length rs = length (ar_entries req)" "chained (par_prev_log_id full) rs" "concat (map par_entries rs) = par_entries full"
    "\<And>r. r \<in> set rs \<Longrightarrow> par_vote r = par_vote full \<and> par_leader_commit r = par_leader_commit full \<and> length (par_entries r) = 1"
proof -
  let ?n = "length (ar_entries req)"
  obtain ps where full: "ocollect (map entry_to_pb (ar_entries req)) = Some ps"
    "full = \<lparr>par_vote = Some (vote_to_pb (ar_vote req)), par_prev_log_id = map_option log_id_to_pb (ar_prev_log_id req),
      par_entries = ps, par_leader_commit = map_option log_id_to_pb (ar_leader_commit req)\<rparr>"
    using assms by (auto simp: append_request_to_pb_def split: option.splits)
  note e = ocollect_single [OF full(1) refl]
  define r where "r = (\<lambda>i. full\<lparr>par_prev_log_id := (if i = 0 then par_prev_log_id full else ple_log_id (ps ! (i - 1))), par_entries := [ps ! i]\<rparr>)"
  have "append_request_to_pb (single_append req i) = Some (r i)" if "i \<in> set [0..<?n]" for i
    using that e(2) [of i] e(2) [of "i - 1"] entry_to_pb_log_id [of "ar_entries req ! (i - 1)" "ps ! (i - 1)"]
    by (auto simp: append_request_to_pb_def single_append_def r_def full(2))
  then have all: "ocollect (map (\<lambda>i. append_request_to_pb (single_append req i)) [0..<?n]) = Some (map r [0..<?n])"
    by (rule ocollect_map_Some)
  have chain: "chained (par_prev_log_id full) (map r [0..<?n]) \<and> concat (map par_entries (map r [0..<?n])) = ps"
    by (rule chained_nth) (use e(1) in \<open>auto simp: r_def\<close>)
  have parts: "par_vote q = par_vote full \<and> par_leader_commit q = par_leader_commit full \<and> length (par_entries q) = 1"
    if "q \<in> set (map r [0..<?n])" for q
    using that by (auto simp: r_def)
  show thesis by (rule that [OF all _ _ _ parts]) (use chain full(2) in simp_all)
qed

text \<open>
  C19: The requests of a streamed append cover the request they are made from: together they carry
  its entries in order, each with the vote and the commit position, and each begins after the last
  entry of the one before.  A request above the size limit carries at most one entry.  Splitting
  fails only when the request itself has no protobuf form.
\<close>

theorem split_append_exact:
  "case split_append_request_v002 encoded_len req limit of
     None \<Rightarrow> append_request_to_pb req = None
   | Some rs \<Rightarrow> \<exists>full. append_request_to_pb req = Some full \<and> rs \<noteq> [] \<and> chained (par_prev_log_id full) rs \<and>
       concat (map par_entries rs) = par_entries full \<and>
       (\<forall>r \<in> set rs. par_vote r = par_vote full \<and> par_leader_commit r = par_leader_commit full \<and>
         (limit < encoded_len r \<longrightarrow> length (par_entries r) \<le> 1))"
proof (cases "append_request_to_pb req")
  case None
  then show ?thesis by (simp add: split_append_request_v002_def)
next
  case (Some full)
  obtain rs where rs: "ocollect (map (\<lambda>i. append_request_to_pb (single_append req i)) [0..<length (ar_entries req)]) = Some rs"
    "length rs = length (ar_entries req)" "chained (par_prev_log_id full) rs" "concat (map par_entries rs) = par_entries full"
    "\<And>r. r \<in> set rs \<Longrightarrow> par_vote r = par_vote full \<and> par_leader_commit r = par_leader_commit full \<and> length (par_entries r) = 1"
    using split_many [OF Some] by blast
  show ?thesis
  proof (cases "ar_entries req \<noteq> [] \<and> limit < encoded_len full")
    case True
    then have "split_append_request_v002 encoded_len req limit = Some rs"
      using Some rs(1) by (simp add: split_append_request_v002_def single_append_def)
    moreover have "rs \<noteq> []" using True rs(2) by auto
    ultimately show ?thesis using Some rs(3-5) by simp
  next
    case False
    moreover have "par_entries full = []" if "ar_entries req = []"
      using Some that by (auto simp: append_request_to_pb_def)
    ultimately show ?thesis using Some by (auto simp: split_append_request_v002_def)
  qed
qed

theorem split_append_exact_witness:
  "\<exists>rs. split_append_request_v002 (\<lambda>r. length (par_entries r)) ndemo_rpc 2 = Some rs \<and> length rs = 4 \<and> chained None rs \<and>
    length (concat (map par_entries rs)) = 4"
proof -
  have "append_request_to_pb ndemo_rpc \<noteq> None"
    by (simp add: append_request_to_pb_def ndemo_rpc_def ndemo_entry_def entry_to_pb_def)
  with split_append_exact [where encoded_len = "\<lambda>r. length (par_entries r)" and req = ndemo_rpc and limit = 2] obtain rs full where
    rs: "split_append_request_v002 (\<lambda>r. length (par_entries r)) ndemo_rpc 2 = Some rs" "append_request_to_pb ndemo_rpc = Some full"
    "chained (par_prev_log_id full) rs" "concat (map par_entries rs) = par_entries full"
    by (auto split: option.splits)
  have full: "par_prev_log_id full = None" "length (par_entries full) = 4"
    using rs(2) by (auto simp: append_request_to_pb_def ndemo_rpc_def ndemo_entry_def entry_to_pb_def)
  have "length rs = 4"
    using rs(1) by (auto simp: split_append_request_v002_def append_request_to_pb_def ndemo_rpc_def ndemo_entry_def entry_to_pb_def upt_rec)
  with rs full show ?thesis by simp
qed

end
