(* ===== verification/Levels.thy ===== *)
theory Levels
  imports Sm_Api
begin

text \<open>
  The in-memory levels of the store (\<open>leveled_store/level\<close>, \<open>level_index.rs\<close>, \<open>immutable\<close>,
  \<open>immutable_levels\<close>): a level holds a complete copy of the system data and two tables of
  versions, one for user keys and one for the expiration index; immutable levels are kept in the
  order of their indexes and are read from the newest to the oldest, compacted pairwise or all
  at once.

  The table of versions (\<open>map_api::mvcc::Table\<close>) and the merging of sorted streams
  (\<open>stream_more::KMerge\<close> with \<open>map_api::util\<close>) are library code.  Their functions are fields of the
  record \<open>table_lib\<close>, one for each key type, and \<open>table_ok\<close> states what they are documented to
  do, in terms of the set \<open>V t k\<close> of the versions that table \<open>t\<close> holds of key \<open>k\<close>.
\<close>

section \<open>Library functions on tables of versions\<close>

record ('t, 'k, 'v) table_lib =
  t_default :: 't
  t_len :: "'t \<Rightarrow> u64"
  t_get :: "'t \<Rightarrow> 'k \<Rightarrow> u64 \<Rightarrow> 'v seq_marked"
  t_range :: "'t \<Rightarrow> 'k bound \<times> 'k bound \<Rightarrow> u64 \<Rightarrow> ('k \<times> 'v seq_marked) list"
  t_compact :: "'t \<Rightarrow> 't \<Rightarrow> u64 \<Rightarrow> 't"
  t_from_stream :: "('k \<times> 'v seq_marked) strm \<Rightarrow> 't io_result"
  t_apply_changes :: "'t \<Rightarrow> u64 \<Rightarrow> (('k \<times> unit seq_marked) \<times> 'v option) list \<Rightarrow> 't"
  t_kmerge :: "('k \<times> 'v seq_marked) strm list \<Rightarrow> ('k \<times> 'v seq_marked) strm"
  t_coalesce :: "('k \<times> 'v seq_marked) strm \<Rightarrow> ('k \<times> 'v seq_marked) strm"
  t_not_found :: "'v seq_marked"
  t_is_not_found :: "'v seq_marked \<Rightarrow> bool"

section \<open>A level\<close>

definition sys_data_default :: sys_data where
  "sys_data_default =
    \<lparr>last_applied = None,
     last_membership = \<lparr>sm_log_id = None, sm_membership = \<lparr>joint_config = [], member_nodes = []\<rparr>\<rparr>,
     nodes = Map.empty, sequence = 0, data_seq = None, key_counts = Map.empty, sm_features = {}\<rparr>"

record ('a, 'b) level =
  lv_sys_data :: sys_data
  lv_kv :: 'a
  lv_expire :: 'b

type_synonym 'a user_lib = "('a, rstring, meta_value) table_lib"

type_synonym 'b expire_lib = "('b, expire_key, rstring) table_lib"

definition level_default :: "'a user_lib \<Rightarrow> 'b expire_lib \<Rightarrow> ('a, 'b) level" where
  "level_default A B = \<lparr>lv_sys_data = sys_data_default, lv_kv = t_default A, lv_expire = t_default B\<rparr>"

definition new_level :: "'a user_lib \<Rightarrow> 'b expire_lib \<Rightarrow> ('a, 'b) level \<Rightarrow> ('a, 'b) level" where
  "new_level A B l =
    \<lparr>lv_sys_data = snd (incr_data_seq (lv_sys_data l)), lv_kv = t_default A, lv_expire = t_default B\<rparr>"

datatype level_index = LevelIndex (li_seq: u64) (li_uniq: u64)

definition level_index_default :: level_index where
  "level_index_default = LevelIndex 0 0"

instantiation level_index :: linorder
begin

definition less_eq_level_index :: "level_index \<Rightarrow> level_index \<Rightarrow> bool" where
  "a \<le> b \<longleftrightarrow> li_seq a < li_seq b \<or> li_seq a = li_seq b \<and> li_uniq a \<le> li_uniq b"

definition less_level_index :: "level_index \<Rightarrow> level_index \<Rightarrow> bool" where
  "a < b \<longleftrightarrow> li_seq a < li_seq b \<or> li_seq a = li_seq b \<and> li_uniq a < li_uniq b"

instance
  by standard (auto simp: less_eq_level_index_def less_level_index_def intro: level_index.expand)

end

record level_stat =
  ls_index :: "level_index option"
  user_count :: u64
  expire_count :: u64

definition stat_with_index :: "level_stat \<Rightarrow> level_index \<Rightarrow> level_stat" where
  "stat_with_index s i = s\<lparr>ls_index := Some i\<rparr>"

definition stat_of_level :: "'a user_lib \<Rightarrow> 'b expire_lib \<Rightarrow> ('a, 'b) level \<Rightarrow> level_stat" where
  "stat_of_level A B l =
    \<lparr>ls_index = None, user_count = t_len A (lv_kv l), expire_count = t_len B (lv_expire l)\<rparr>"

definition level_compact ::
  "'a user_lib \<Rightarrow> 'b expire_lib \<Rightarrow> ('a, 'b) level \<Rightarrow> ('a, 'b) level \<Rightarrow> u64 \<Rightarrow> ('a, 'b) level" where
  "level_compact A B l other min_snapshot_seq =
    \<lparr>lv_sys_data =
       (if curr_seq (lv_sys_data other) < curr_seq (lv_sys_data l) then lv_sys_data l
        else lv_sys_data other),
     lv_kv = t_compact A (lv_kv l) (lv_kv other) min_snapshot_seq,
     lv_expire = t_compact B (lv_expire l) (lv_expire other) min_snapshot_seq\<rparr>"

section \<open>An immutable level\<close>

record ('a, 'b) immutable =
  im_index :: level_index
  im_level :: "('a, 'b) level"

text \<open>The first argument is the static counter that makes indexes unique in the process.\<close>

definition immutable_new :: "u64 \<Rightarrow> ('a, 'b) level \<Rightarrow> ('a, 'b) immutable \<times> u64" where
  "immutable_new n l =
    (\<lparr>im_index = LevelIndex (curr_seq (lv_sys_data l)) n, im_level = l\<rparr>, n + 1)"

definition new_with_index :: "('a, 'b) level \<Rightarrow> level_index \<Rightarrow> ('a, 'b) immutable" where
  "new_with_index l i = \<lparr>im_index = i, im_level = l\<rparr>"

definition size_of :: "'a user_lib \<Rightarrow> 'b expire_lib \<Rightarrow> ('a, 'b) immutable \<Rightarrow> u64" where
  "size_of A B im = t_len A (lv_kv (im_level im)) + t_len B (lv_expire (im_level im))"

definition immutable_compact ::
  "'a user_lib \<Rightarrow> 'b expire_lib \<Rightarrow> ('a, 'b) immutable \<Rightarrow> ('a, 'b) immutable \<Rightarrow> u64 \<Rightarrow> ('a, 'b) immutable" where
  "immutable_compact A B im other min_snapshot_seq =
    new_with_index (level_compact A B (im_level im) (im_level other) min_snapshot_seq)
      (if im_index other < im_index im then im_index im else im_index other)"

text \<open>
  Reads are generic in the key type.  \<open>T\<close> is the library of the key type and \<open>sub\<close> selects the
  table of a level (\<open>GetSubTable\<close>).
\<close>

definition immutable_get ::
  "('t, 'k, 'v) table_lib \<Rightarrow> (('a, 'b) level \<Rightarrow> 't) \<Rightarrow> ('a, 'b) immutable \<Rightarrow> 'k \<Rightarrow> u64 \<Rightarrow> 'v seq_marked" where
  "immutable_get T sub im k s = t_get T (sub (im_level im)) k s"

definition immutable_range ::
  "('t, 'k, 'v) table_lib \<Rightarrow> (('a, 'b) level \<Rightarrow> 't) \<Rightarrow> ('a, 'b) immutable \<Rightarrow> 'k bound \<times> 'k bound \<Rightarrow>
   u64 \<Rightarrow> ('k \<times> 'v seq_marked) strm" where
  "immutable_range T sub im r s = map Inr (t_range T (sub (im_level im)) r s)"

section \<open>Immutable levels\<close>

text \<open>A \<open>BTreeMap\<close> from indexes to levels: an association list in ascending order of indexes.\<close>

type_synonym ('a, 'b) immutable_levels = "(level_index \<times> ('a, 'b) immutable) list"

fun bt_insert :: "'k :: linorder \<Rightarrow> 'x \<Rightarrow> ('k \<times> 'x) list \<Rightarrow> ('k \<times> 'x) list" where
  "bt_insert k x [] = [(k, x)]"
| "bt_insert k x ((k', x') # rest) =
    (if k < k' then (k, x) # (k', x') # rest
     else if k = k' then (k, x) # rest
     else (k', x') # bt_insert k x rest)"

definition bt_remove :: "'k \<Rightarrow> ('k \<times> 'x) list \<Rightarrow> ('k \<times> 'x) list" where
  "bt_remove k m = filter (\<lambda>e. fst e \<noteq> k) m"

definition new_form_iter :: "('a, 'b) immutable list \<Rightarrow> ('a, 'b) immutable_levels" where
  "new_form_iter ims = fold (\<lambda>im m. bt_insert (im_index im) im m) ims []"

definition indexes :: "('a, 'b) immutable_levels \<Rightarrow> level_index list" where
  "indexes L = map fst L"

definition newest_to_oldest :: "('a, 'b) immutable_levels \<Rightarrow> ('a, 'b) immutable list" where
  "newest_to_oldest L = rev (map snd L)"

definition newest :: "('a, 'b) immutable_levels \<Rightarrow> ('a, 'b) immutable option" where
  "newest L = (case newest_to_oldest L of [] \<Rightarrow> None | im # rest \<Rightarrow> Some im)"

definition newest_level_index :: "('a, 'b) immutable_levels \<Rightarrow> level_index option" where
  "newest_level_index L = map_option im_index (newest L)"

definition levels_stat :: "'a user_lib \<Rightarrow> 'b expire_lib \<Rightarrow> ('a, 'b) immutable_levels \<Rightarrow> level_stat list" where
  "levels_stat A B L =
    map (\<lambda>im. stat_with_index (stat_of_level A B (im_level im)) (im_index im)) (newest_to_oldest L)"

text \<open>Panics when the new index is not greater.\<close>

definition levels_insert ::
  "('a, 'b) immutable \<Rightarrow> ('a, 'b) immutable_levels \<Rightarrow> ('a, 'b) immutable_levels io_result" where
  "levels_insert im L =
    (let new_index = im_index im;
         last_used_index = (case newest_level_index L of None \<Rightarrow> level_index_default | Some i \<Rightarrow> i)
     in
     if last_used_index < new_index \<or> new_index = level_index_default \<and> new_index = last_used_index
     then Inr (bt_insert new_index im L) else Inl Panicked)"

definition remove_levels_upto ::
  "level_index \<Rightarrow> ('a, 'b) immutable_levels \<Rightarrow> ('a, 'b) immutable_levels io_result" where
  "remove_levels_upto i L =
    (if \<not> list_ex (\<lambda>e. fst e = i) L then Inl Panicked
     else Inr (tl (dropWhile (\<lambda>e. fst e < i) L)))"

definition levels_last_seq :: "('a, 'b) immutable_levels \<Rightarrow> u64 option" where
  "levels_last_seq L = map_option (\<lambda>im. curr_seq (lv_sys_data (im_level im))) (newest L)"

fun get_newest_first ::
  "('t, 'k, 'v) table_lib \<Rightarrow> (('a, 'b) level \<Rightarrow> 't) \<Rightarrow> ('a, 'b) immutable list \<Rightarrow> 'k \<Rightarrow> u64 \<Rightarrow> 'v seq_marked" where
  "get_newest_first T sub [] k s = t_not_found T"
| "get_newest_first T sub (im # ims) k s =
    (let v = immutable_get T sub im k s
     in if \<not> t_is_not_found T v then v else get_newest_first T sub ims k s)"

definition levels_get ::
  "('t, 'k, 'v) table_lib \<Rightarrow> (('a, 'b) level \<Rightarrow> 't) \<Rightarrow> ('a, 'b) immutable_levels \<Rightarrow> 'k \<Rightarrow> u64 \<Rightarrow> 'v seq_marked" where
  "levels_get T sub L k s = get_newest_first T sub (newest_to_oldest L) k s"

definition levels_range ::
  "('t, 'k, 'v) table_lib \<Rightarrow> (('a, 'b) level \<Rightarrow> 't) \<Rightarrow> ('a, 'b) immutable_levels \<Rightarrow>
   'k bound \<times> 'k bound \<Rightarrow> u64 \<Rightarrow> ('k \<times> 'v seq_marked) strm" where
  "levels_range T sub L r s =
    t_coalesce T (t_kmerge T (map (\<lambda>im. immutable_range T sub im r s) (newest_to_oldest L)))"

section \<open>Compaction of immutable levels\<close>

text \<open>The two \<open>unwrap\<close>s panic when a table cannot be made from the stream.\<close>

definition compact_all ::
  "'a user_lib \<Rightarrow> 'b expire_lib \<Rightarrow> ('a, 'b) immutable_levels \<Rightarrow> ('a, 'b) immutable_levels io_result" where
  "compact_all A B L =
    (case newest L of
       None \<Rightarrow> Inr L
     | Some im \<Rightarrow>
         let data = new_level A B (im_level im) in
         (case t_from_stream B (levels_range B lv_expire L (Included (ExpireKey 0 0), Unbounded) u64_max) of
            Inl e \<Rightarrow> Inl Panicked
          | Inr exp \<Rightarrow>
              (case t_from_stream A (levels_range A lv_kv L (Included [], Unbounded) u64_max) of
                 Inl e \<Rightarrow> Inl Panicked
               | Inr kv \<Rightarrow>
                   Inr (new_form_iter [new_with_index (data\<lparr>lv_expire := exp, lv_kv := kv\<rparr>) (im_index im)]))))"

datatype no_compact = NotEnoughLevels | SizesTooClose

definition need_compact ::
  "'a user_lib \<Rightarrow> 'b expire_lib \<Rightarrow> ('a, 'b) immutable_levels \<Rightarrow> no_compact + unit" where
  "need_compact A B L =
    (let sizes = map (size_of A B) (newest_to_oldest L);
         min_size = (case sizes of [] \<Rightarrow> 0 | n # ns \<Rightarrow> fold min ns n);
         max_size = (case sizes of [] \<Rightarrow> 0 | n # ns \<Rightarrow> fold max ns n);
         n_levels = length L
     in
     if n_levels < 6 then Inl NotEnoughLevels
     else if 20 < n_levels then Inr ()
     else if max_size \<le> min_size * 4 then Inl SizesTooClose
     else Inr ())"

text \<open>
  The loop that looks for the two adjacent levels with the least total size: \<open>i\<close> is the position,
  the last two arguments are \<open>min_size\<close> and \<open>min_index\<close>.
\<close>

fun min_adjacent :: "u64 list \<Rightarrow> nat \<Rightarrow> u64 \<Rightarrow> nat \<Rightarrow> nat" where
  "min_adjacent (a # b # rest) i min_size min_index =
    (if a + b < min_size then min_adjacent (b # rest) (i + 1) (a + b) i
     else min_adjacent (b # rest) (i + 1) min_size min_index)"
| "min_adjacent _ i min_size min_index = min_index"

definition compact_min_adjacent ::
  "'a user_lib \<Rightarrow> 'b expire_lib \<Rightarrow> ('a, 'b) immutable_levels \<Rightarrow> u64 \<Rightarrow> ('a, 'b) immutable_levels" where
  "compact_min_adjacent A B L min_snapshot_seq =
    (if length L \<le> 1 then L
     else
       let immutables = newest_to_oldest L;
           min_index = min_adjacent (map (size_of A B) immutables) 0 u64_max 0;
           newer = immutables ! min_index;
           older = immutables ! (min_index + 1);
           new_immutable = immutable_compact A B newer older min_snapshot_seq;
           bt = bt_insert (im_index new_immutable) new_immutable
             (bt_remove (im_index newer) (bt_remove (im_index older) L))
       in new_form_iter (map snd bt))"

end
