(* ===== verification/Level_Reads.thy ===== *)
theory Level_Reads
  imports Levels
begin

text \<open>
  What a read of the levels means.  Each table holds a set of versions of a key; a read at a
  snapshot shows the latest version that is not after the snapshot.  The lemmas say that reading
  level by level finds the latest version of all levels, and that compaction keeps it, for every
  key type that selects its table from a level.
\<close>

section \<open>Versions\<close>

text \<open>Versions are ordered by sequence number; a tombstone comes after a value with its number.\<close>

definition sm_le :: "'v seq_marked \<Rightarrow> 'v seq_marked \<Rightarrow> bool" where
  "sm_le a b \<longleftrightarrow>
    internal_seq a < internal_seq b \<or>
    internal_seq a = internal_seq b \<and> (marked b = TombStone \<or> marked a \<noteq> TombStone)"

definition not_found :: "'v seq_marked" where
  "not_found = SeqMarked 0 TombStone"

text \<open>Values have positive, distinct sequence numbers.\<close>

definition good :: "'v seq_marked set \<Rightarrow> bool" where
  "good S \<longleftrightarrow>
    (\<forall>v \<in> S. marked v \<noteq> TombStone \<longrightarrow> 0 < internal_seq v) \<and>
    (\<forall>v \<in> S. \<forall>w \<in> S. internal_seq v = internal_seq w \<and> marked v \<noteq> TombStone \<and> marked w \<noteq> TombStone
      \<longrightarrow> v = w)"

definition is_latest :: "'v seq_marked set \<Rightarrow> u64 \<Rightarrow> 'v seq_marked \<Rightarrow> bool" where
  "is_latest S s m \<longleftrightarrow>
    (if \<exists>v \<in> S. internal_seq v \<le> s
     then m \<in> S \<and> internal_seq m \<le> s \<and> (\<forall>v \<in> S. internal_seq v \<le> s \<longrightarrow> sm_le v m)
     else m = not_found)"

definition upto :: "'v seq_marked set \<Rightarrow> u64 \<Rightarrow> bool" where
  "upto S s \<longleftrightarrow> (\<forall>v \<in> S. internal_seq v \<le> s)"

section \<open>Documented behaviour of the library\<close>

text \<open>
  Merging streams that are sorted by key: of the entries of a key the greatest is kept; an error
  of a stream is an error of the result.
\<close>

definition merged :: "('k :: linorder \<times> 'v seq_marked) strm list \<Rightarrow> ('k \<times> 'v seq_marked) strm \<Rightarrow> bool" where
  "merged xs out \<longleftrightarrow>
    (no_error out \<longleftrightarrow> list_all no_error xs) \<and>
    (list_all no_error xs \<and> list_all ascending xs \<longrightarrow>
      ascending out \<and>
      (\<forall>k m. Inr (k, m) \<in> set out \<longrightarrow>
        (\<exists>x \<in> set xs. Inr (k, m) \<in> set x) \<and>
        (\<forall>x \<in> set xs. \<forall>m'. Inr (k, m') \<in> set x \<longrightarrow> sm_le m' m)) \<and>
      (\<forall>x \<in> set xs. \<forall>k m. Inr (k, m) \<in> set x \<longrightarrow> (\<exists>m'. Inr (k, m') \<in> set out)))"

text \<open>
  A table.  Compaction of two tables drops a version only when a newer version is not after the
  given sequence number; a range shows, in order, what single reads show, and only versions that
  the table holds.
\<close>

definition compact_law :: "('t, 'k, 'v) table_lib \<Rightarrow> ('t \<Rightarrow> 'k \<Rightarrow> 'v seq_marked set) \<Rightarrow> bool" where
  "compact_law T V \<longleftrightarrow>
    (\<forall>a b m k. V (t_compact T a b m) k \<subseteq> V a k \<union> V b k \<and>
      (\<forall>v \<in> V a k \<union> V b k. v \<in> V (t_compact T a b m) k \<or>
        (\<exists>v' \<in> V a k \<union> V b k. \<not> sm_le v' v \<and> internal_seq v' \<le> m)))"

definition range_shows ::
  "'k :: linorder bound \<times> 'k bound \<Rightarrow> ('k \<Rightarrow> 'v seq_marked) \<Rightarrow> ('k \<times> 'v seq_marked) list \<Rightarrow> bool" where
  "range_shows r f xs \<longleftrightarrow>
    sorted_wrt (<) (map fst xs) \<and>
    (\<forall>k m. (k, m) \<in> set xs \<longrightarrow> in_range r k \<and> m = f k) \<and>
    (\<forall>k. in_range r k \<and> f k \<noteq> not_found \<longrightarrow> (k, f k) \<in> set xs)"

definition from_stream_law ::
  "('t, 'k :: linorder, 'v) table_lib \<Rightarrow> ('t \<Rightarrow> 'k \<Rightarrow> 'v seq_marked set) \<Rightarrow> bool" where
  "from_stream_law T V \<longleftrightarrow>
    (\<forall>xs. no_error xs \<and> ascending xs \<longrightarrow>
      (\<exists>t. t_from_stream T xs = Inr t \<and> (\<forall>k. V t k = {m. Inr (k, m) \<in> set xs})))"

fun version_of :: "unit seq_marked \<Rightarrow> 'v option \<Rightarrow> 'v seq_marked" where
  "version_of m (Some v) = SeqMarked (internal_seq m) (Normal v)"
| "version_of m None = SeqMarked (internal_seq m) TombStone"

definition table_ok :: "('t, 'k :: linorder, 'v) table_lib \<Rightarrow> ('t \<Rightarrow> 'k \<Rightarrow> 'v seq_marked set) \<Rightarrow> bool" where
  "table_ok T V \<longleftrightarrow>
    t_not_found T = not_found \<and> (\<forall>m. t_is_not_found T m \<longleftrightarrow> m = not_found) \<and>
    (\<forall>k. V (t_default T) k = {}) \<and>
    (\<forall>t k s. is_latest (V t k) s (t_get T t k s)) \<and>
    (\<forall>t r s. range_shows r (\<lambda>k. t_get T t k s) (t_range T t r s)) \<and>
    compact_law T V \<and> from_stream_law T V \<and>
    (\<forall>t s cs k. V (t_apply_changes T t s cs) k = V t k \<union> {version_of m v | m v. ((k, m), v) \<in> set cs}) \<and>
    (\<forall>xs. merged xs (t_coalesce T (t_kmerge T xs))) \<and>
    (\<forall>t r s k m. (k, m) \<in> set (t_range T t r s) \<longrightarrow> m \<in> V t k)"

lemma table_okD:
  assumes "table_ok T V"
  shows "t_not_found T = not_found" "t_is_not_found T m \<longleftrightarrow> m = not_found" "V (t_default T) k = {}"
    "is_latest (V t k) s (t_get T t k s)" "range_shows r (\<lambda>k. t_get T t k s) (t_range T t r s)"
    "compact_law T V" "from_stream_law T V"
    "V (t_apply_changes T t s cs) k = V t k \<union> {version_of m v | m v. ((k, m), v) \<in> set cs}"
    "merged xs (t_coalesce T (t_kmerge T xs))" "(k, m) \<in> set (t_range T t r s) \<Longrightarrow> m \<in> V t k"
  using assms by (simp_all add: table_ok_def del: split_paired_All)

section \<open>The latest version\<close>

lemma sm_le_refl [simp]: "sm_le a a"
  by (simp add: sm_le_def)

lemma sm_le_trans: "sm_le a b \<Longrightarrow> sm_le b c \<Longrightarrow> sm_le a c"
  by (auto simp: sm_le_def)

lemma sm_le_total: "sm_le a b \<or> sm_le b a"
  by (auto simp: sm_le_def)

lemma sm_le_seq: "sm_le a b \<Longrightarrow> internal_seq a \<le> internal_seq b"
  by (auto simp: sm_le_def)

lemma sm_le_antisym: "good S \<Longrightarrow> a \<in> S \<Longrightarrow> b \<in> S \<Longrightarrow> sm_le a b \<Longrightarrow> sm_le b a \<Longrightarrow> a = b"
  by (cases "marked a = TombStone") (auto simp: good_def sm_le_def intro: seq_marked.expand)

lemma good_subset: "good S \<Longrightarrow> S' \<subseteq> S \<Longrightarrow> good S'"
  by (auto simp: good_def)

lemma is_latest_unique: "good S \<Longrightarrow> is_latest S s a \<Longrightarrow> is_latest S s b \<Longrightarrow> a = b"
  by (auto simp: is_latest_def split: if_splits intro: sm_le_antisym)

lemma is_latest_empty [simp]: "is_latest {} s m \<longleftrightarrow> m = not_found"
  by (simp add: is_latest_def)

lemma not_found_simps [simp]: "internal_seq not_found = 0" "marked not_found = TombStone"
  by (simp_all add: not_found_def)

text \<open>Versions that are superseded may go, as long as the reader sees what supersedes them.\<close>

lemma is_latest_shrink:
  assumes "is_latest S s m" "S' \<subseteq> S"
    and "\<And>v. v \<in> S \<Longrightarrow> v \<in> S' \<or> (\<exists>v' \<in> S. \<not> sm_le v' v \<and> internal_seq v' \<le> s)"
  shows "is_latest S' s m"
proof (cases "\<exists>v \<in> S. internal_seq v \<le> s")
  case True
  with assms(1) have m: "m \<in> S" "internal_seq m \<le> s" "\<forall>v \<in> S. internal_seq v \<le> s \<longrightarrow> sm_le v m"
    by (simp_all add: is_latest_def)
  then have "m \<in> S'" using assms(3) [of m] by blast
  with m assms(2) show ?thesis by (auto simp: is_latest_def)
next
  case False
  with assms(1,2) show ?thesis by (auto simp: is_latest_def)
qed

text \<open>The versions of a newer level come after those of an older one.\<close>

definition over :: "'v seq_marked set \<Rightarrow> 'v seq_marked set \<Rightarrow> bool" where
  "over S R \<longleftrightarrow> (\<forall>a \<in> S. \<forall>b \<in> R. sm_le b a)"

lemma over_mono: "over S R \<Longrightarrow> S' \<subseteq> S \<Longrightarrow> R' \<subseteq> R \<Longrightarrow> over S' R'"
  by (auto simp: over_def)

lemma over_Un [simp]: "over S (R \<union> R') \<longleftrightarrow> over S R \<and> over S R'"
  "over (S \<union> S') R \<longleftrightarrow> over S R \<and> over S' R"
  by (auto simp: over_def)

lemma over_empty [simp]: "over {} R" "over S {}"
  by (auto simp: over_def)

lemma is_latest_over:
  assumes "over S R" "is_latest S s a" "is_latest R s b" "good R"
  shows "is_latest (S \<union> R) s (if a \<noteq> not_found then a else b)"
proof (cases "\<exists>v \<in> S. internal_seq v \<le> s")
  case True
  with assms(2) have a: "a \<in> S" "internal_seq a \<le> s" "\<forall>v \<in> S. internal_seq v \<le> s \<longrightarrow> sm_le v a"
    by (simp_all add: is_latest_def)
  then have R: "\<forall>v \<in> R. sm_le v a" using assms(1) by (auto simp: over_def)
  show ?thesis
  proof (cases "a = not_found")
    case False
    with a R show ?thesis by (auto simp: is_latest_def)
  next
    case nf: True
    have "v = not_found" if "v \<in> R" for v
    proof -
      have "internal_seq v = 0" using R that nf by (auto simp: sm_le_def not_found_def)
      with assms(4) that show ?thesis
        by (cases v; cases "marked v") (auto simp: good_def not_found_def)
    qed
    then have "b = not_found" using assms(3) by (auto simp: is_latest_def split: if_splits)
    with a R nf show ?thesis by (auto simp: is_latest_def)
  qed
next
  case False
  with assms(2) have "a = not_found" by (auto simp: is_latest_def)
  with False assms(3) show ?thesis
    by (auto simp: is_latest_def split: if_splits)
qed

section \<open>Reading a stack of levels\<close>

fun stacked :: "'v seq_marked set list \<Rightarrow> bool" where
  "stacked [] \<longleftrightarrow> True"
| "stacked (S # rest) \<longleftrightarrow> over S (\<Union> (set rest)) \<and> stacked rest"

definition vers ::
  "('t \<Rightarrow> 'k \<Rightarrow> 'v seq_marked set) \<Rightarrow> (('a, 'b) level \<Rightarrow> 't) \<Rightarrow> 'k \<Rightarrow> ('a, 'b) immutable \<Rightarrow> 'v seq_marked set" where
  "vers V sub k im = V (sub (im_level im)) k"

definition levels_versions ::
  "('t \<Rightarrow> 'k \<Rightarrow> 'v seq_marked set) \<Rightarrow> (('a, 'b) level \<Rightarrow> 't) \<Rightarrow> ('a, 'b) immutable_levels \<Rightarrow> 'k \<Rightarrow> 'v seq_marked set" where
  "levels_versions V sub L k = \<Union> (set (map (vers V sub k) (newest_to_oldest L)))"

definition levels_inv ::
  "('t \<Rightarrow> 'k \<Rightarrow> 'v seq_marked set) \<Rightarrow> (('a, 'b) level \<Rightarrow> 't) \<Rightarrow> ('a, 'b) immutable_levels \<Rightarrow> 'k \<Rightarrow> bool" where
  "levels_inv V sub L k \<longleftrightarrow>
    stacked (map (vers V sub k) (newest_to_oldest L)) \<and> good (levels_versions V sub L k)"

lemma over_Union: "over S (\<Union> X) \<longleftrightarrow> (\<forall>R \<in> X. over S R)"
  by (auto simp: over_def)

lemma stacked_append: "stacked (xs @ ys) \<longleftrightarrow> stacked xs \<and> stacked ys \<and> over (\<Union> (set xs)) (\<Union> (set ys))"
  by (induction xs) auto

lemma get_newest_first_latest:
  assumes "table_ok T V" "stacked (map (vers V sub k) ims)" "good (\<Union> (set (map (vers V sub k) ims)))"
  shows "is_latest (\<Union> (set (map (vers V sub k) ims))) s (get_newest_first T sub ims k s)"
  using assms(2,3)
proof (induction ims)
  case Nil
  then show ?case by (simp add: table_okD(1) [OF assms(1)])
next
  case (Cons im ims)
  let ?R = "\<Union> (set (map (vers V sub k) ims))"
  let ?v = "t_get T (sub (im_level im)) k s"
  have "good ?R" using Cons.prems(2) by (rule good_subset) auto
  moreover have "is_latest (vers V sub k im) s ?v" by (simp add: vers_def table_okD(4) [OF assms(1)])
  ultimately have "is_latest (vers V sub k im \<union> ?R) s
      (if ?v \<noteq> not_found then ?v else get_newest_first T sub ims k s)"
    using Cons by (intro is_latest_over) auto
  then show ?case
    by (simp add: Let_def immutable_get_def table_okD(2) [OF assms(1)])
qed

lemma levels_get_latest:
  assumes "table_ok T V" "levels_inv V sub L k"
  shows "is_latest (levels_versions V sub L k) s (levels_get T sub L k s)"
  using get_newest_first_latest [OF assms(1), of sub k "newest_to_oldest L" s] assms(2)
  by (simp add: levels_inv_def levels_versions_def levels_get_def)

section \<open>The map of levels\<close>

definition levels_wf :: "('a, 'b) immutable_levels \<Rightarrow> bool" where
  "levels_wf L \<longleftrightarrow> sorted_wrt (<) (map fst L) \<and> list_all (\<lambda>e. fst e = im_index (snd e)) L"

lemma bt_insert_between:
  "\<forall>e \<in> set xs. fst e < k \<Longrightarrow> \<forall>e \<in> set ys. k < fst e \<Longrightarrow> bt_insert k x (xs @ ys) = xs @ (k, x) # ys"
  by (induction xs; cases ys) auto

lemma bt_insert_last: "\<forall>e \<in> set xs. fst e < k \<Longrightarrow> bt_insert k x xs = xs @ [(k, x)]"
  using bt_insert_between [of xs k "[]" x] by simp

lemma new_form_iter_values: "levels_wf L \<Longrightarrow> new_form_iter (map snd L) = L"
proof (induction L rule: rev_induct)
  case (snoc e L)
  then have "levels_wf L" "\<forall>e' \<in> set L. fst e' < im_index (snd e)" "fst e = im_index (snd e)"
    by (auto simp: levels_wf_def sorted_wrt_append)
  with snoc.IH show ?case by (cases e) (simp add: new_form_iter_def bt_insert_last)
qed (simp add: new_form_iter_def)

lemma newest_to_oldest_simps [simp]:
  "newest_to_oldest [] = []" "newest_to_oldest (xs @ ys) = newest_to_oldest ys @ newest_to_oldest xs"
  "newest_to_oldest (e # xs) = newest_to_oldest xs @ [snd e]" "length (newest_to_oldest L) = length L"
  by (simp_all add: newest_to_oldest_def)

lemma newest_snoc [simp]: "newest [] = None" "newest (L @ [e]) = Some (snd e)"
  by (simp_all add: newest_def)

lemma levels_insert_greater:
  assumes "levels_wf L" "\<forall>e \<in> set L. fst e < im_index im"
  shows "levels_insert im L = Inr (L @ [(im_index im, im)])"
proof (cases L rule: rev_cases)
  case Nil
  have "level_index_default < im_index im \<or> im_index im = level_index_default"
    by (cases "im_index im") (auto simp: level_index_default_def less_level_index_def word_gt_0)
  with Nil show ?thesis by (simp add: levels_insert_def newest_level_index_def Let_def)
next
  case (snoc L' e)
  with assms have "im_index (snd e) < im_index im" by (auto simp: levels_wf_def)
  with snoc assms show ?thesis
    by (simp add: levels_insert_def newest_level_index_def bt_insert_last)
qed

lemma levels_wf_append:
  "levels_wf (xs @ ys) \<longleftrightarrow> levels_wf xs \<and> levels_wf ys \<and> (\<forall>e \<in> set xs. \<forall>e' \<in> set ys. fst e < fst e')"
  by (auto simp: levels_wf_def sorted_wrt_append)

lemma levels_wf_Cons:
  "levels_wf (e # ys) \<longleftrightarrow> fst e = im_index (snd e) \<and> levels_wf ys \<and> (\<forall>e' \<in> set ys. fst e < fst e')"
  by (auto simp: levels_wf_def)

lemma levels_wf_Nil [simp]: "levels_wf []"
  by (simp add: levels_wf_def)

lemma remove_levels_upto_suffix:
  assumes "levels_wf (xs @ e # ys)"
  shows "remove_levels_upto (fst e) (xs @ e # ys) = Inr ys"
proof -
  have "\<forall>e' \<in> set xs. fst e' < fst e" using assms by (auto simp: levels_wf_append levels_wf_Cons)
  then have "dropWhile (\<lambda>e'. fst e' < fst e) (xs @ e # ys) = e # ys" by (induction xs) auto
  then show ?thesis by (simp add: remove_levels_upto_def)
qed

section \<open>The choice of the levels to compact\<close>

text \<open>
  The loop finds a pair of adjacent levels whose total size is least, whatever the sizes, wrapped
  sums included.
\<close>

lemma min_adjacent_invariant:
  assumes "xs = drop i ys" "xs \<noteq> []"
    and "if i = 0 then min_size = u64_max \<and> min_index = 0
      else min_index < i \<and> min_size = ys ! min_index + ys ! (min_index + 1) \<and>
        (\<forall>p < i. min_size \<le> ys ! p + ys ! (p + 1))"
  shows "let r = min_adjacent xs i min_size min_index in
    (1 < length ys \<longrightarrow> r + 1 < length ys) \<and>
    (\<forall>p. p + 1 < length ys \<longrightarrow> ys ! r + ys ! (r + 1) \<le> ys ! p + ys ! (p + 1))"
  using assms
proof (induction xs i min_size min_index rule: min_adjacent.induct [case_names step empty single])
  case (step a b rest i ms mi)
  have len: "i + 1 < length ys" using step(3) by (metis drop_eq_Nil2 list.distinct(1) list.sel(3) not_le_imp_less tl_drop drop_Suc Suc_eq_plus1)
  then have a: "a = ys ! i" "b = ys ! (i + 1)" "b # rest = drop (i + 1) ys"
    using step(3) by (metis Cons_nth_drop_Suc Suc_eq_plus1 Suc_lessD list.inject)+
  have less: "p < i + 1 \<longleftrightarrow> p < i \<or> p = i" for p by auto
  show ?case
  proof (cases "a + b < ms")
    case True
    have "a + b \<le> ys ! p + ys ! (p + 1)" if "p < i" for p
      using that True step(5) by (auto split: if_splits intro: order_trans less_imp_le)
    then have "\<forall>p < i + 1. a + b \<le> ys ! p + ys ! (p + 1)"
      using a(1,2) by (metis less order_refl)
    then have "if i + 1 = 0 then a + b = u64_max \<and> i = 0
      else i < i + 1 \<and> a + b = ys ! i + ys ! (i + 1) \<and> (\<forall>p < i + 1. a + b \<le> ys ! p + ys ! (p + 1))"
      using a(1,2) by simp
    from step(1) [OF True a(3) _ this] show ?thesis using True by simp
  next
    case False
    have le: "ms \<le> ys ! p + ys ! (p + 1)" if "p < i + 1" for p
      using that False step(5) a(1,2) by (cases "p = i") (auto split: if_splits)
    have "ms = ys ! mi + ys ! (mi + 1)"
      using False step(5) a(1,2) le_u64_max [of "ys ! 0 + ys ! 1"]
      by (auto split: if_splits simp del: le_u64_max)
    then have "if i + 1 = 0 then ms = u64_max \<and> mi = 0
      else mi < i + 1 \<and> ms = ys ! mi + ys ! (mi + 1) \<and> (\<forall>p < i + 1. ms \<le> ys ! p + ys ! (p + 1))"
      using le step(5) by (auto split: if_splits)
    from step(2) [OF False a(3) _ this] show ?thesis using False by simp
  qed
next
  case (empty i ms mi)
  then show ?case by simp
next
  case (single x i ms mi)
  have "length (drop i ys) = 1" using single(1) by (metis One_nat_def length_Cons list.size(3))
  then have "length ys = i + 1" by simp
  with single(3) show ?case by (auto simp: Let_def split: if_splits)
qed

lemma min_adjacent_least:
  assumes "1 < length sizes"
  shows "min_adjacent sizes 0 u64_max 0 + 1 < length sizes \<and>
    (\<forall>p. p + 1 < length sizes \<longrightarrow>
      sizes ! min_adjacent sizes 0 u64_max 0 + sizes ! (min_adjacent sizes 0 u64_max 0 + 1)
      \<le> sizes ! p + sizes ! (p + 1))"
  using min_adjacent_invariant [of sizes 0 sizes u64_max 0] assms by (cases sizes) (auto simp: Let_def)

lemma split_adjacent:
  assumes "j + 1 < length xs"
  obtains us vs where "xs = us @ xs ! j # xs ! (j + 1) # vs" "length us = j"
proof
  show "xs = take j xs @ xs ! j # xs ! (j + 1) # drop (j + 2) xs"
    using assms id_take_nth_drop [of j xs] Cons_nth_drop_Suc [of "j + 1" xs] by simp
qed (use assms in simp)

lemma levels_wf_pairs: "levels_wf L \<Longrightarrow> map (\<lambda>im. (im_index im, im)) (map snd L) = L"
  by (induction L) (auto simp: levels_wf_Cons)

text \<open>
  Compaction of the chosen pair replaces the two levels by one, in their place and under the
  index of the newer one.
\<close>

lemma compact_min_adjacent_shape:
  assumes "levels_wf L" "1 < length L"
  obtains us older newer vs where "L = us @ (im_index older, older) # (im_index newer, newer) # vs"
    and "compact_min_adjacent A B L m =
      us @ (im_index newer, immutable_compact A B newer older m) # vs"
    and "im_index older < im_index newer"
    and "\<forall>p. p + 1 < length L \<longrightarrow> size_of A B newer + size_of A B older \<le>
      size_of A B (newest_to_oldest L ! p) + size_of A B (newest_to_oldest L ! (p + 1))"
proof -
  define ims where "ims = newest_to_oldest L"
  define j where "j = min_adjacent (map (size_of A B) ims) 0 u64_max 0"
  have least: "j + 1 < length ims"
    "\<forall>p. p + 1 < length ims \<longrightarrow> size_of A B (ims ! j) + size_of A B (ims ! (j + 1)) \<le>
      size_of A B (ims ! p) + size_of A B (ims ! (p + 1))"
    using min_adjacent_least [of "map (size_of A B) ims"] assms(2) by (auto simp: ims_def j_def)
  obtain ws zs where split: "ims = ws @ ims ! j # ims ! (j + 1) # zs" "length ws = j"
    by (rule split_adjacent [OF least(1)])
  define newer older where "newer = ims ! j" and "older = ims ! (j + 1)"
  have L: "L = map (\<lambda>im. (im_index im, im)) (rev ims)"
    using levels_wf_pairs [OF assms(1)] by (simp add: ims_def newest_to_oldest_def)
  define us vs where "us = map (\<lambda>im. (im_index im, im)) (rev zs)" and "vs = map (\<lambda>im. (im_index im, im)) (rev ws)"
  have Lsplit: "L = us @ (im_index older, older) # (im_index newer, newer) # vs"
    unfolding L by (subst split(1)) (simp add: us_def vs_def newer_def older_def)
  then have ord: "im_index older < im_index newer" "\<forall>e \<in> set us. fst e < im_index newer \<and> fst e \<noteq> im_index older"
    "\<forall>e \<in> set vs. im_index newer < fst e" "levels_wf us" "levels_wf vs" "\<forall>e \<in> set us. \<forall>e' \<in> set vs. fst e < fst e'"
    using assms(1) by (auto simp: levels_wf_append levels_wf_Cons)
  define c where "c = immutable_compact A B newer older m"
  have ic: "im_index c = im_index newer"
    using ord(1) by (simp add: c_def immutable_compact_def new_with_index_def)
  have rem: "bt_remove (im_index newer) (bt_remove (im_index older) L) = us @ vs"
  proof -
    have "\<forall>e \<in> set (us @ vs). fst e \<noteq> im_index older \<and> fst e \<noteq> im_index newer" using ord by auto
    then have "filter (\<lambda>e. fst e \<noteq> im_index older \<and> fst e \<noteq> im_index newer) (us @ vs) = us @ vs"
      by (simp only: filter_id_conv)
    with ord(1) show ?thesis by (auto simp: Lsplit bt_remove_def conj_commute)
  qed
  have "bt_insert (im_index newer) c (us @ vs) = us @ (im_index newer, c) # vs"
    using ord by (intro bt_insert_between) auto
  moreover have "levels_wf (us @ (im_index newer, c) # vs)"
    using ord ic by (auto simp: levels_wf_append levels_wf_Cons)
  ultimately have "compact_min_adjacent A B L m = us @ (im_index newer, c) # vs"
    using assms(2) rem ic new_form_iter_values [of "us @ (im_index newer, c) # vs"]
    by (simp add: compact_min_adjacent_def Let_def ims_def [symmetric] j_def [symmetric]
        newer_def [symmetric] older_def [symmetric, simplified] c_def [symmetric])
  then have shape: "compact_min_adjacent A B L m = us @ (im_index newer, immutable_compact A B newer older m) # vs"
    by (simp add: c_def)
  have "length L = length ims" by (simp add: ims_def)
  with least(2) have "\<forall>p. p + 1 < length L \<longrightarrow> size_of A B newer + size_of A B older \<le>
      size_of A B (newest_to_oldest L ! p) + size_of A B (newest_to_oldest L ! (p + 1))"
    unfolding newer_def older_def ims_def [symmetric] by simp
  from that [OF Lsplit shape ord(1) this] show thesis .
qed

section \<open>Ranges\<close>

lemma ok_items_iff: "x \<in> set (ok_items strm) \<longleftrightarrow> Inr x \<in> set strm"
  by (induction strm rule: ok_items.induct) auto

lemma ok_items_map_Inr [simp]: "ok_items (map Inr xs) = xs"
  by (induction xs) auto

lemma no_error_map_Inr [simp]: "no_error (map Inr xs)"
  by (simp add: no_error_def list_all_iff)

lemma sm_le_not_found:
  assumes "good S" "m \<in> S" "sm_le m not_found"
  shows "m = not_found"
  using assms by (cases m; cases "marked m") (auto simp: good_def sm_le_def not_found_def)

lemma range_showsD:
  assumes "range_shows r f xs"
  shows "sorted_wrt (<) (map fst xs)" "(k, m) \<in> set xs \<Longrightarrow> in_range r k \<and> m = f k"
    "in_range r k \<Longrightarrow> f k \<noteq> not_found \<Longrightarrow> (k, f k) \<in> set xs"
  using assms by (auto simp: range_shows_def)

text \<open>
  Merged ranges show the greatest of what the ranges show.  \<open>S\<close> holds the versions of the key.
\<close>

definition picks :: "'v seq_marked list \<Rightarrow> 'v seq_marked \<Rightarrow> bool" where
  "picks ms m \<longleftrightarrow>
    good (set ms - {not_found}) \<and> (\<forall>x \<in> set ms. x \<noteq> not_found \<longrightarrow> sm_le x m) \<and>
    (m = not_found \<or> m \<in> set ms)"

lemma picks_greatest:
  assumes "picks ms m" "x \<in> set ms" "\<forall>y \<in> set ms. y \<noteq> not_found \<longrightarrow> sm_le y x"
  shows "x = m"
proof -
  let ?S = "set ms - {not_found}"
  have good: "good ?S" and top: "y \<noteq> not_found \<Longrightarrow> y \<in> set ms \<Longrightarrow> sm_le y m" for y
    using assms(1) by (auto simp: picks_def)
  show ?thesis
  proof (cases "m = not_found")
    case True
    with top [of x] sm_le_not_found [OF good, of x] assms(2) show ?thesis by auto
  next
    case False
    with assms(1) have m: "m \<in> ?S" by (auto simp: picks_def)
    with assms(3) have "sm_le m x" by auto
    then have "x \<noteq> not_found" using sm_le_not_found [OF good m] False by auto
    then show ?thesis using sm_le_antisym [OF good] m top [of x] assms(2) \<open>sm_le m x\<close> by auto
  qed
qed

lemma merged_range:
  assumes "merged xs out" "list_all2 (\<lambda>x f. no_error x \<and> range_shows r f (ok_items x)) xs fs"
    and "\<And>k. in_range r k \<Longrightarrow> picks (map (\<lambda>f. f k) fs) (h k)"
  shows "no_error out \<and> range_shows r h (ok_items out)"
proof -
  have pair: "\<exists>f \<in> set fs. no_error x \<and> range_shows r f (ok_items x)" if "x \<in> set xs" for x
    using assms(2) that by (fastforce simp: list_all2_conv_all_nth in_set_conv_nth)
  have pair': "\<exists>x \<in> set xs. range_shows r f (ok_items x)" if "f \<in> set fs" for f
    using assms(2) that by (fastforce simp: list_all2_conv_all_nth in_set_conv_nth)
  have "list_all no_error xs" "list_all ascending xs"
    using pair by (auto simp: list_all_iff ascending_def range_shows_def)
  with assms(1) have out: "no_error out" "ascending out"
    "\<And>k m. Inr (k, m) \<in> set out \<Longrightarrow> (\<exists>x \<in> set xs. Inr (k, m) \<in> set x) \<and>
        (\<forall>x \<in> set xs. \<forall>m'. Inr (k, m') \<in> set x \<longrightarrow> sm_le m' m)"
    "\<And>x k m. x \<in> set xs \<Longrightarrow> Inr (k, m) \<in> set x \<Longrightarrow> \<exists>m'. Inr (k, m') \<in> set out"
    unfolding merged_def by blast+
  have shown: "in_range r k \<and> m = h k" if item: "Inr (k, m) \<in> set out" for k m
  proof -
    obtain x f where x: "Inr (k, m) \<in> set x" "x \<in> set xs" "f \<in> set fs" "range_shows r f (ok_items x)"
      using out(3) [OF item] pair by blast
    then have f: "in_range r k" "m = f k" using range_showsD(2) [OF x(4)] by (auto simp: ok_items_iff)
    have "sm_le (g k) m" if "g \<in> set fs" "g k \<noteq> not_found" for g
    proof -
      obtain y where y: "y \<in> set xs" "range_shows r g (ok_items y)" using pair' \<open>g \<in> set fs\<close> by blast
      then have "Inr (k, g k) \<in> set y" using range_showsD(3) [OF y(2)] f(1) that(2) by (auto simp: ok_items_iff)
      with out(3) [OF item] y(1) show ?thesis by blast
    qed
    with x(3) f show ?thesis using picks_greatest [OF assms(3) [OF f(1)], of m] by auto
  qed
  have "Inr (k, h k) \<in> set out" if k: "in_range r k" "h k \<noteq> not_found" for k
  proof -
    obtain f where f: "f \<in> set fs" "h k = f k" using assms(3) [OF k(1)] k(2) by (auto simp: picks_def)
    then obtain x where x: "x \<in> set xs" "range_shows r f (ok_items x)" using pair' by blast
    with f k have "Inr (k, h k) \<in> set x" using range_showsD(3) [OF x(2)] by (auto simp: ok_items_iff)
    with x(1) obtain m' where "Inr (k, m') \<in> set out" using out(4) by blast
    with shown show ?thesis by metis
  qed
  with out(1,2) shown show ?thesis by (simp add: range_shows_def ascending_def ok_items_iff)
qed

lemma get_found:
  assumes "table_ok T V" "t_get T t k s \<noteq> not_found"
  shows "t_get T t k s \<in> V t k" "internal_seq (t_get T t k s) \<le> s"
  using table_okD(4) [OF assms(1), of t k s] assms(2) by (auto simp: is_latest_def split: if_splits)

lemma get_newest_first_cases:
  assumes "table_ok T V"
  shows "get_newest_first T sub ims k s = not_found \<or>
    (\<exists>im \<in> set ims. get_newest_first T sub ims k s = immutable_get T sub im k s)"
  by (induction ims) (auto simp: Let_def table_okD(1,2) [OF assms])

text \<open>What a stack of levels shows is the greatest of what its levels show.\<close>

lemma get_newest_first_picks:
  assumes "table_ok T V" "stacked (map (vers V sub k) ims)" "good (\<Union> (set (map (vers V sub k) ims)))"
  shows "picks (map (\<lambda>im. immutable_get T sub im k s) ims) (get_newest_first T sub ims k s)"
proof -
  let ?S = "\<Union> (set (map (vers V sub k) ims))"
  let ?g = "get_newest_first T sub ims k s"
  have in_S: "immutable_get T sub im k s \<in> ?S \<and> internal_seq (immutable_get T sub im k s) \<le> s"
    if "im \<in> set ims" "immutable_get T sub im k s \<noteq> not_found" for im
    using that get_found [OF assms(1)] by (auto simp: immutable_get_def vers_def)
  have "is_latest ?S s ?g" using get_newest_first_latest [OF assms] .
  then have "sm_le x ?g" if "x \<in> ?S" "internal_seq x \<le> s" for x
    using that by (auto simp: is_latest_def split: if_splits)
  moreover have "good (set (map (\<lambda>im. immutable_get T sub im k s) ims) - {not_found})"
    using assms(3) by (rule good_subset) (use in_S in auto)
  ultimately show ?thesis
    using get_newest_first_cases [OF assms(1), of sub ims k s] in_S by (auto simp: picks_def)
qed

lemma levels_range_shows:
  assumes "table_ok T V"
    and "\<And>k. in_range r k \<Longrightarrow> levels_inv V sub L k"
  shows "no_error (levels_range T sub L r s) \<and>
    range_shows r (\<lambda>k. levels_get T sub L k s) (ok_items (levels_range T sub L r s))"
proof -
  let ?ims = "newest_to_oldest L"
  show ?thesis unfolding levels_range_def
  proof (rule merged_range [where fs = "map (\<lambda>im k. immutable_get T sub im k s) ?ims"])
    show "merged (map (\<lambda>im. immutable_range T sub im r s) ?ims)
        (t_coalesce T (t_kmerge T (map (\<lambda>im. immutable_range T sub im r s) ?ims)))"
      by (rule table_okD(9) [OF assms(1)])
    show "list_all2 (\<lambda>x f. no_error x \<and> range_shows r f (ok_items x))
        (map (\<lambda>im. immutable_range T sub im r s) ?ims) (map (\<lambda>im k. immutable_get T sub im k s) ?ims)"
      by (simp add: list_all2_conv_all_nth immutable_range_def immutable_get_def table_okD(5) [OF assms(1)])
    fix k assume "in_range r k"
    with assms(2) get_newest_first_picks [OF assms(1), of sub k ?ims s]
    show "picks (map (\<lambda>f. f k) (map (\<lambda>im k. immutable_get T sub im k s) ?ims)) (levels_get T sub L k s)"
      by (simp add: levels_inv_def levels_get_def levels_versions_def comp_def)
  qed
qed

lemma levels_range_versions:
  assumes "table_ok T V" "\<And>k. in_range r k \<Longrightarrow> levels_inv V sub L k" "Inr (k, m) \<in> set (levels_range T sub L r s)"
  shows "m \<in> levels_versions V sub L k"
proof -
  let ?xs = "map (\<lambda>im. immutable_range T sub im r s) (newest_to_oldest L)"
  have "list_all no_error ?xs" "list_all ascending ?xs"
    using range_showsD(1) [OF table_okD(5) [OF assms(1)]]
    by (simp_all add: list_all_iff immutable_range_def ascending_def)
  then have "\<exists>x \<in> set ?xs. Inr (k, m) \<in> set x"
    using table_okD(9) [OF assms(1), of ?xs] assms(3) unfolding merged_def levels_range_def by blast
  then obtain im where im: "im \<in> set (newest_to_oldest L)" "(k, m) \<in> set (t_range T (sub (im_level im)) r s)"
    by (auto simp: immutable_range_def)
  from table_okD(10) [OF assms(1) im(2)] im(1) show ?thesis by (auto simp: levels_versions_def vers_def)
qed

section \<open>Compaction keeps what is read\<close>

text \<open>
  A key type as the levels see it: a library \<open>T\<close> of tables, the table \<open>sub\<close> of a level and the
  least key \<open>lo\<close>.  A new level has an empty table, compaction of two levels compacts their tables,
  and compaction of all levels makes a table from the range over all keys.
\<close>

locale sub_table =
  fixes A :: "'a user_lib" and B :: "'b expire_lib"
    and T :: "('t, 'k :: linorder, 'v) table_lib" and sub :: "('a, 'b) level \<Rightarrow> 't" and lo :: 'k
  assumes sub_new: "sub (new_level A B l) = t_default T"
    and sub_compact: "sub (level_compact A B l l' m) = t_compact T (sub l) (sub l') m"
    and sub_all: "newest L = Some im \<Longrightarrow> compact_all A B L = Inr L' \<Longrightarrow>
      \<exists>im'. L' = [(im_index im, im')] \<and> im_index im' = im_index im \<and>
        lv_sys_data (im_level im') = snd (incr_data_seq (lv_sys_data (im_level im))) \<and>
        t_from_stream T (levels_range T sub L (Included lo, Unbounded) u64_max) = Inr (sub (im_level im'))"
    and lo_least: "lo \<le> k"
begin

lemma compact_min_adjacent_reads:
  assumes "table_ok T V" "levels_wf L" "levels_inv V sub L k"
    and "m \<le> s \<or> upto (levels_versions V sub L k) s"
  defines "L' \<equiv> compact_min_adjacent A B L m"
  shows "levels_inv V sub L' k" "levels_versions V sub L' k \<subseteq> levels_versions V sub L k"
    "levels_get T sub L' k s = levels_get T sub L k s"
proof -
  have "levels_inv V sub L' k \<and> levels_versions V sub L' k \<subseteq> levels_versions V sub L k \<and>
    levels_get T sub L' k s = levels_get T sub L k s"
  proof (cases "1 < length L")
    case False
    with assms(3) show ?thesis by (simp add: L'_def compact_min_adjacent_def)
  next
    case True
    obtain us older newer vs where L: "L = us @ (im_index older, older) # (im_index newer, newer) # vs"
      and L': "L' = us @ (im_index newer, immutable_compact A B newer older m) # vs"
      unfolding L'_def by (rule compact_min_adjacent_shape [OF assms(2) True, of A B m])
    define c where "c = immutable_compact A B newer older m"
    let ?n = "vers V sub k newer" and ?o = "vers V sub k older" and ?c = "vers V sub k c"
    have c: "?c \<subseteq> ?n \<union> ?o"
      "\<And>v. v \<in> ?n \<union> ?o \<Longrightarrow> v \<in> ?c \<or> (\<exists>v' \<in> ?n \<union> ?o. \<not> sm_le v' v \<and> internal_seq v' \<le> m)"
      using table_okD(6) [OF assms(1)]
      by (auto simp: compact_law_def c_def immutable_compact_def new_with_index_def vers_def sub_compact)
    let ?S = "levels_versions V sub L k" and ?S' = "levels_versions V sub L' k"
    have S: "?S = \<Union> (set (map (vers V sub k) (newest_to_oldest vs))) \<union> (?n \<union> ?o) \<union>
        \<Union> (set (map (vers V sub k) (newest_to_oldest us)))"
      and S': "?S' = \<Union> (set (map (vers V sub k) (newest_to_oldest vs))) \<union> ?c \<union>
        \<Union> (set (map (vers V sub k) (newest_to_oldest us)))"
      by (auto simp: levels_versions_def L L' c_def)
    have sub: "?S' \<subseteq> ?S" using c(1) by (auto simp: S S')
    have good: "good ?S" "good ?S'" using assms(3) sub by (auto simp: levels_inv_def intro: good_subset)
    have "stacked (map (vers V sub k) (newest_to_oldest L'))"
      using assms(3) c(1) over_mono [OF _ c(1)] over_mono [OF _ _ c(1)]
      by (auto simp: levels_inv_def L L' c_def [symmetric] stacked_append)
    with good have inv: "levels_inv V sub L' k" by (simp add: levels_inv_def)
    have "is_latest ?S s (levels_get T sub L k s)"
      by (rule levels_get_latest [OF assms(1,3)])
    then have "is_latest ?S' s (levels_get T sub L k s)"
    proof (rule is_latest_shrink [OF _ sub])
      fix v assume "v \<in> ?S"
      show "v \<in> ?S' \<or> (\<exists>v' \<in> ?S. \<not> sm_le v' v \<and> internal_seq v' \<le> s)"
      proof (cases "v \<in> ?S'")
        case False
        with \<open>v \<in> ?S\<close> have "v \<in> ?n \<union> ?o" "v \<notin> ?c" by (auto simp: S S')
        with c(2) obtain v' where "v' \<in> ?n \<union> ?o" "\<not> sm_le v' v" "internal_seq v' \<le> m" by blast
        with assms(4) show ?thesis by (auto simp: S upto_def intro: order_trans)
      qed simp
    qed
    moreover have "is_latest ?S' s (levels_get T sub L' k s)"
      by (rule levels_get_latest [OF assms(1) inv])
    ultimately show ?thesis using is_latest_unique [OF good(2)] inv sub by blast
  qed
  then show "levels_inv V sub L' k" "levels_versions V sub L' k \<subseteq> levels_versions V sub L k"
    "levels_get T sub L' k s = levels_get T sub L k s" by simp_all
qed

lemma compact_all_reads:
  assumes "table_ok T V" "\<And>k. levels_inv V sub L k" "compact_all A B L = Inr L'"
  shows "levels_inv V sub L' k" "levels_versions V sub L' k \<subseteq> levels_versions V sub L k"
    "upto (levels_versions V sub L k) s \<Longrightarrow> levels_get T sub L' k s = levels_get T sub L k s"
proof -
  let ?S = "levels_versions V sub L k" and ?r = "(Included lo, Unbounded)"
  have "levels_inv V sub L' k \<and> levels_versions V sub L' k \<subseteq> ?S \<and>
    (upto ?S s \<longrightarrow> levels_get T sub L' k s = levels_get T sub L k s)"
  proof (cases "newest L")
    case None
    with assms(2,3) show ?thesis by (auto simp: compact_all_def)
  next
    case (Some im)
    from sub_all [OF Some assms(3)] obtain im' where L': "L' = [(im_index im, im')]"
      and str: "t_from_stream T (levels_range T sub L ?r u64_max) = Inr (sub (im_level im'))" by auto
    let ?g = "levels_get T sub L k u64_max"
    have range: "no_error (levels_range T sub L ?r u64_max)"
      "range_shows ?r (\<lambda>k. levels_get T sub L k u64_max) (ok_items (levels_range T sub L ?r u64_max))"
      using levels_range_shows [OF assms(1,2)] by simp_all
    then have "ascending (levels_range T sub L ?r u64_max)" by (simp add: ascending_def range_shows_def)
    with range(1) obtain t where "t_from_stream T (levels_range T sub L ?r u64_max) = Inr t"
      "V t k = {x. Inr (k, x) \<in> set (levels_range T sub L ?r u64_max)}"
      using table_okD(7) [OF assms(1)] unfolding from_stream_law_def by blast
    with str have "V (sub (im_level im')) k = {x. Inr (k, x) \<in> set (levels_range T sub L ?r u64_max)}"
      by simp
    then have mem: "x \<in> vers V sub k im' \<longleftrightarrow> (k, x) \<in> set (ok_items (levels_range T sub L ?r u64_max))" for x
      by (simp add: vers_def ok_items_iff)
    have in_r: "in_range ?r k" using lo_least by (simp add: in_range_def)
    have V: "vers V sub k im' \<subseteq> {?g}"
    proof
      fix x assume "x \<in> vers V sub k im'"
      with range_showsD(2) [OF range(2)] show "x \<in> {?g}" unfolding mem by blast
    qed
    have V': "?g \<in> vers V sub k im'" if "?g \<noteq> not_found"
      unfolding mem by (rule range_showsD(3) [OF range(2) in_r that])
    have latest: "is_latest ?S s' (levels_get T sub L k s')" for s'
      by (rule levels_get_latest [OF assms(1,2)])
    from this [of u64_max] have g: "?g = not_found \<or> ?g \<in> ?S" by (auto simp: is_latest_def split: if_splits)
    have vs: "levels_versions V sub L' k = vers V sub k im'" by (simp add: levels_versions_def L')
    have good': "good ?S" using assms(2) [of k] by (simp add: levels_inv_def)
    have sub: "vers V sub k im' \<subseteq> ?S"
      using levels_range_versions [OF assms(1,2)] unfolding mem ok_items_iff subset_iff by blast
    have inv: "levels_inv V sub L' k"
      using good_subset [OF good' sub] by (simp add: levels_inv_def vs) (simp add: L')
    have "levels_get T sub L' k s = levels_get T sub L k s" if up: "upto ?S s"
    proof -
      have "is_latest ?S s ?g" using latest [of u64_max] up by (auto simp: is_latest_def upto_def)
      then have g': "?g = levels_get T sub L k s"
        using latest [of s] assms(2) [of k] by (intro is_latest_unique [of ?S s]) (simp_all add: levels_inv_def)
      have "is_latest (vers V sub k im') s (levels_get T sub L' k s)"
        using levels_get_latest [OF assms(1) inv, of s] by (simp add: vs)
      moreover have "is_latest (vers V sub k im') s ?g"
      proof (cases "?g = not_found")
        case True
        with V have "vers V sub k im' = {} \<or> vers V sub k im' = {not_found}" by auto
        then show ?thesis unfolding True by (elim disjE) (simp_all add: is_latest_def)
      next
        case False
        with V V' have "vers V sub k im' = {?g}" by blast
        with False g up show ?thesis by (auto simp: is_latest_def upto_def)
      qed
      ultimately have "levels_get T sub L' k s = ?g"
        using inv by (intro is_latest_unique [of "vers V sub k im'" s]) (simp_all add: levels_inv_def vs)
      with g' show ?thesis by simp
    qed
    with inv sub show ?thesis by (simp add: vs)
  qed
  then show "levels_inv V sub L' k" "levels_versions V sub L' k \<subseteq> ?S"
    "upto ?S s \<Longrightarrow> levels_get T sub L' k s = levels_get T sub L k s" by simp_all
qed

end

lemma compact_all_shape:
  assumes "newest L = Some im" "compact_all A B L = Inr L'"
  obtains exp kv where
    "t_from_stream B (levels_range B lv_expire L (Included (ExpireKey 0 0), Unbounded) u64_max) = Inr exp"
    "t_from_stream A (levels_range A lv_kv L (Included [], Unbounded) u64_max) = Inr kv"
    "L' = [(im_index im, \<lparr>im_index = im_index im, im_level =
      \<lparr>lv_sys_data = snd (incr_data_seq (lv_sys_data (im_level im))), lv_kv = kv, lv_expire = exp\<rparr>\<rparr>)]"
  using assms
  by (auto simp: compact_all_def Let_def new_form_iter_def new_with_index_def new_level_def
      split: sum.splits intro: that)

interpretation user_sub: sub_table A B A lv_kv "[]" for A B
  by unfold_locales
    (auto simp: new_level_def level_compact_def elim!: compact_all_shape)

interpretation expire_sub: sub_table A B B lv_expire "ExpireKey 0 0" for A B
  by unfold_locales
    (auto simp: new_level_def level_compact_def less_eq_expire_key_def word_gt_0 elim!: compact_all_shape)

end
