(* ===== verification/Value_Codec.thy ===== *)
theory Value_Codec
  imports Sm_Api
begin

text \<open>
  Values as they are stored in a table on disk (\<open>rotbl_meta_value_impl.rs\<close>,
  \<open>rotbl_seq_mark_impl.rs\<close>, \<open>rotbl_seq_data_impl.rs\<close> of \<open>leveled_store\<close>): a format version, the
  metadata as JSON text and the bytes of the value, packed by \<open>bincode\<close>; a string of the
  expiration index is stored as a value without metadata.  JSON and \<open>bincode\<close> are library code and
  are fields of \<open>value_lib\<close>.  UTF-8 is part of the standard library and is modelled.
\<close>

section \<open>UTF-8\<close>

fun utf8_char :: "nat \<Rightarrow> nat list" where
  "utf8_char c =
    (if c < 0x80 then [c]
     else if c < 0x800 then [0xC0 + c div 64, 0x80 + c mod 64]
     else if c < 0x10000 then [0xE0 + c div 4096, 0x80 + c div 64 mod 64, 0x80 + c mod 64]
     else [0xF0 + c div 262144, 0x80 + c div 4096 mod 64, 0x80 + c div 64 mod 64, 0x80 + c mod 64])"

definition into_bytes :: "rstring \<Rightarrow> bytes" where
  "into_bytes s = map word_of_nat (concat (map utf8_char s))"

definition cont :: "nat \<Rightarrow> bool" where
  "cont b \<longleftrightarrow> 0x80 \<le> b \<and> b < 0xC0"

text \<open>The shortest form of a scalar value is read, everything else is refused.\<close>

fun utf8_read :: "nat list \<Rightarrow> rstring option" where
  "utf8_read [] = Some []"
| "utf8_read (b # bs) =
    (if b < 0x80 then map_option ((#) b) (utf8_read bs)
     else
       case bs of
         [] \<Rightarrow> None
       | c1 # bs1 \<Rightarrow>
           if \<not> cont c1 then None
           else if 0xC0 \<le> b \<and> b < 0xE0 then
             (let c = (b - 0xC0) * 64 + (c1 - 0x80)
              in if 0x80 \<le> c then map_option ((#) c) (utf8_read bs1) else None)
           else
             case bs1 of
               [] \<Rightarrow> None
             | c2 # bs2 \<Rightarrow>
                 if \<not> cont c2 then None
                 else if 0xE0 \<le> b \<and> b < 0xF0 then
                   (let c = (b - 0xE0) * 4096 + (c1 - 0x80) * 64 + (c2 - 0x80)
                    in if 0x800 \<le> c \<and> is_scalar c then map_option ((#) c) (utf8_read bs2) else None)
                 else
                   case bs2 of
                     [] \<Rightarrow> None
                   | c3 # bs3 \<Rightarrow>
                       if cont c3 \<and> 0xF0 \<le> b \<and> b < 0xF8 then
                         (let c = (b - 0xF0) * 262144 + (c1 - 0x80) * 4096 + (c2 - 0x80) * 64 + (c3 - 0x80)
                          in if 0x10000 \<le> c \<and> is_scalar c then map_option ((#) c) (utf8_read bs3) else None)
                       else None)"

definition from_utf8 :: "bytes \<Rightarrow> rstring option" where
  "from_utf8 b = utf8_read (map unat b)"

section \<open>Codecs\<close>

record value_lib =
  json_of_meta :: "kvmeta option \<Rightarrow> rstring option"
  meta_of_json :: "rstring \<Rightarrow> kvmeta option option"
  bincode_encode :: "u8 \<times> rstring \<times> bytes \<Rightarrow> bytes option"
  bincode_decode :: "bytes \<Rightarrow> ((u8 \<times> rstring \<times> bytes) \<times> nat) option"

definition meta_value_encode :: "value_lib \<Rightarrow> meta_value \<Rightarrow> bytes io_result" where
  "meta_value_encode C mv =
    (let (meta, val) = mv in
     rbind (ok_or InvalidData (json_of_meta C meta)) (\<lambda>kv_meta_str.
     ok_or InvalidData (bincode_encode C (1, kv_meta_str, val))))"

definition meta_value_decode :: "value_lib \<Rightarrow> bytes \<Rightarrow> meta_value io_result" where
  "meta_value_decode C data =
    rbind (ok_or InvalidData (bincode_decode C data)) (\<lambda>((ver, meta_str, val), sz).
      if ver \<noteq> 1 then Inl InvalidData
      else if sz \<noteq> length data then Inl InvalidData
      else rbind (ok_or InvalidData (meta_of_json C meta_str)) (\<lambda>kv_meta. Inr (kv_meta, val)))"

definition seq_marked_encode :: "value_lib \<Rightarrow> meta_value seq_marked \<Rightarrow> bytes seq_marked io_result" where
  "seq_marked_encode C m =
    (case marked m of
       TombStone \<Rightarrow> Inr (SeqMarked (internal_seq m) TombStone)
     | Normal mv \<Rightarrow> rbind (meta_value_encode C mv) (\<lambda>b. Inr (SeqMarked (internal_seq m) (Normal b))))"

definition seq_marked_decode :: "value_lib \<Rightarrow> bytes seq_marked \<Rightarrow> meta_value seq_marked io_result" where
  "seq_marked_decode C m =
    (case marked m of
       TombStone \<Rightarrow> Inr (SeqMarked (internal_seq m) TombStone)
     | Normal b \<Rightarrow> rbind (meta_value_decode C b) (\<lambda>mv. Inr (SeqMarked (internal_seq m) (Normal mv))))"

definition seq_marked_string_encode :: "value_lib \<Rightarrow> rstring seq_marked \<Rightarrow> bytes seq_marked io_result" where
  "seq_marked_string_encode C m =
    seq_marked_encode C (map_seq_marked (\<lambda>s. (None, into_bytes s)) m)"

definition seq_marked_string_decode :: "value_lib \<Rightarrow> bytes seq_marked \<Rightarrow> rstring seq_marked io_result" where
  "seq_marked_string_decode C m =
    rbind (seq_marked_decode C m) (\<lambda>d.
      case marked d of
        TombStone \<Rightarrow> Inr (SeqMarked (internal_seq d) TombStone)
      | Normal (meta, val) \<Rightarrow>
          rbind (ok_or InvalidData (from_utf8 val)) (\<lambda>s. Inr (SeqMarked (internal_seq d) (Normal s))))"

datatype 'v seq_data = SeqData (sd_seq: u64) (sd_data: 'v)

definition seq_data_encode :: "value_lib \<Rightarrow> meta_value seq_data \<Rightarrow> bytes seq_data io_result" where
  "seq_data_encode C d = rbind (meta_value_encode C (sd_data d)) (\<lambda>b. Inr (SeqData (sd_seq d) b))"

definition seq_data_decode :: "value_lib \<Rightarrow> bytes seq_data \<Rightarrow> meta_value seq_data io_result" where
  "seq_data_decode C d = rbind (meta_value_decode C (sd_data d)) (\<lambda>mv. Inr (SeqData (sd_seq d) mv))"

definition seq_data_string_encode :: "value_lib \<Rightarrow> rstring seq_data \<Rightarrow> bytes seq_data io_result" where
  "seq_data_string_encode C d = seq_data_encode C (SeqData (sd_seq d) (None, into_bytes (sd_data d)))"

definition seq_data_string_decode :: "value_lib \<Rightarrow> bytes seq_data \<Rightarrow> rstring seq_data io_result" where
  "seq_data_string_decode C d =
    rbind (seq_data_decode C d) (\<lambda>e.
      rbind (ok_or InvalidData (from_utf8 (snd (sd_data e)))) (\<lambda>s. Inr (SeqData (sd_seq e) s)))"

section \<open>Reading back what was written\<close>

text \<open>Documented behaviour of the libraries: decoding inverts a successful encoding.\<close>

definition value_lib_ok :: "value_lib \<Rightarrow> bool" where
  "value_lib_ok C \<longleftrightarrow>
    (\<forall>m j. json_of_meta C m = Some j \<longrightarrow> meta_of_json C j = Some m) \<and>
    (\<forall>p b. bincode_encode C p = Some b \<longrightarrow> bincode_decode C b = Some (p, length b))"

lemma utf8_char_bytes: "is_scalar c \<Longrightarrow> \<forall>b \<in> set (utf8_char c). b < 256"
  by (auto simp: is_scalar_def)

lemma utf8_read_char:
  assumes "is_scalar c"
  shows "utf8_read (utf8_char c @ bs) = map_option ((#) c) (utf8_read bs)"
proof -
  have dm: "c div 64 * 64 + c mod 64 = c" "c div 4096 * 64 + c div 64 mod 64 = c div 64"
    "c div 262144 * 64 + c div 4096 mod 64 = c div 4096"
    using div_mult_mod_eq [of c 64] div_mult_mod_eq [of "c div 64" 64] div_mult_mod_eq [of "c div 4096" 64]
    by (simp_all add: div_mult2_eq [symmetric])
  consider "c < 0x80" | "0x80 \<le> c" "c < 0x800" | "0x800 \<le> c" "c < 0x10000" | "0x10000 \<le> c" "c < 0x110000"
    using assms by (fastforce simp: is_scalar_def)
  then show ?thesis
  proof cases
    case 2
    note dm(1)
    moreover have "c div 64 < 0x20" using 2 by auto
    ultimately show ?thesis using 2 by (simp add: cont_def Let_def)
  next
    case 3
    have "c div 4096 * 4096 + c div 64 mod 64 * 64 + c mod 64 = c"
      using dm(1,2) by linarith
    moreover have "c div 4096 < 0x10" using 3 by auto
    ultimately show ?thesis using 3 assms by (simp add: cont_def Let_def)
  next
    case 4
    have "c div 262144 * 262144 + c div 4096 mod 64 * 4096 + c div 64 mod 64 * 64 + c mod 64 = c"
      using dm by linarith
    moreover have "c div 262144 < 5" using 4 by auto
    ultimately show ?thesis using 4 assms by (simp add: cont_def Let_def)
  qed simp
qed

lemma from_utf8_into_bytes:
  assumes "valid_str s"
  shows "from_utf8 (into_bytes s) = Some s"
proof -
  have "\<forall>b \<in> set (concat (map utf8_char s)). b < 256"
    using assms utf8_char_bytes by (auto simp: valid_str_def list_all_iff)
  then have "map unat (into_bytes s) = concat (map utf8_char s)"
    by (auto simp: into_bytes_def unat_of_nat intro!: map_idI)
  moreover have "utf8_read (concat (map utf8_char s)) = Some s"
    using assms by (induction s) (simp_all add: utf8_read_char del: utf8_char.simps utf8_read.simps(2))
  ultimately show ?thesis by (simp add: from_utf8_def)
qed

lemma meta_value_roundtrip:
  "value_lib_ok C \<Longrightarrow> meta_value_encode C mv = Inr b \<Longrightarrow> meta_value_decode C b = Inr mv"
  by (cases mv) (auto simp: value_lib_ok_def meta_value_encode_def meta_value_decode_def ok_or_def
      split: option.splits)

lemma seq_marked_roundtrip:
  "value_lib_ok C \<Longrightarrow> seq_marked_encode C m = Inr b \<Longrightarrow> seq_marked_decode C b = Inr m"
  by (cases m; cases "marked m")
    (auto simp: seq_marked_encode_def seq_marked_decode_def dest: meta_value_roundtrip)

lemma seq_marked_encode_shape:
  "seq_marked_encode C m = Inr b \<Longrightarrow>
   internal_seq b = internal_seq m \<and> (marked b = TombStone \<longleftrightarrow> marked m = TombStone)"
  by (cases "marked m") (auto simp: seq_marked_encode_def)

lemma seq_marked_string_roundtrip:
  assumes "value_lib_ok C" "seq_marked_string_encode C m = Inr b" "\<forall>s. marked m = Normal s \<longrightarrow> valid_str s"
  shows "seq_marked_string_decode C b = Inr m"
proof -
  have "seq_marked_decode C b = Inr (map_seq_marked (\<lambda>s. (None, into_bytes s)) m)"
    using seq_marked_roundtrip [OF assms(1)] assms(2) by (simp add: seq_marked_string_encode_def)
  with assms(3) show ?thesis
    by (cases m; cases "marked m") (auto simp: seq_marked_string_decode_def from_utf8_into_bytes ok_or_def)
qed

lemma seq_marked_string_encode_shape:
  "seq_marked_string_encode C m = Inr b \<Longrightarrow>
   internal_seq b = internal_seq m \<and> (marked b = TombStone \<longleftrightarrow> marked m = TombStone)"
  by (cases m; cases "marked m") (auto simp: seq_marked_string_encode_def dest: seq_marked_encode_shape)

end
