(* ===== verification/Store.thy ===== *)
theory Store
  imports Level_Reads Value_Codec
begin

text \<open>
  The store of a state machine (\<open>leveled_store/db_impl_scoped_seq_bounded_read.rs\<close>,
  \<open>immutable_data\<close>, \<open>leveled_map\<close>, \<open>types.rs\<close>, \<open>util.rs\<close>): a writable level on top of immutable
  levels on top of a table on disk.  Reads go from the top to the bottom; a commit changes the
  writable level only; freezing turns the writable level into the newest immutable level;
  compaction replaces immutable levels, or all of them together with the table on disk, by what
  they contain.

  The table on disk (\<open>rotbl\<close>) is library code: \<open>rotbl_lib\<close>.  The functions of all libraries that
  the store uses are gathered in \<open>store_lib\<close>.  Code that is generic in the key type takes a
  \<open>space\<close>: the functions that the source finds through traits of the key type.  Debug assertions
  run when \<open>sl_debug\<close> is set; a panic is the error \<open>Panicked\<close>.
\<close>

section \<open>Library functions on tables on disk\<close>

type_synonym rotbl_item = "io_error + rstring \<times> bytes seq_marked"

record 'r rotbl_lib =
  r_get :: "'r \<Rightarrow> rstring \<Rightarrow> bytes seq_marked option io_result"
  r_range :: "'r \<Rightarrow> rstring bound \<times> rstring bound \<Rightarrow> rotbl_item list"
  r_order_key :: "bytes seq_marked \<Rightarrow> nat"
  r_kmerge :: "(rotbl_item \<Rightarrow> rotbl_item \<Rightarrow> bool) \<Rightarrow> rotbl_item list list \<Rightarrow> rotbl_item list"
  r_coalesce :: "(rotbl_item \<Rightarrow> rotbl_item \<Rightarrow> (rotbl_item \<times> rotbl_item) + rotbl_item) \<Rightarrow>
    rotbl_item list \<Rightarrow> rotbl_item list"

record ('a, 'b, 'r) store_lib =
  sl_user :: "'a user_lib"
  sl_expire :: "'b expire_lib"
  sl_rotbl :: "'r rotbl_lib"
  sl_value :: value_lib
  sl_debug :: bool

section \<open>Key types\<close>

record ('k, 'v) key_impl =
  ki_prefix :: rstring
  ki_encode :: "'k \<Rightarrow> rstring"
  ki_decode :: "rstring \<Rightarrow> 'k io_result"
  ki_value_encode :: "'v seq_marked \<Rightarrow> bytes seq_marked io_result"
  ki_value_decode :: "bytes seq_marked \<Rightarrow> 'v seq_marked io_result"

record ('a, 'b, 't, 'k, 'v) space =
  sp_table :: "('t, 'k, 'v) table_lib"
  sp_sub :: "('a, 'b) level \<Rightarrow> 't"
  sp_key :: "('k, 'v) key_impl"

definition user_keys :: "('a, 'b, 'r) store_lib \<Rightarrow> ('a, 'b, 'a, rstring, meta_value) space" where
  "user_keys S =
    \<lparr>sp_table = sl_user S, sp_sub = lv_kv,
     sp_key = \<lparr>ki_prefix = user_key_prefix, ki_encode = user_key_encode, ki_decode = user_key_decode,
       ki_value_encode = seq_marked_encode (sl_value S), ki_value_decode = seq_marked_decode (sl_value S)\<rparr>\<rparr>"

definition expire_keys :: "('a, 'b, 'r) store_lib \<Rightarrow> ('a, 'b, 'b, expire_key, rstring) space" where
  "expire_keys S =
    \<lparr>sp_table = sl_expire S, sp_sub = lv_expire,
     sp_key = \<lparr>ki_prefix = expire_key_prefix, ki_encode = expire_key_encode, ki_decode = expire_key_decode,
       ki_value_encode = seq_marked_string_encode (sl_value S),
       ki_value_decode = seq_marked_string_decode (sl_value S)\<rparr>\<rparr>"

definition encode_key_seq_marked ::
  "('k, 'v) key_impl \<Rightarrow> 'k \<Rightarrow> 'v seq_marked \<Rightarrow> (rstring \<times> bytes seq_marked) io_result" where
  "encode_key_seq_marked K k m =
    rbind (ki_value_encode K m) (\<lambda>v. Inr (encode_key (ki_prefix K) (ki_encode K) k, v))"

section \<open>The table on disk\<close>

record snapshot_meta =
  meta_last_log_id :: "log_id option"
  meta_last_membership :: stored_membership
  meta_snapshot_id :: rstring

record 'r db =
  db_storage_path :: rstring
  db_rel_path :: rstring
  db_meta :: snapshot_meta
  db_sys_data :: sys_data
  db_rotbl :: 'r

definition db_last_seq :: "'r db \<Rightarrow> u64" where
  "db_last_seq db = curr_seq (db_sys_data db)"

definition db_inner_range :: "'r rotbl_lib \<Rightarrow> 'r db \<Rightarrow> rotbl_item list" where
  "db_inner_range R db = r_range R (db_rotbl db) (Unbounded, Unbounded)"

definition db_get ::
  "('a, 'b, 'r) store_lib \<Rightarrow> ('a, 'b, 't, 'k, 'v) space \<Rightarrow> 'r db \<Rightarrow> 'k \<Rightarrow> u64 \<Rightarrow> 'v seq_marked io_result" where
  "db_get S P db k snapshot_seq =
    (let K = sp_key P in
     rbind (r_get (sl_rotbl S) (db_rotbl db) (encode_key (ki_prefix K) (ki_encode K) k)) (\<lambda>res.
       case res of
         None \<Rightarrow> Inr (t_not_found (sp_table P))
       | Some raw \<Rightarrow>
           rbind (ki_value_decode K raw) (\<lambda>m.
             if sl_debug S \<and> snapshot_seq < internal_seq m then Inl Panicked else Inr m)))"

definition db_range ::
  "('a, 'b, 'r) store_lib \<Rightarrow> ('a, 'b, 't, 'k, 'v) space \<Rightarrow> 'r db \<Rightarrow> 'k bound \<times> 'k bound \<Rightarrow> u64 \<Rightarrow>
   ('k \<times> 'v seq_marked) strm" where
  "db_range S P db r snapshot_seq =
    (let K = sp_key P in
     map (\<lambda>item.
         rbind item (\<lambda>(str_k, raw).
         rbind (decode_key (ki_prefix K) (ki_decode K) str_k) (\<lambda>k.
         rbind (ki_value_decode K raw) (\<lambda>m.
           if sl_debug S \<and> snapshot_seq < internal_seq m then Inl Panicked else Inr (k, m)))))
       (r_range (sl_rotbl S) (db_rotbl db) (encode_range (ki_prefix K) (ki_encode K) r)))"

section \<open>Immutable data\<close>

record ('a, 'b, 'r) immutable_data =
  id_last_seq :: u64
  id_last_level_index :: "level_index option"
  id_levels :: "('a, 'b) immutable_levels"
  id_persisted :: "'r db option"

definition immutable_data_new ::
  "('a, 'b) immutable_levels \<Rightarrow> 'r db option \<Rightarrow> ('a, 'b, 'r) immutable_data" where
  "immutable_data_new levels persisted =
    \<lparr>id_last_seq =
       (case levels_last_seq levels of
          Some s \<Rightarrow> s
        | None \<Rightarrow> (case persisted of Some db \<Rightarrow> db_last_seq db | None \<Rightarrow> 0)),
     id_last_level_index = newest_level_index levels,
     id_levels = levels,
     id_persisted = persisted\<rparr>"

definition immutable_data_get ::
  "('a, 'b, 'r) store_lib \<Rightarrow> ('a, 'b, 't, 'k, 'v) space \<Rightarrow> ('a, 'b, 'r) immutable_data \<Rightarrow> 'k \<Rightarrow> u64 \<Rightarrow>
   'v seq_marked io_result" where
  "immutable_data_get S P d k s =
    (let got = levels_get (sp_table P) (sp_sub P) (id_levels d) k s in
     if \<not> t_is_not_found (sp_table P) got then Inr got
     else
       case id_persisted d of
         None \<Rightarrow> Inr (t_not_found (sp_table P))
       | Some db \<Rightarrow> db_get S P db k s)"

definition immutable_data_range ::
  "('a, 'b, 'r) store_lib \<Rightarrow> ('a, 'b, 't, 'k, 'v) space \<Rightarrow> ('a, 'b, 'r) immutable_data \<Rightarrow>
   'k bound \<times> 'k bound \<Rightarrow> u64 \<Rightarrow> ('k \<times> 'v seq_marked) strm" where
  "immutable_data_range S P d r s =
    (let T = sp_table P;
         level_strms = map (\<lambda>im. immutable_range T (sp_sub P) im r s) (newest_to_oldest (id_levels d));
         db_strms = (case id_persisted d of None \<Rightarrow> [] | Some db \<Rightarrow> [db_range S P db r s])
     in t_coalesce T (t_kmerge T (level_strms @ db_strms)))"

section \<open>The leveled map\<close>

record ('a, 'b, 'r) leveled_map =
  lm_writable :: "('a, 'b) level"
  lm_immutable :: "('a, 'b, 'r) immutable_data"

definition leveled_map_default :: "('a, 'b, 'r) store_lib \<Rightarrow> ('a, 'b, 'r) leveled_map" where
  "leveled_map_default S =
    \<lparr>lm_writable = level_default (sl_user S) (sl_expire S), lm_immutable = immutable_data_new [] None\<rparr>"

definition lm_get ::
  "('a, 'b, 'r) store_lib \<Rightarrow> ('a, 'b, 't, 'k, 'v) space \<Rightarrow> ('a, 'b, 'r) leveled_map \<Rightarrow> 'k \<Rightarrow> u64 \<Rightarrow>
   'v seq_marked io_result" where
  "lm_get S P lm k s =
    (let got = t_get (sp_table P) (sp_sub P (lm_writable lm)) k s in
     if \<not> t_is_not_found (sp_table P) got then Inr got
     else immutable_data_get S P (lm_immutable lm) k s)"

definition lm_range ::
  "('a, 'b, 'r) store_lib \<Rightarrow> ('a, 'b, 't, 'k, 'v) space \<Rightarrow> ('a, 'b, 'r) leveled_map \<Rightarrow>
   'k bound \<times> 'k bound \<Rightarrow> u64 \<Rightarrow> ('k \<times> 'v seq_marked) strm" where
  "lm_range S P lm r s =
    (let T = sp_table P;
         vec = t_range T (sp_sub P (lm_writable lm)) r s
     in t_coalesce T (t_kmerge T [map Inr vec, immutable_data_range S P (lm_immutable lm) r s]))"

definition lm_with_sys_data ::
  "('a, 'b, 'r) leveled_map \<Rightarrow> (sys_data \<Rightarrow> sys_data) \<Rightarrow> ('a, 'b, 'r) leveled_map" where
  "lm_with_sys_data lm f =
    lm\<lparr>lm_writable := (lm_writable lm)\<lparr>lv_sys_data := f (lv_sys_data (lm_writable lm))\<rparr>\<rparr>"

definition lm_curr_seq :: "('a, 'b, 'r) leveled_map \<Rightarrow> u64" where
  "lm_curr_seq lm = curr_seq (lv_sys_data (lm_writable lm))"

definition lm_persisted :: "('a, 'b, 'r) leveled_map \<Rightarrow> 'r db option" where
  "lm_persisted lm = id_persisted (lm_immutable lm)"

text \<open>The second argument and the second result are the counter of level indexes.\<close>

definition do_freeze_writable ::
  "('a, 'b, 'r) store_lib \<Rightarrow> u64 \<Rightarrow> ('a, 'b, 'r) leveled_map \<Rightarrow> (('a, 'b, 'r) leveled_map \<times> u64) io_result" where
  "do_freeze_writable S n lm =
    (let new_writable = new_level (sl_user S) (sl_expire S) (lm_writable lm);
         (new_immutable, n') = immutable_new n (lm_writable lm)
     in
     rbind (levels_insert new_immutable (id_levels (lm_immutable lm))) (\<lambda>levels.
       Inr (\<lparr>lm_writable = new_writable,
             lm_immutable = immutable_data_new levels (id_persisted (lm_immutable lm))\<rparr>, n')))"

definition replace_immutable_levels ::
  "('a, 'b, 'r) leveled_map \<Rightarrow> ('a, 'b) immutable_levels \<Rightarrow> ('a, 'b, 'r) leveled_map" where
  "replace_immutable_levels lm b =
    lm\<lparr>lm_immutable := immutable_data_new b (id_persisted (lm_immutable lm))\<rparr>"

text \<open>A compactor holds the immutable data as it was when the compaction began.\<close>

record ('a, 'b, 'r) compactor =
  cp_immutable_data :: "('a, 'b, 'r) immutable_data"

definition new_compactor :: "('a, 'b, 'r) leveled_map \<Rightarrow> ('a, 'b, 'r) compactor" where
  "new_compactor lm = \<lparr>cp_immutable_data = lm_immutable lm\<rparr>"

definition compact_immutable_in_place ::
  "('a, 'b, 'r) store_lib \<Rightarrow> ('a, 'b, 'r) compactor \<Rightarrow> ('a, 'b, 'r) compactor io_result" where
  "compact_immutable_in_place S c =
    rbind (compact_all (sl_user S) (sl_expire S) (id_levels (cp_immutable_data c))) (\<lambda>levels.
      Inr (c\<lparr>cp_immutable_data := immutable_data_new levels (id_persisted (cp_immutable_data c))\<rparr>))"

definition replace_with_compacted ::
  "('a, 'b, 'r) leveled_map \<Rightarrow> ('a, 'b, 'r) compactor \<Rightarrow> 'r db \<Rightarrow> ('a, 'b, 'r) leveled_map io_result" where
  "replace_with_compacted lm c db =
    rbind
      (case id_last_level_index (cp_immutable_data c) of
         None \<Rightarrow> Inr (id_levels (lm_immutable lm))
       | Some upto_index \<Rightarrow> remove_levels_upto upto_index (id_levels (lm_immutable lm)))
      (\<lambda>levels. Inr (lm\<lparr>lm_immutable := immutable_data_new levels (Some db)\<rparr>))"

text \<open>
  \<open>ImmutableCompactor::compact\<close>.  The loop that looks for the compacted level, for a log message,
  reads the position before the one it finds; \<open>diff_index\<close> is that loop.
\<close>

fun diff_index :: "level_stat list \<Rightarrow> level_stat list \<Rightarrow> nat \<Rightarrow> nat option" where
  "diff_index (a # old) (b # new) i = (if ls_index a \<noteq> ls_index b then Some i else diff_index old new (i + 1))"
| "diff_index _ _ i = None"

definition immutable_compactor_compact ::
  "('a, 'b, 'r) store_lib \<Rightarrow> ('a, 'b, 'r) leveled_map \<Rightarrow> u64 \<Rightarrow> ('a, 'b, 'r) leveled_map io_result" where
  "immutable_compactor_compact S lm min_snapshot_seq =
    (let A = sl_user S; B = sl_expire S; levels = id_levels (lm_immutable lm) in
     case need_compact A B levels of
       Inl e \<Rightarrow> Inr lm
     | Inr u \<Rightarrow>
         let new_levels = compact_min_adjacent A B levels min_snapshot_seq;
             old_stat = levels_stat A B levels;
             new_stat = levels_stat A B new_levels
         in
         if old_stat = new_stat then Inr lm
         else if diff_index old_stat new_stat 0 = Some 0 then Inl Panicked
         else Inr (replace_immutable_levels lm new_levels))"

text \<open>\<open>in_memory_compact_once\<close>: freeze the writable level, then compact two levels if needed.\<close>

definition in_memory_compact_once ::
  "('a, 'b, 'r) store_lib \<Rightarrow> u64 \<Rightarrow> ('a, 'b, 'r) leveled_map \<Rightarrow> (('a, 'b, 'r) leveled_map \<times> u64) io_result" where
  "in_memory_compact_once S n lm =
    rbind (do_freeze_writable S n lm) (\<lambda>(lm1, n1).
    rbind (immutable_compactor_compact S lm1 u64_max) (\<lambda>lm2. Inr (lm2, n1)))"

section \<open>Name spaces\<close>

datatype namespace = NsUser | NsExpire

definition increments_seq :: "namespace \<Rightarrow> bool" where
  "increments_seq ns = (case ns of NsUser \<Rightarrow> True | NsExpire \<Rightarrow> False)"

datatype skey = KeyUser rstring | KeyExpire expire_key

datatype svalue = ValueUser meta_value | ValueExpire rstring

fun key_into_user :: "skey \<Rightarrow> rstring io_result" where
  "key_into_user (KeyUser k) = Inr k"
| "key_into_user (KeyExpire k) = Inl Panicked"

fun key_into_expire :: "skey \<Rightarrow> expire_key io_result" where
  "key_into_expire (KeyUser k) = Inl Panicked"
| "key_into_expire (KeyExpire k) = Inr k"

fun value_into_user :: "svalue \<Rightarrow> meta_value io_result" where
  "value_into_user (ValueUser v) = Inr v"
| "value_into_user (ValueExpire v) = Inl Panicked"

fun value_into_expire :: "svalue \<Rightarrow> rstring io_result" where
  "value_into_expire (ValueUser v) = Inl Panicked"
| "value_into_expire (ValueExpire v) = Inr v"

definition seq_bounded_get ::
  "('a, 'b, 'r) store_lib \<Rightarrow> ('a, 'b, 'r) leveled_map \<Rightarrow> namespace \<Rightarrow> skey \<Rightarrow> u64 \<Rightarrow> svalue seq_marked io_result" where
  "seq_bounded_get S lm ns key s =
    (case ns of
       NsUser \<Rightarrow>
         rbind (key_into_user key) (\<lambda>k.
         rbind (lm_get S (user_keys S) lm k s) (\<lambda>got. Inr (map_seq_marked ValueUser got)))
     | NsExpire \<Rightarrow>
         rbind (key_into_expire key) (\<lambda>k.
         rbind (lm_get S (expire_keys S) lm k s) (\<lambda>got. Inr (map_seq_marked ValueExpire got))))"

fun bound_map :: "('x \<Rightarrow> 'y io_result) \<Rightarrow> 'x bound \<Rightarrow> 'y bound io_result" where
  "bound_map f (Included x) = rbind (f x) (\<lambda>y. Inr (Included y))"
| "bound_map f (Excluded x) = rbind (f x) (\<lambda>y. Inr (Excluded y))"
| "bound_map f Unbounded = Inr Unbounded"

definition seq_bounded_range ::
  "('a, 'b, 'r) store_lib \<Rightarrow> ('a, 'b, 'r) leveled_map \<Rightarrow> namespace \<Rightarrow> skey bound \<times> skey bound \<Rightarrow> u64 \<Rightarrow>
   (skey \<times> svalue seq_marked) strm io_result" where
  "seq_bounded_range S lm ns r s =
    (case ns of
       NsUser \<Rightarrow>
         rbind (bound_map key_into_user (fst r)) (\<lambda>a.
         rbind (bound_map key_into_user (snd r)) (\<lambda>b.
           Inr (map (map_sum id (\<lambda>(k, v). (KeyUser k, map_seq_marked ValueUser v)))
                 (lm_range S (user_keys S) lm (a, b) s))))
     | NsExpire \<Rightarrow>
         rbind (bound_map key_into_expire (fst r)) (\<lambda>a.
         rbind (bound_map key_into_expire (snd r)) (\<lambda>b.
           Inr (map (map_sum id (\<lambda>(k, v). (KeyExpire k, map_seq_marked ValueExpire v)))
                 (lm_range S (expire_keys S) lm (a, b) s)))))"

section \<open>Commit\<close>

text \<open>
  The changes of one name space: the last sequence number of the table of changes, and its
  entries.
\<close>

type_synonym change_table = "u64 \<times> ((skey \<times> unit seq_marked) \<times> svalue option) list"

definition change_entry ::
  "(skey \<Rightarrow> 'k io_result) \<Rightarrow> (svalue \<Rightarrow> 'v io_result) \<Rightarrow> (skey \<times> unit seq_marked) \<times> svalue option \<Rightarrow>
   (('k \<times> unit seq_marked) \<times> 'v option) io_result" where
  "change_entry fk fv e =
    rbind (fk (fst (fst e))) (\<lambda>k.
    rbind (case snd e of None \<Rightarrow> Inr None | Some v \<Rightarrow> rmap Some (fv v)) (\<lambda>v.
      Inr ((k, snd (fst e)), v)))"

definition commit ::
  "('a, 'b, 'r) store_lib \<Rightarrow> ('a, 'b, 'r) leveled_map \<Rightarrow> u64 \<Rightarrow> change_table option \<Rightarrow> change_table option \<Rightarrow>
   ('a, 'b, 'r) leveled_map io_result" where
  "commit S lm last_seq user_updates expire_updates =
    (let w = lm_writable lm in
     rbind
       (case user_updates of
          None \<Rightarrow> Inr w
        | Some (n, entries) \<Rightarrow>
            rbind (rcollect (map (change_entry key_into_user value_into_user) entries)) (\<lambda>it.
              Inr (w\<lparr>lv_kv := t_apply_changes (sl_user S) (lv_kv w) n it\<rparr>)))
       (\<lambda>w1.
     rbind
       (case expire_updates of
          None \<Rightarrow> Inr w1
        | Some (n, entries) \<Rightarrow>
            rbind (rcollect (map (change_entry key_into_expire value_into_expire) entries)) (\<lambda>it.
              Inr (w1\<lparr>lv_expire := t_apply_changes (sl_expire S) (lv_expire w1) n it\<rparr>)))
       (\<lambda>w2. Inr (lm\<lparr>lm_writable := w2\<lparr>lv_sys_data := update_seq last_seq (lv_sys_data w2)\<rparr>\<rparr>))))"

section \<open>Compaction into one stream\<close>

definition rotbl_by_key_seq :: "'r rotbl_lib \<Rightarrow> rotbl_item \<Rightarrow> rotbl_item \<Rightarrow> bool" where
  "rotbl_by_key_seq R r1 r2 =
    (case (r1, r2) of
       (Inr (k1, v1), Inr (k2, v2)) \<Rightarrow> k1 < k2 \<or> k1 = k2 \<and> r_order_key R v1 \<le> r_order_key R v2
     | _ \<Rightarrow> True)"

definition seq_marked_max :: "bytes seq_marked \<Rightarrow> bytes seq_marked \<Rightarrow> bytes seq_marked" where
  "seq_marked_max a b = (if internal_seq b < internal_seq a then a else b)"

definition rotbl_choose_greater :: "rotbl_item \<Rightarrow> rotbl_item \<Rightarrow> (rotbl_item \<times> rotbl_item) + rotbl_item" where
  "rotbl_choose_greater r1 r2 =
    (case (r1, r2) of
       (Inr (k1, v1), Inr (k2, v2)) \<Rightarrow>
         if k1 = k2 then Inr (Inr (k1, seq_marked_max v1 v2)) else Inl (r1, r2)
     | _ \<Rightarrow> Inl (r1, r2))"

definition encode_items ::
  "('k, 'v) key_impl \<Rightarrow> ('k \<times> 'v seq_marked) strm \<Rightarrow> rotbl_item list" where
  "encode_items K strm = map (\<lambda>item. rbind item (\<lambda>(k, m). encode_key_seq_marked K k m)) strm"

definition compact_into_stream ::
  "('a, 'b, 'r) store_lib \<Rightarrow> ('a, 'b, 'r) immutable_data \<Rightarrow> (sys_data \<times> rotbl_item list) io_result" where
  "compact_into_stream S d =
    (case newest (id_levels d) of
       None \<Rightarrow> Inl Panicked
     | Some im \<Rightarrow>
         let R = sl_rotbl S;
             expire_strm = encode_items (sp_key (expire_keys S))
               (levels_range (sl_expire S) lv_expire (id_levels d) (Included (ExpireKey 0 0), Unbounded) u64_max);
             kv_strm = encode_items (sp_key (user_keys S))
               (levels_range (sl_user S) lv_kv (id_levels d) (Included [], Unbounded) u64_max);
             strm = expire_strm @ kv_strm;
             db_strms = (case id_persisted d of None \<Rightarrow> [] | Some db \<Rightarrow> [db_inner_range R db]);
             merged_strm = r_coalesce R rotbl_choose_greater (r_kmerge R (rotbl_by_key_seq R) (strm # db_strms))
         in Inr (lv_sys_data (im_level im),
              filter (\<lambda>item. case item of Inl e \<Rightarrow> True | Inr (k, v) \<Rightarrow> marked v \<noteq> TombStone) merged_strm))"

end
