(* ===== verification/Store_Reads.thy ===== *)
theory Store_Reads
  imports Store
begin

text \<open>
  What a read of the whole store means: the latest of all versions in the writable level, the
  immutable levels and the table on disk.  The contract of a key type, \<open>store_space\<close>, is what the
  generic reads need; it holds of user keys and of expiration keys.
\<close>

section \<open>Documented behaviour of tables on disk and of merging\<close>

definition order_key_law :: "'r rotbl_lib \<Rightarrow> bool" where
  "order_key_law R \<longleftrightarrow> (\<forall>a b. r_order_key R a \<le> r_order_key R b \<longleftrightarrow> sm_le a b)"

text \<open>\<open>KMerge\<close> of sorted streams is sorted and holds the items of all streams.\<close>

definition kmerge_law :: "'r rotbl_lib \<Rightarrow> bool" where
  "kmerge_law R \<longleftrightarrow>
    (\<forall>le xss. set (r_kmerge R le xss) = \<Union> (set (map set xss)) \<and>
      ((\<forall>x \<in> \<Union> (set (map set xss)). \<forall>y \<in> \<Union> (set (map set xss)). \<forall>z \<in> \<Union> (set (map set xss)).
          (le x y \<or> le y x) \<and> (le x y \<and> le y z \<longrightarrow> le x z)) \<and>
        list_all (sorted_wrt le) xss \<longrightarrow> sorted_wrt le (r_kmerge R le xss)))"

text \<open>\<open>coalesce\<close> merges the first two items as long as the function says so.\<close>

definition coalesce_law :: "'r rotbl_lib \<Rightarrow> bool" where
  "coalesce_law R \<longleftrightarrow>
    (\<forall>f x y zs. r_coalesce R f [] = [] \<and> r_coalesce R f [x] = [x] \<and>
      r_coalesce R f (x # y # zs) =
        (case f x y of Inr z \<Rightarrow> r_coalesce R f (z # zs) | Inl (x', y') \<Rightarrow> x' # r_coalesce R f (y' # zs)))"

text \<open>\<open>C r\<close> is the content of a table: a key has at most one entry, and ranges are in order.\<close>

definition content_law :: "'r rotbl_lib \<Rightarrow> ('r \<Rightarrow> rstring \<Rightarrow> bytes seq_marked option) \<Rightarrow> bool" where
  "content_law R C \<longleftrightarrow>
    (\<forall>r k x. r_get R r k = Inr x \<longrightarrow> x = C r k) \<and>
    (\<forall>r rng. ascending (r_range R r rng) \<and>
      (\<forall>k m. Inr (k, m) \<in> set (r_range R r rng) \<longrightarrow> in_range rng k \<and> C r k = Some m) \<and>
      (\<forall>k m. no_error (r_range R r rng) \<and> in_range rng k \<and> C r k = Some m \<longrightarrow>
        Inr (k, m) \<in> set (r_range R r rng)))"

definition rotbl_ok :: "'r rotbl_lib \<Rightarrow> ('r \<Rightarrow> rstring \<Rightarrow> bytes seq_marked option) \<Rightarrow> bool" where
  "rotbl_ok R C \<longleftrightarrow> order_key_law R \<and> kmerge_law R \<and> coalesce_law R \<and> content_law R C"

lemma content_lawD:
  assumes "rotbl_ok R C"
  shows "r_get R r k = Inr x \<Longrightarrow> x = C r k" "ascending (r_range R r rng)"
    "Inr (k, m) \<in> set (r_range R r rng) \<Longrightarrow> in_range rng k \<and> C r k = Some m"
    "no_error (r_range R r rng) \<Longrightarrow> in_range rng k \<Longrightarrow> C r k = Some m \<Longrightarrow> Inr (k, m) \<in> set (r_range R r rng)"
  using assms unfolding rotbl_ok_def content_law_def by blast+

section \<open>Versions of the store\<close>

definition db_versions ::
  "('a, 'b, 't, 'k, 'v) space \<Rightarrow> ('r \<Rightarrow> rstring \<Rightarrow> bytes seq_marked option) \<Rightarrow> 'r db option \<Rightarrow> 'k \<Rightarrow> 'v seq_marked set" where
  "db_versions P C d k =
    (case d of
       None \<Rightarrow> {}
     | Some db \<Rightarrow>
         (case C (db_rotbl db) (encode_key (ki_prefix (sp_key P)) (ki_encode (sp_key P)) k) of
            None \<Rightarrow> {}
          | Some raw \<Rightarrow> {m. ki_value_decode (sp_key P) raw = Inr m}))"

definition data_versions ::
  "('t \<Rightarrow> 'k \<Rightarrow> 'v seq_marked set) \<Rightarrow> ('a, 'b, 't, 'k, 'v) space \<Rightarrow>
   ('r \<Rightarrow> rstring \<Rightarrow> bytes seq_marked option) \<Rightarrow> ('a, 'b, 'r) immutable_data \<Rightarrow> 'k \<Rightarrow> 'v seq_marked set" where
  "data_versions V P C d k =
    levels_versions V (sp_sub P) (id_levels d) k \<union> db_versions P C (id_persisted d) k"

definition lm_versions ::
  "('t \<Rightarrow> 'k \<Rightarrow> 'v seq_marked set) \<Rightarrow> ('a, 'b, 't, 'k, 'v) space \<Rightarrow>
   ('r \<Rightarrow> rstring \<Rightarrow> bytes seq_marked option) \<Rightarrow> ('a, 'b, 'r) leveled_map \<Rightarrow> 'k \<Rightarrow> 'v seq_marked set" where
  "lm_versions V P C lm k =
    V (sp_sub P (lm_writable lm)) k \<union> data_versions V P C (lm_immutable lm) k"

text \<open>A newer part of the store holds newer versions.\<close>

definition data_inv ::
  "('t \<Rightarrow> 'k \<Rightarrow> 'v seq_marked set) \<Rightarrow> ('a, 'b, 't, 'k, 'v) space \<Rightarrow>
   ('r \<Rightarrow> rstring \<Rightarrow> bytes seq_marked option) \<Rightarrow> ('a, 'b, 'r) immutable_data \<Rightarrow> 'k \<Rightarrow> bool" where
  "data_inv V P C d k \<longleftrightarrow>
    stacked (map (vers V (sp_sub P) k) (newest_to_oldest (id_levels d))) \<and>
    over (levels_versions V (sp_sub P) (id_levels d) k) (db_versions P C (id_persisted d) k) \<and>
    good (data_versions V P C d k)"

definition lm_inv ::
  "('t \<Rightarrow> 'k \<Rightarrow> 'v seq_marked set) \<Rightarrow> ('a, 'b, 't, 'k, 'v) space \<Rightarrow>
   ('r \<Rightarrow> rstring \<Rightarrow> bytes seq_marked option) \<Rightarrow> ('a, 'b, 'r) leveled_map \<Rightarrow> 'k \<Rightarrow> bool" where
  "lm_inv V P C lm k \<longleftrightarrow>
    data_inv V P C (lm_immutable lm) k \<and>
    over (V (sp_sub P (lm_writable lm)) k) (data_versions V P C (lm_immutable lm) k) \<and>
    good (lm_versions V P C lm k)"

lemma data_inv_levels: "data_inv V P C d k \<Longrightarrow> levels_inv V (sp_sub P) (id_levels d) k"
  by (auto simp: data_inv_def levels_inv_def data_versions_def intro: good_subset)

lemma data_inv_db: "data_inv V P C d k \<Longrightarrow> good (db_versions P C (id_persisted d) k)"
  by (auto simp: data_inv_def data_versions_def intro: good_subset)

section \<open>Single reads\<close>

text \<open>What a read shows when the table on disk answers.\<close>

definition db_shown ::
  "('a, 'b, 't, 'k, 'v) space \<Rightarrow> ('r \<Rightarrow> rstring \<Rightarrow> bytes seq_marked option) \<Rightarrow> 'r db option \<Rightarrow> 'k \<Rightarrow> 'v seq_marked" where
  "db_shown P C d k =
    (case d of
       None \<Rightarrow> not_found
     | Some db \<Rightarrow>
         (case C (db_rotbl db) (encode_key (ki_prefix (sp_key P)) (ki_encode (sp_key P)) k) of
            None \<Rightarrow> not_found
          | Some raw \<Rightarrow> (case ki_value_decode (sp_key P) raw of Inl e \<Rightarrow> not_found | Inr m \<Rightarrow> m)))"

definition data_shown ::
  "('a, 'b, 't, 'k, 'v) space \<Rightarrow> ('r \<Rightarrow> rstring \<Rightarrow> bytes seq_marked option) \<Rightarrow> ('a, 'b, 'r) immutable_data \<Rightarrow>
   'k \<Rightarrow> u64 \<Rightarrow> 'v seq_marked" where
  "data_shown P C d k s =
    (let g = levels_get (sp_table P) (sp_sub P) (id_levels d) k s
     in if g \<noteq> not_found then g else db_shown P C (id_persisted d) k)"

definition lm_shown ::
  "('a, 'b, 't, 'k, 'v) space \<Rightarrow> ('r \<Rightarrow> rstring \<Rightarrow> bytes seq_marked option) \<Rightarrow> ('a, 'b, 'r) leveled_map \<Rightarrow>
   'k \<Rightarrow> u64 \<Rightarrow> 'v seq_marked" where
  "lm_shown P C lm k s =
    (let g = t_get (sp_table P) (sp_sub P (lm_writable lm)) k s
     in if g \<noteq> not_found then g else data_shown P C (lm_immutable lm) k s)"

lemma db_get_shown:
  assumes "rotbl_ok (sl_rotbl S) C" "t_not_found (sp_table P) = not_found" "db_get S P db k s = Inr m"
  shows "m = db_shown P C (Some db) k"
proof -
  let ?K = "sp_key P"
  let ?str = "encode_key (ki_prefix ?K) (ki_encode ?K) k"
  obtain x where x: "r_get (sl_rotbl S) (db_rotbl db) ?str = Inr x"
    using assms(3) by (cases "r_get (sl_rotbl S) (db_rotbl db) ?str") (auto simp: db_get_def)
  then have "C (db_rotbl db) ?str = x" using content_lawD(1) [OF assms(1)] by metis
  with assms(2,3) x show ?thesis
    by (cases x) (auto simp: db_get_def db_shown_def Let_def split: if_splits)
qed

lemma immutable_data_get_shown:
  assumes "table_ok (sp_table P) V" "rotbl_ok (sl_rotbl S) C" "immutable_data_get S P d k s = Inr m"
  shows "m = data_shown P C d k s"
proof (cases "levels_get (sp_table P) (sp_sub P) (id_levels d) k s = not_found")
  case True
  with assms(3) db_get_shown [OF assms(2) table_okD(1) [OF assms(1)]] show ?thesis
    by (cases "id_persisted d")
      (auto simp: immutable_data_get_def data_shown_def db_shown_def table_okD(1,2) [OF assms(1)])
next
  case False
  with assms(3) show ?thesis
    by (simp add: immutable_data_get_def data_shown_def table_okD(2) [OF assms(1)])
qed

lemma lm_get_shown:
  assumes "table_ok (sp_table P) V" "rotbl_ok (sl_rotbl S) C" "lm_get S P lm k s = Inr m"
  shows "m = lm_shown P C lm k s"
  using immutable_data_get_shown [OF assms(1,2)] assms(3)
  by (auto simp: lm_get_def lm_shown_def Let_def table_okD(2) [OF assms(1)] split: if_splits)

section \<open>Reads show the latest version\<close>

lemma db_shown_latest:
  "upto (db_versions P C d k) s \<Longrightarrow> is_latest (db_versions P C d k) s (db_shown P C d k)"
  by (auto simp: db_versions_def db_shown_def is_latest_def upto_def split: option.splits sum.splits)

lemma data_shown_latest:
  assumes "table_ok (sp_table P) V" "data_inv V P C d k" "upto (db_versions P C (id_persisted d) k) s"
  shows "is_latest (data_versions V P C d k) s (data_shown P C d k s)"
  unfolding data_shown_def data_versions_def Let_def
  using assms(2) levels_get_latest [OF assms(1) data_inv_levels [OF assms(2)]]
  by (intro is_latest_over db_shown_latest assms(3)) (auto simp: data_inv_def data_inv_db [OF assms(2)])

lemma lm_shown_latest:
  assumes "table_ok (sp_table P) V" "lm_inv V P C lm k" "upto (db_versions P C (lm_persisted lm) k) s"
  shows "is_latest (lm_versions V P C lm k) s (lm_shown P C lm k s)"
proof -
  have inv: "data_inv V P C (lm_immutable lm) k"
    "over (V (sp_sub P (lm_writable lm)) k) (data_versions V P C (lm_immutable lm) k)"
    using assms(2) by (simp_all add: lm_inv_def)
  then have "is_latest (data_versions V P C (lm_immutable lm) k) s (data_shown P C (lm_immutable lm) k s)"
    using data_shown_latest [OF assms(1)] assms(3) by (simp add: lm_persisted_def)
  with inv show ?thesis
    unfolding lm_shown_def lm_versions_def Let_def
    by (intro is_latest_over table_okD(4) [OF assms(1)]) (auto simp: data_inv_def)
qed

section \<open>Ranges show what single reads show\<close>

lemma picks_latest:
  assumes "good S" "is_latest S s m" "\<And>x. x \<in> set ms \<Longrightarrow> x = not_found \<or> x \<in> S \<and> internal_seq x \<le> s"
    and "m = not_found \<or> m \<in> set ms"
  shows "picks ms m"
proof -
  have "good (set ms - {not_found})"
    using assms(1) by (rule good_subset) (use assms(3) in blast)
  moreover have "sm_le x m" if "x \<in> set ms" "x \<noteq> not_found" for x
    using assms(2,3) that by (auto simp: is_latest_def split: if_splits)
  ultimately show ?thesis using assms(4) by (simp add: picks_def)
qed

lemma picks_only:
  assumes "\<And>x. x \<in> set ms \<Longrightarrow> x = not_found \<or> x = m" "m = not_found \<or> m \<in> set ms" "good {m}"
  shows "picks ms m"
proof -
  have "set ms - {not_found} \<subseteq> {m}" using assms(1) by blast
  then have "good (set ms - {not_found})" by (rule good_subset [OF assms(3)])
  moreover have "sm_le m m" by (simp add: sm_le_def)
  then have "\<forall>x \<in> set ms. x \<noteq> not_found \<longrightarrow> sm_le x m" using assms(1) by blast
  ultimately show ?thesis using assms(2) by (simp add: picks_def)
qed

text \<open>
  The table on disk is read whatever the sequence number.  When it has a later version of a key, the
  levels above it, whose versions are later still, show nothing of the key.
\<close>

lemma later_below_hides:
  assumes "table_ok T V" "over (V t k) R" "\<not> upto R s"
  shows "t_get T t k s = not_found"
proof (rule ccontr)
  assume "t_get T t k s \<noteq> not_found"
  note g = get_found [OF assms(1) this]
  obtain v where "v \<in> R" "\<not> internal_seq v \<le> s" using assms(3) by (auto simp: upto_def)
  moreover have "sm_le v (t_get T t k s)" using assms(2) g(1) \<open>v \<in> R\<close> by (simp add: over_def)
  then have "internal_seq v \<le> internal_seq (t_get T t k s)" by (auto simp: sm_le_def)
  ultimately show False using g(2) by simp
qed

text \<open>The keys of a table on disk under the prefix of a key type are encoded keys.\<close>

definition db_keys_ok ::
  "('a, 'b, 't, 'k, 'v) space \<Rightarrow> ('r \<Rightarrow> rstring \<Rightarrow> bytes seq_marked option) \<Rightarrow> 'r db option \<Rightarrow> bool" where
  "db_keys_ok P C d \<longleftrightarrow>
    (\<forall>db str raw. d = Some db \<and> prefix (ki_prefix (sp_key P) @ ascii ''/'') str \<and> C (db_rotbl db) str = Some raw \<longrightarrow>
      (\<exists>k. str = encode_key (ki_prefix (sp_key P)) (ki_encode (sp_key P)) k))"

locale store_space =
  fixes S :: "('a, 'b, 'r) store_lib" and P :: "('a, 'b, 't, 'k :: linorder, 'v) space" and lo :: 'k
  assumes tables: "sub_table (sl_user S) (sl_expire S) (sp_table P) (sp_sub P) lo"
    and keys: "key_space (ki_encode (sp_key P)) (ki_decode (sp_key P))"
    and encode_shape: "ki_value_encode (sp_key P) m = Inr raw \<Longrightarrow>
      internal_seq raw = internal_seq m \<and> (marked raw = TombStone \<longleftrightarrow> marked m = TombStone)"
    and decode_shape: "ki_value_decode (sp_key P) raw = Inr m \<Longrightarrow>
      internal_seq raw = internal_seq m \<and> (marked raw = TombStone \<longleftrightarrow> marked m = TombStone)"

sublocale store_space \<subseteq> sub_table "sl_user S" "sl_expire S" "sp_table P" "sp_sub P" lo
  by (rule tables)

sublocale store_space \<subseteq> key_space "ki_prefix (sp_key P)" "ki_encode (sp_key P)" "ki_decode (sp_key P)"
  by (rule keys)

context store_space
begin

lemma encode_inj:
  "encode_key (ki_prefix (sp_key P)) (ki_encode (sp_key P)) a =
   encode_key (ki_prefix (sp_key P)) (ki_encode (sp_key P)) b \<longleftrightarrow> a = b"
  by (metis decode_encode sum.inject(2))

lemma sorted_decoded:
  assumes "no_error (map f xs)" "sorted_wrt (<) (map fst (ok_items xs))"
    and "\<And>str raw y. Inr (str, raw) \<in> set xs \<Longrightarrow> f (Inr (str, raw)) = Inr y \<Longrightarrow>
      str = encode_key (ki_prefix (sp_key P)) (ki_encode (sp_key P)) (fst y)"
    and "\<And>e. f (Inl e) = Inl e"
  shows "sorted_wrt (<) (map fst (ok_items (map f xs)))"
  using assms(1-3)
proof (induction xs)
  case (Cons x xs)
  let ?enc = "encode_key (ki_prefix (sp_key P)) (ki_encode (sp_key P))"
  obtain str raw where x: "x = Inr (str, raw)"
    using Cons.prems(1) assms(4) by (cases x) (auto simp: no_error_def)
  then obtain y where y: "f x = Inr y" using Cons.prems(1) by (cases "f x") (auto simp: no_error_def)
  have str: "str = ?enc (fst y)" using Cons.prems(3) [of str raw y] x y by simp
  have rest: "sorted_wrt (<) (map fst (ok_items (map f xs)))"
    using Cons.prems by (intro Cons.IH) (auto simp: no_error_def x)
  have "fst y < fst z" if item: "z \<in> set (ok_items (map f xs))" for z
  proof -
    obtain w where w: "w \<in> set xs" "f w = Inr z" using item by (auto simp: ok_items_iff)
    obtain str' raw' where w': "w = Inr (str', raw')" using w(2) assms(4) by (cases w) auto
    then have "(str', raw') \<in> set (ok_items xs)" using w(1) by (simp add: ok_items_iff)
    then have "str < str'" using Cons.prems(2) by (fastforce simp: x)
    moreover have "str' = ?enc (fst z)" using Cons.prems(3) [of str' raw' z] w w' by simp
    ultimately show ?thesis using str by (simp add: encode_key_def enc_less)
  qed
  with rest show ?case by (simp add: y)
qed simp

lemma db_range_shows:
  assumes "rotbl_ok (sl_rotbl S) C" "db_keys_ok P C (Some db)" "no_error (db_range S P db r s)"
  shows "range_shows r (db_shown P C (Some db)) (ok_items (db_range S P db r s))"
proof -
  let ?K = "sp_key P"
  let ?enc = "encode_key (ki_prefix ?K) (ki_encode ?K)"
  let ?xs = "r_range (sl_rotbl S) (db_rotbl db) (encode_range (ki_prefix ?K) (ki_encode ?K) r)"
  define f where "f = (\<lambda>item. rbind item (\<lambda>(str_k, raw).
         rbind (decode_key (ki_prefix ?K) (ki_decode ?K) str_k) (\<lambda>k.
         rbind (ki_value_decode ?K raw) (\<lambda>m.
           if sl_debug S \<and> s < internal_seq m then Inl Panicked else Inr (k, m)))))"
  have out: "db_range S P db r s = map f ?xs" by (simp add: db_range_def Let_def f_def)
  have ne: "no_error ?xs"
    using assms(3) by (auto simp: out no_error_def list_all_iff f_def isl_def)
  have key: "\<exists>k m. str = ?enc k \<and> in_range r k \<and> ki_value_decode ?K raw = Inr m \<and>
      f (Inr (str, raw)) = Inr (k, m) \<and> db_shown P C (Some db) k = m" if item: "Inr (str, raw) \<in> set ?xs" for str raw
  proof -
    have in_r: "in_range (encode_range (ki_prefix ?K) (ki_encode ?K) r) str" and C: "C (db_rotbl db) str = Some raw"
      using content_lawD(3) [OF assms(1) item] by simp_all
    obtain k where k: "str = ?enc k"
      using assms(2) in_range_prefix [OF in_r] C by (auto simp: db_keys_ok_def)
    have "\<not> isl (f (Inr (str, raw)))" using assms(3) item by (auto simp: out no_error_def list_all_iff)
    then obtain y where y: "f (Inr (str, raw)) = Inr y" by (cases "f (Inr (str, raw))") auto
    then obtain m where "ki_value_decode ?K raw = Inr m" "y = (k, m)"
      by (auto simp: f_def k decode_encode split: if_splits)
    with k y in_r C show ?thesis by (auto simp: in_range_encode db_shown_def)
  qed
  have "sorted_wrt (<) (map fst (ok_items (map f ?xs)))"
  proof (rule sorted_decoded)
    show "no_error (map f ?xs)" using assms(3) by (simp add: out)
    show "sorted_wrt (<) (map fst (ok_items ?xs))"
      using content_lawD(2) [OF assms(1)] by (simp add: ascending_def)
    show "str = ?enc (fst y)" if "Inr (str, raw) \<in> set ?xs" "f (Inr (str, raw)) = Inr y" for str raw y
      using key [OF that(1)] that(2) by auto
  qed (simp add: f_def)
  moreover have "in_range r k \<and> m = db_shown P C (Some db) k" if item: "Inr (k, m) \<in> set (map f ?xs)" for k m
  proof -
    obtain w where w: "w \<in> set ?xs" "f w = Inr (k, m)" using item by auto
    moreover obtain str raw where "w = Inr (str, raw)" using w(2) by (cases w) (auto simp: f_def)
    ultimately show ?thesis using key by fastforce
  qed
  moreover have "Inr (k, db_shown P C (Some db) k) \<in> set (map f ?xs)"
    if k: "in_range r k" "db_shown P C (Some db) k \<noteq> not_found" for k
  proof -
    obtain raw where raw: "C (db_rotbl db) (?enc k) = Some raw"
      using k(2) by (auto simp: db_shown_def split: option.splits)
    have item: "Inr (?enc k, raw) \<in> set ?xs"
      by (rule content_lawD(4) [OF assms(1) ne _ raw]) (simp add: in_range_encode k(1))
    from key [OF this] have "f (Inr (?enc k, raw)) = Inr (k, db_shown P C (Some db) k)"
      by (auto simp: encode_inj)
    with item show ?thesis by (metis image_eqI set_map)
  qed
  ultimately show ?thesis by (simp add: range_shows_def out ok_items_iff)
qed

lemma db_shown_in:
  "db_shown P C d k = not_found \<or> db_shown P C d k \<in> db_versions P C d k"
  by (auto simp: db_shown_def db_versions_def split: option.splits sum.splits)

lemma data_shown_good:
  assumes "table_ok (sp_table P) V" "data_inv V P C d k"
  shows "good {data_shown P C d k s}"
proof (cases "data_shown P C d k s = not_found")
  case True
  then show ?thesis by (simp add: good_def not_found_def)
next
  case False
  let ?g = "levels_get (sp_table P) (sp_sub P) (id_levels d) k s"
  have "?g = not_found \<or> ?g \<in> data_versions V P C d k"
  proof (cases "?g = not_found")
    case g: False
    then obtain im where im: "im \<in> set (newest_to_oldest (id_levels d))" "?g = t_get (sp_table P) (sp_sub P (im_level im)) k s"
      using get_newest_first_cases [OF assms(1), of "sp_sub P" "newest_to_oldest (id_levels d)" k s]
      by (auto simp: levels_get_def immutable_get_def)
    have "?g \<in> V (sp_sub P (im_level im)) k" using get_found(1) [OF assms(1)] g im(2) by metis
    with im(1) show ?thesis by (auto simp: data_versions_def levels_versions_def vers_def)
  qed simp
  then have "data_shown P C d k s \<in> data_versions V P C d k"
    using False db_shown_in [of C "id_persisted d" k] by (auto simp: data_shown_def Let_def data_versions_def)
  then show ?thesis
    using good_subset [of "data_versions V P C d k"] assms(2) by (simp add: data_inv_def)
qed

lemma immutable_data_range_shows:
  assumes "table_ok (sp_table P) V" "rotbl_ok (sl_rotbl S) C" "db_keys_ok P C (id_persisted d)"
    and inv: "\<And>k. in_range r k \<Longrightarrow> data_inv V P C d k"
    and "no_error (immutable_data_range S P d r s)"
  shows "range_shows r (\<lambda>k. data_shown P C d k s) (ok_items (immutable_data_range S P d r s))"
proof -
  let ?T = "sp_table P" and ?ims = "newest_to_oldest (id_levels d)"
  define xs where "xs = map (\<lambda>im. immutable_range ?T (sp_sub P) im r s) ?ims"
  define ds where "ds = (case id_persisted d of None \<Rightarrow> [] | Some db \<Rightarrow> [db_range S P db r s])"
  define fs where "fs = map (\<lambda>im k. immutable_get ?T (sp_sub P) im k s) ?ims"
  define gs where "gs = (case id_persisted d of None \<Rightarrow> [] | Some db \<Rightarrow> [db_shown P C (Some db)])"
  have out: "immutable_data_range S P d r s = t_coalesce ?T (t_kmerge ?T (xs @ ds))"
    by (simp add: immutable_data_range_def xs_def ds_def Let_def)
  have merged: "merged (xs @ ds) (immutable_data_range S P d r s)"
    unfolding out by (rule table_okD(9) [OF assms(1)])
  with assms(5) have "list_all no_error (xs @ ds)" by (simp add: merged_def)
  then have "list_all2 (\<lambda>x f. no_error x \<and> range_shows r f (ok_items x)) ds gs"
    using db_range_shows [OF assms(2)] assms(3) by (auto simp: ds_def gs_def split: option.splits)
  moreover have "list_all2 (\<lambda>x f. no_error x \<and> range_shows r f (ok_items x)) xs fs"
    by (simp add: list_all2_conv_all_nth xs_def fs_def immutable_range_def immutable_get_def table_okD(5) [OF assms(1)])
  ultimately have all2: "list_all2 (\<lambda>x f. no_error x \<and> range_shows r f (ok_items x)) (xs @ ds) (fs @ gs)"
    by (rule list_all2_appendI [rotated])
  have gs: "map (\<lambda>f. f k) gs = (if id_persisted d = None then [] else [db_shown P C (id_persisted d) k])" for k
    by (auto simp: gs_def split: option.splits)
  have shown_in: "data_shown P C d k s = not_found \<or> data_shown P C d k s \<in> set (map (\<lambda>f. f k) (fs @ gs))" for k
    using get_newest_first_cases [OF assms(1), of "sp_sub P" ?ims k s]
    unfolding map_append gs by (auto simp: fs_def data_shown_def levels_get_def Let_def db_shown_def)
  have "picks (map (\<lambda>f. f k) (fs @ gs)) (data_shown P C d k s)" if k: "in_range r k" for k
  proof (cases "upto (db_versions P C (id_persisted d) k) s")
    case up: True
    show ?thesis
    proof (rule picks_latest)
      show "good (data_versions V P C d k)" using inv [OF k] by (simp add: data_inv_def)
      show "is_latest (data_versions V P C d k) s (data_shown P C d k s)"
        by (rule data_shown_latest [OF assms(1) inv [OF k] up])
      have lev: "immutable_get ?T (sp_sub P) im k s = not_found \<or>
          immutable_get ?T (sp_sub P) im k s \<in> data_versions V P C d k \<and>
          internal_seq (immutable_get ?T (sp_sub P) im k s) \<le> s" if "im \<in> set ?ims" for im
        using get_found [OF assms(1), of "sp_sub P (im_level im)" k s] that
        by (auto simp: immutable_get_def data_versions_def levels_versions_def vers_def)
      have bottom: "db_shown P C (id_persisted d) k = not_found \<or>
          db_shown P C (id_persisted d) k \<in> data_versions V P C d k \<and> internal_seq (db_shown P C (id_persisted d) k) \<le> s"
        using db_shown_in [of C "id_persisted d" k] up by (auto simp: data_versions_def upto_def)
      show "x = not_found \<or> x \<in> data_versions V P C d k \<and> internal_seq x \<le> s"
        if x: "x \<in> set (map (\<lambda>f. f k) (fs @ gs))" for x
        using x lev bottom unfolding map_append gs by (auto simp: fs_def split: if_splits)
    qed (rule shown_in)
  next
    case False
    have lev: "immutable_get ?T (sp_sub P) im k s = not_found" if "im \<in> set ?ims" for im
      unfolding immutable_get_def
      using that inv [OF k] False
      by (intro later_below_hides [OF assms(1)]) (auto simp: data_inv_def levels_versions_def vers_def over_def)
    then have fs: "map (\<lambda>f. f k) fs = map (\<lambda>im. not_found) ?ims" by (simp add: fs_def)
    have "get_newest_first ?T (sp_sub P) ?ims k s = not_found"
      using get_newest_first_cases [OF assms(1), of "sp_sub P" ?ims k s] lev by metis
    then have shown: "data_shown P C d k s = db_shown P C (id_persisted d) k" by (simp add: data_shown_def levels_get_def)
    show ?thesis
    proof (rule picks_only)
      show "x = not_found \<or> x = data_shown P C d k s" if "x \<in> set (map (\<lambda>f. f k) (fs @ gs))" for x
        using that unfolding map_append fs gs shown by (cases "id_persisted d") auto
      show "good {data_shown P C d k s}" by (rule data_shown_good [OF assms(1) inv [OF k]])
    qed (rule shown_in)
  qed
  from merged_range [OF merged all2 this] show ?thesis by simp
qed

lemma lm_range_shows:
  assumes "table_ok (sp_table P) V" "rotbl_ok (sl_rotbl S) C" "db_keys_ok P C (lm_persisted lm)"
    and inv: "\<And>k. in_range r k \<Longrightarrow> lm_inv V P C lm k"
    and "no_error (lm_range S P lm r s)"
  shows "range_shows r (\<lambda>k. lm_shown P C lm k s) (ok_items (lm_range S P lm r s))"
proof -
  let ?T = "sp_table P" and ?d = "lm_immutable lm" and ?w = "sp_sub P (lm_writable lm)"
  define xs where "xs = [map Inr (t_range ?T ?w r s), immutable_data_range S P ?d r s]"
  define fs where "fs = [(\<lambda>k. t_get ?T ?w k s), (\<lambda>k. data_shown P C ?d k s)]"
  have data: "data_inv V P C ?d k" if "in_range r k" for k
    using inv [OF that] by (simp add: lm_inv_def)
  have merged: "merged xs (lm_range S P lm r s)"
    unfolding xs_def lm_range_def Let_def by (rule table_okD(9) [OF assms(1)])
  with assms(5) have "no_error (immutable_data_range S P ?d r s)" by (simp add: merged_def xs_def)
  then have all2: "list_all2 (\<lambda>x f. no_error x \<and> range_shows r f (ok_items x)) xs fs"
    using immutable_data_range_shows [OF assms(1,2) _ data] assms(3)
    by (simp add: xs_def fs_def table_okD(5) [OF assms(1)] lm_persisted_def)
  have shown_in: "lm_shown P C lm k s = not_found \<or> lm_shown P C lm k s \<in> set (map (\<lambda>f. f k) fs)" for k
    by (auto simp: fs_def lm_shown_def Let_def)
  have "picks (map (\<lambda>f. f k) fs) (lm_shown P C lm k s)" if k: "in_range r k" for k
  proof (cases "upto (data_versions V P C ?d k) s \<or> upto (db_versions P C (lm_persisted lm) k) s")
    case True
    then have up: "upto (db_versions P C (lm_persisted lm) k) s"
      by (auto simp: upto_def data_versions_def lm_persisted_def)
    show ?thesis
    proof (rule picks_latest)
      show "good (lm_versions V P C lm k)" using inv [OF k] by (simp add: lm_inv_def)
      show "is_latest (lm_versions V P C lm k) s (lm_shown P C lm k s)"
        by (rule lm_shown_latest [OF assms(1) inv [OF k] up])
      have "is_latest (data_versions V P C ?d k) s (data_shown P C ?d k s)"
        using data_shown_latest [OF assms(1) data [OF k]] up by (simp add: lm_persisted_def)
      then have "data_shown P C ?d k s = not_found \<or>
          data_shown P C ?d k s \<in> data_versions V P C ?d k \<and> internal_seq (data_shown P C ?d k s) \<le> s"
        by (auto simp: is_latest_def split: if_splits)
      with get_found [OF assms(1), of ?w k s]
      show "x = not_found \<or> x \<in> lm_versions V P C lm k \<and> internal_seq x \<le> s"
        if x: "x \<in> set (map (\<lambda>f. f k) fs)" for x
        using x by (auto simp: fs_def lm_versions_def)
    qed (rule shown_in)
  next
    case False
    have hidden: "t_get ?T ?w k s = not_found"
      using inv [OF k] False by (intro later_below_hides [OF assms(1)]) (auto simp: lm_inv_def)
    then have "lm_shown P C lm k s = data_shown P C ?d k s" by (simp add: lm_shown_def)
    then have shown: "map (\<lambda>f. f k) fs = [not_found, lm_shown P C lm k s]" using hidden by (simp add: fs_def)
    show ?thesis
      unfolding shown
      by (rule picks_only) (use data_shown_good [OF assms(1) data [OF k]] \<open>lm_shown P C lm k s = _\<close> in auto)
  qed
  from merged_range [OF merged all2 this] show ?thesis by simp
qed

end

end
