(* ===== verification/Store_Merge.thy ===== *)
theory Store_Merge
  imports Store_Reads
begin

text \<open>
  How \<open>compact_into_stream\<close> merges the entries of the immutable levels with those on disk: the
  merged stream is in the order of the encoded keys and holds the greatest entry of every key.
  The contract of a key type is proved of user keys and of expiration keys.
\<close>

section \<open>Merging streams of encoded entries\<close>

text \<open>\<open>coalesce\<close> with \<open>rotbl_choose_greater\<close>, as the law of the library gives it.\<close>

function coal :: "rotbl_item list \<Rightarrow> rotbl_item list" where
  "coal [] = []"
| "coal [x] = [x]"
| "coal (x # y # zs) =
    (case rotbl_choose_greater x y of Inr z \<Rightarrow> coal (z # zs) | Inl (x', y') \<Rightarrow> x' # coal (y' # zs))"
  by pat_completeness auto
termination
  by (relation "measure length") auto

lemma coalesce_coal: "coalesce_law R \<Longrightarrow> r_coalesce R rotbl_choose_greater xs = coal xs"
  by (induction xs rule: coal.induct) (auto simp: coalesce_law_def split: sum.splits prod.splits)

lemma choose_greater_cases:
  "rotbl_choose_greater (Inr (k1, v1)) (Inr (k2, v2)) =
    (if k1 = k2 then Inr (Inr (k1, seq_marked_max v1 v2)) else Inl (Inr (k1, v1), Inr (k2, v2)))"
  "rotbl_choose_greater (Inl e) y = Inl (Inl e, y)"
  "rotbl_choose_greater x (Inl e) = Inl (x, Inl e)"
  by (auto simp: rotbl_choose_greater_def split: sum.splits)

lemma coal_error: "no_error (coal xs) \<Longrightarrow> no_error xs"
proof (induction xs rule: coal.induct)
  case (3 x y zs)
  have "(\<exists>z. rotbl_choose_greater x y = Inr z \<and> \<not> isl x \<and> \<not> isl y) \<or> rotbl_choose_greater x y = Inl (x, y)"
    by (cases x; cases y) (auto simp: choose_greater_cases split: if_splits)
  then consider z where "rotbl_choose_greater x y = Inr z" "\<not> isl x" "\<not> isl y"
    | "rotbl_choose_greater x y = Inl (x, y)" by blast
  then show ?case
  proof cases
    case 1
    with 3 show ?thesis by (auto simp: no_error_def)
  next
    case 2
    with "3.prems" "3.IH"(1) [of "(x, y)" x y] show ?thesis by (auto simp: no_error_def)
  qed
qed simp_all

definition key_sorted :: "rotbl_item list \<Rightarrow> bool" where
  "key_sorted xs \<longleftrightarrow>
    sorted_wrt (\<lambda>a b. fst a < fst b \<or> fst a = fst b \<and> sm_le (snd a) (snd b)) (ok_items xs)"

lemma coal_sorted:
  assumes "no_error xs" "key_sorted xs"
  shows "no_error (coal xs) \<and> ascending (coal xs) \<and>
    (\<forall>k v. Inr (k, v) \<in> set (coal xs) \<longrightarrow>
      Inr (k, v) \<in> set xs \<and> (\<forall>v'. Inr (k, v') \<in> set xs \<longrightarrow> sm_le v' v)) \<and>
    (\<forall>k v. Inr (k, v) \<in> set xs \<longrightarrow> (\<exists>v'. Inr (k, v') \<in> set (coal xs)))"
  using assms
proof (induction xs rule: coal.induct)
  case (2 x)
  then show ?case by (cases x) (auto simp: no_error_def ascending_def)
next
  case (3 x y zs)
  obtain k1 v1 k2 v2 where x: "x = Inr (k1, v1)" and y: "y = Inr (k2, v2)"
    using "3.prems"(1) by (cases x; cases y) (auto simp: no_error_def)
  have ne: "no_error (y # zs)" and srt: "key_sorted (y # zs)"
    using "3.prems" by (auto simp: no_error_def key_sorted_def x)
  have le: "k1 < k2 \<or> k1 = k2 \<and> sm_le v1 v2"
    using "3.prems"(2) by (simp add: key_sorted_def x y)
  have later: "k1 < k \<or> k1 = k \<and> sm_le v1 v" if "Inr (k, v) \<in> set (y # zs)" for k v
    using "3.prems"(2) that by (auto simp: key_sorted_def x y ok_items_iff [symmetric])
  show ?case
  proof (cases "k1 = k2")
    case True
    then have "seq_marked_max v1 v2 = v2" using le by (auto simp: seq_marked_max_def sm_le_def)
    then have eq: "coal (x # y # zs) = coal (y # zs)"
      by (simp add: x y choose_greater_cases True)
    note IH = "3.IH"(2) [of y]
    have IH: "no_error (coal (y # zs)) \<and> ascending (coal (y # zs)) \<and>
        (\<forall>k v. Inr (k, v) \<in> set (coal (y # zs)) \<longrightarrow>
          Inr (k, v) \<in> set (y # zs) \<and> (\<forall>v'. Inr (k, v') \<in> set (y # zs) \<longrightarrow> sm_le v' v)) \<and>
        (\<forall>k v. Inr (k, v) \<in> set (y # zs) \<longrightarrow> (\<exists>v'. Inr (k, v') \<in> set (coal (y # zs))))"
      by (rule IH) (use ne srt True \<open>seq_marked_max v1 v2 = v2\<close> in \<open>auto simp: x y choose_greater_cases\<close>)
    have "sm_le v1 v" if "Inr (k1, v) \<in> set (coal (y # zs))" for v
      using IH that later by fastforce
    with IH True show ?thesis unfolding eq by (auto simp: x y)
  next
    case False
    have eq: "coal (x # y # zs) = x # coal (y # zs)"
      using False by (simp add: x y choose_greater_cases)
    have IH: "no_error (coal (y # zs)) \<and> ascending (coal (y # zs)) \<and>
        (\<forall>k v. Inr (k, v) \<in> set (coal (y # zs)) \<longrightarrow>
          Inr (k, v) \<in> set (y # zs) \<and> (\<forall>v'. Inr (k, v') \<in> set (y # zs) \<longrightarrow> sm_le v' v)) \<and>
        (\<forall>k v. Inr (k, v) \<in> set (y # zs) \<longrightarrow> (\<exists>v'. Inr (k, v') \<in> set (coal (y # zs))))"
      by (rule "3.IH"(1) [of "(x, y)" x y]) (use ne srt False in \<open>auto simp: x y choose_greater_cases\<close>)
    have greater: "k1 < k" if "Inr (k, v) \<in> set (y # zs)" for k v
    proof -
      have "k2 \<le> k" using srt that by (auto simp: key_sorted_def y ok_items_iff [symmetric])
      with le False show ?thesis by auto
    qed
    have "ascending (x # coal (y # zs))"
      using IH greater by (fastforce simp: ascending_def x ok_items_iff)
    moreover have "no_error (x # coal (y # zs))" using IH by (simp add: no_error_def x)
    ultimately show ?thesis
      unfolding eq using IH greater by (fastforce simp: x)
  qed
qed (simp add: no_error_def ascending_def)

section \<open>The merged stream\<close>

lemma no_error_items: "no_error xs \<Longrightarrow> xs = map Inr (ok_items xs)"
  by (induction xs rule: ok_items.induct) (auto simp: no_error_def)

lemma no_error_append [simp]: "no_error (xs @ ys) \<longleftrightarrow> no_error xs \<and> no_error ys"
  by (simp add: no_error_def)

declare ok_items_append [simp]

lemma by_key_seq_items:
  "order_key_law R \<Longrightarrow> rotbl_by_key_seq R (Inr a) (Inr b) \<longleftrightarrow>
    fst a < fst b \<or> fst a = fst b \<and> sm_le (snd a) (snd b)"
  by (cases a; cases b) (simp add: rotbl_by_key_seq_def order_key_law_def)

lemma sorted_items:
  assumes "no_error xs"
  shows "sorted_wrt le xs \<longleftrightarrow> sorted_wrt (\<lambda>a b. le (Inr a) (Inr b)) (ok_items xs)"
  by (subst no_error_items [OF assms]) (simp add: sorted_wrt_map)

text \<open>
  \<open>mid\<close> is the stream before tombstones are taken out.  An entry of a key is the greatest of those
  in the levels and on disk.
\<close>

lemma merge_two:
  assumes "rotbl_ok R C" "no_error (r_coalesce R rotbl_choose_greater (r_kmerge R (rotbl_by_key_seq R) xss))"
    and "list_all ascending xss"
  defines "mid \<equiv> r_coalesce R rotbl_choose_greater (r_kmerge R (rotbl_by_key_seq R) xss)"
  shows "ascending mid \<and> list_all no_error xss \<and>
    (\<forall>k v. Inr (k, v) \<in> set mid \<longrightarrow>
      (\<exists>xs \<in> set xss. Inr (k, v) \<in> set xs) \<and> (\<forall>xs \<in> set xss. \<forall>v'. Inr (k, v') \<in> set xs \<longrightarrow> sm_le v' v)) \<and>
    (\<forall>xs \<in> set xss. \<forall>k v. Inr (k, v) \<in> set xs \<longrightarrow> (\<exists>v'. Inr (k, v') \<in> set mid))"
proof -
  have laws: "order_key_law R" "kmerge_law R" "coalesce_law R" using assms(1) by (simp_all add: rotbl_ok_def)
  let ?le = "rotbl_by_key_seq R"
  let ?km = "r_kmerge R ?le xss"
  have mid: "mid = coal ?km" by (simp add: mid_def coalesce_coal [OF laws(3)])
  then have ne: "no_error ?km" using coal_error assms(2) mid_def by metis
  have items: "set ?km = \<Union> (set (map set xss))" using laws(2) unfolding kmerge_law_def by blast
  have nes: "no_error xs" if "xs \<in> set xss" for xs
    using ne that items by (fastforce simp: no_error_def list_all_iff)
  have total: "(?le x y \<or> ?le y x) \<and> (?le x y \<and> ?le y z \<longrightarrow> ?le x z)"
    if "x \<in> \<Union> (set (map set xss))" "y \<in> \<Union> (set (map set xss))" "z \<in> \<Union> (set (map set xss))" for x y z
  proof -
    have "\<not> isl x" "\<not> isl y" "\<not> isl z"
      using that ne by (auto simp: items [symmetric] no_error_def list_all_iff simp del: set_map)
    then obtain a b c where "x = Inr a" "y = Inr b" "z = Inr c" by (cases x; cases y; cases z) auto
    then show ?thesis
      using sm_le_total [of "snd a" "snd b"] sm_le_trans [of "snd a" "snd b" "snd c"]
      by (auto simp: by_key_seq_items [OF laws(1)])
  qed
  have "list_all (sorted_wrt ?le) xss"
  proof (simp add: list_all_iff, intro ballI)
    fix xs assume xs: "xs \<in> set xss"
    with assms(3) have "sorted_wrt (\<lambda>a b. fst a < fst b) (ok_items xs)"
      by (simp add: list_all_iff ascending_def sorted_wrt_map)
    then show "sorted_wrt ?le xs"
      unfolding sorted_items [OF nes [OF xs]] by (rule sorted_wrt_mono_rel [rotated]) (simp add: by_key_seq_items [OF laws(1)])
  qed
  with total have "sorted_wrt ?le ?km"
    using laws(2) [unfolded kmerge_law_def, THEN spec, of ?le, THEN spec, of xss] by blast
  then have "key_sorted ?km" by (simp add: sorted_items [OF ne] key_sorted_def by_key_seq_items [OF laws(1)])
  note merged = coal_sorted [OF ne this]
  have mem: "x \<in> set ?km \<longleftrightarrow> (\<exists>xs \<in> set xss. x \<in> set xs)" for x by (simp add: items)
  show ?thesis
    using merged [unfolded mem] nes unfolding mid list_all_iff by blast
qed

section \<open>Entries of one key type\<close>

context store_space
begin

lemma encode_items_props:
  assumes "no_error (encode_items (sp_key P) strm)" "ascending strm"
  shows "ascending (encode_items (sp_key P) strm)"
    and "Inr (str, raw) \<in> set (encode_items (sp_key P) strm) \<longleftrightarrow>
      (\<exists>k m. Inr (k, m) \<in> set strm \<and> str = encode_key (ki_prefix (sp_key P)) (ki_encode (sp_key P)) k \<and>
        ki_value_encode (sp_key P) m = Inr raw)"
proof -
  let ?K = "sp_key P"
  let ?enc = "encode_key (ki_prefix ?K) (ki_encode ?K)"
  let ?f = "\<lambda>item. rbind item (\<lambda>(k, m). encode_key_seq_marked ?K k m)"
  have step: "?f x = Inr (str, raw) \<longleftrightarrow>
      (\<exists>k m. x = Inr (k, m) \<and> str = ?enc k \<and> ki_value_encode ?K m = Inr raw)" for x str raw
    by (cases x) (auto simp: encode_key_seq_marked_def)
  show "Inr (str, raw) \<in> set (encode_items ?K strm) \<longleftrightarrow>
      (\<exists>k m. Inr (k, m) \<in> set strm \<and> str = ?enc k \<and> ki_value_encode ?K m = Inr raw)"
  proof -
    have "Inr (str, raw) \<in> set (encode_items ?K strm) \<longleftrightarrow> (\<exists>x \<in> set strm. ?f x = Inr (str, raw))"
      unfolding encode_items_def set_map image_iff by (metis (no_types, lifting))
    then show ?thesis unfolding step by blast
  qed
  have "sorted_wrt (<) (map fst (ok_items (map ?f strm)))"
    using assms
  proof (induction strm)
    case (Cons x strm)
    have "\<not> isl (?f x)" and ne: "no_error (encode_items ?K strm)"
      using Cons.prems(1) by (simp_all add: encode_items_def no_error_def)
    then obtain str raw where fx: "?f x = Inr (str, raw)" by (cases "?f x") auto
    then obtain k m where x: "x = Inr (k, m)" "str = ?enc k" using step by blast
    have rest: "sorted_wrt (<) (map fst (ok_items (map ?f strm)))"
      using Cons.prems(2) x by (intro Cons.IH ne) (simp add: ascending_def)
    have "str < fst z" if item: "z \<in> set (ok_items (map ?f strm))" for z
    proof -
      have "Inr z \<in> ?f ` set strm" using item by (simp add: ok_items_iff)
      then obtain w where w: "w \<in> set strm" "?f w = Inr z" by (metis (no_types, lifting) imageE)
      then obtain k' m' where w': "w = Inr (k', m')" "fst z = ?enc k'" using step [of w "fst z" "snd z"] by auto
      then have "(k', m') \<in> set (ok_items strm)" using w(1) by (simp add: ok_items_iff)
      then have "k < k'" using Cons.prems(2) by (fastforce simp: x ascending_def)
      then show ?thesis by (simp add: x w' encode_key_def enc_less)
    qed
    with rest show ?case by (simp add: fx)
  qed simp
  then show "ascending (encode_items ?K strm)" by (simp add: ascending_def encode_items_def)
qed

text \<open>
  One key: \<open>LV\<close> are its encoded entries from the levels, \<open>DV\<close> those on disk, \<open>M\<close> those of the merged
  stream.  A merged entry is what a read shows.
\<close>

lemma compact_key:
  assumes "table_ok (sp_table P) V" "data_inv V P C d k"
  defines "g \<equiv> levels_get (sp_table P) (sp_sub P) (id_levels d) k u64_max"
    and "DV \<equiv> {raw. \<exists>db. id_persisted d = Some db \<and>
      C (db_rotbl db) (encode_key (ki_prefix (sp_key P)) (ki_encode (sp_key P)) k) = Some raw}"
  assumes rt: "\<And>raw. ki_value_encode (sp_key P) g = Inr raw \<Longrightarrow> ki_value_decode (sp_key P) raw = Inr g"
    and db: "\<And>raw. raw \<in> DV \<Longrightarrow> \<exists>m. ki_value_decode (sp_key P) raw = Inr m"
    and lev: "\<And>raw. raw \<in> LV \<Longrightarrow> ki_value_encode (sp_key P) g = Inr raw" "g \<noteq> not_found \<Longrightarrow> LV \<noteq> {}"
    and M: "M \<subseteq> LV \<union> DV" "\<And>raw raw'. raw \<in> M \<Longrightarrow> raw' \<in> LV \<union> DV \<Longrightarrow> sm_le raw' raw" "LV \<union> DV \<noteq> {} \<Longrightarrow> M \<noteq> {}"
  shows "(\<forall>raw \<in> M. ki_value_decode (sp_key P) raw = Inr (data_shown P C d k u64_max)) \<and>
    (marked (data_shown P C d k u64_max) \<noteq> TombStone \<longrightarrow> M \<noteq> {})"
proof -
  let ?h = "data_shown P C d k u64_max" and ?dec = "ki_value_decode (sp_key P)"
  have h: "?h = (if g \<noteq> not_found then g else db_shown P C (id_persisted d) k)"
    by (simp add: data_shown_def g_def)
  have LV: "?dec raw = Inr g" if "raw \<in> LV" for raw using rt lev(1) that by blast
  have DV: "?dec raw = Inr (db_shown P C (id_persisted d) k) \<and>
      db_versions P C (id_persisted d) k = {db_shown P C (id_persisted d) k}" if raw: "raw \<in> DV" for raw
    using db [OF raw] raw by (auto simp: DV_def db_shown_def db_versions_def)
  have le: "sm_le m m'" if "?dec raw = Inr m" "?dec raw' = Inr m'" "sm_le raw raw'" for raw raw' m m'
    using decode_shape [OF that(1)] decode_shape [OF that(2)] that(3) by (auto simp: sm_le_def)
  have good: "good (data_versions V P C d k)" using assms(2) by (simp add: data_inv_def)
  have "is_latest (levels_versions V (sp_sub P) (id_levels d) k) u64_max g"
    unfolding g_def by (rule levels_get_latest [OF assms(1) data_inv_levels [OF assms(2)]])
  then have g: "g \<in> levels_versions V (sp_sub P) (id_levels d) k" if "g \<noteq> not_found"
    using that by (auto simp: is_latest_def split: if_splits)
  have "?dec raw = Inr ?h" if raw: "raw \<in> M" for raw
  proof (cases "raw \<in> LV")
    case True
    show ?thesis
    proof (cases "g = not_found \<and> DV \<noteq> {}")
      case False
      then have "?h = g" by (auto simp: h db_shown_def DV_def split: option.splits)
      with LV [OF True] show ?thesis by simp
    next
      case both: True
      then obtain rd where rd: "rd \<in> DV" by blast
      let ?m = "db_shown P C (id_persisted d) k"
      have "sm_le ?m not_found" using le [OF _ _ M(2) [OF raw, of rd]] DV [OF rd] LV [OF True] rd both by auto
      moreover have "?m \<in> data_versions V P C d k" using DV [OF rd] by (simp add: data_versions_def)
      ultimately have "?m = not_found" using sm_le_not_found [OF good] by blast
      with LV [OF True] both show ?thesis by (simp add: h)
    qed
  next
    case False
    with raw M(1) have rd: "raw \<in> DV" by blast
    let ?m = "db_shown P C (id_persisted d) k"
    show ?thesis
    proof (cases "g = not_found")
      case True
      with DV [OF rd] show ?thesis by (simp add: h)
    next
      case found: False
      with lev(2) obtain rg where rg: "rg \<in> LV" by blast
      have "sm_le g ?m" using le [OF LV [OF rg] _ M(2) [OF raw, of rg]] DV [OF rd] rg by simp
      moreover have "?m \<in> data_versions V P C d k" using DV [OF rd] by (simp add: data_versions_def)
      moreover have "sm_le ?m g" using assms(2) g [OF found] DV [OF rd] by (auto simp: data_inv_def over_def)
      moreover have "g \<in> data_versions V P C d k" using g [OF found] by (simp add: data_versions_def)
      ultimately have "?m = g" using sm_le_antisym [OF good] by blast
      with DV [OF rd] found show ?thesis by (simp add: h)
    qed
  qed
  moreover have "M \<noteq> {}" if "marked ?h \<noteq> TombStone"
  proof (cases "g = not_found")
    case True
    with that have "db_shown P C (id_persisted d) k \<noteq> not_found" by (auto simp: h)
    then have "DV \<noteq> {}" by (auto simp: db_shown_def DV_def split: option.splits)
    with M(3) show ?thesis by blast
  next
    case False
    with lev(2) M(3) show ?thesis by blast
  qed
  ultimately show ?thesis by blast
qed

text \<open>The encoded entries of the levels, for every key the one that a read of the levels shows.\<close>

lemma level_entries:
  assumes "table_ok (sp_table P) V" "\<And>k. levels_inv V (sp_sub P) L k"
  defines "e \<equiv> encode_items (sp_key P) (levels_range (sp_table P) (sp_sub P) L (Included lo, Unbounded) u64_max)"
  assumes "no_error e"
  shows "ascending e"
    and "Inr (str, raw) \<in> set e \<Longrightarrow>
      \<exists>k. str = encode_key (ki_prefix (sp_key P)) (ki_encode (sp_key P)) k"
    and "Inr (encode_key (ki_prefix (sp_key P)) (ki_encode (sp_key P)) k, raw) \<in> set e \<Longrightarrow>
      ki_value_encode (sp_key P) (levels_get (sp_table P) (sp_sub P) L k u64_max) = Inr raw"
    and "levels_get (sp_table P) (sp_sub P) L k u64_max \<noteq> not_found \<Longrightarrow>
      \<exists>raw. Inr (encode_key (ki_prefix (sp_key P)) (ki_encode (sp_key P)) k, raw) \<in> set e"
proof -
  let ?r = "(Included lo, Unbounded)"
  let ?strm = "levels_range (sp_table P) (sp_sub P) L ?r u64_max"
  let ?enc = "encode_key (ki_prefix (sp_key P)) (ki_encode (sp_key P))"
  let ?g = "\<lambda>k. levels_get (sp_table P) (sp_sub P) L k u64_max"
  have shown: "range_shows ?r ?g (ok_items ?strm)"
    using levels_range_shows [OF assms(1,2)] by simp
  then have asc: "ascending ?strm" by (simp add: range_shows_def ascending_def)
  note props = encode_items_props [OF assms(4) [unfolded e_def] asc, folded e_def]
  show "ascending e" by (rule props(1))
  show "\<exists>k. str = ?enc k" if "Inr (str, raw) \<in> set e" using that unfolding props(2) by blast
  show "ki_value_encode (sp_key P) (?g k) = Inr raw" if item: "Inr (?enc k, raw) \<in> set e"
  proof -
    obtain m where "Inr (k, m) \<in> set ?strm" "ki_value_encode (sp_key P) m = Inr raw"
      using item unfolding props(2) by (auto simp: encode_inj)
    with range_showsD(2) [OF shown] show ?thesis by (auto simp: ok_items_iff)
  qed
  show "\<exists>raw. Inr (?enc k, raw) \<in> set e" if g: "?g k \<noteq> not_found"
  proof -
    have "in_range ?r k" using lo_least by (simp add: in_range_def)
    then have item: "Inr (k, ?g k) \<in> set ?strm"
      using range_showsD(3) [OF shown _ g] by (simp add: ok_items_iff)
    then have "\<not> isl (encode_key_seq_marked (sp_key P) k (?g k))"
      using assms(4) by (force simp: e_def encode_items_def no_error_def list_all_iff)
    then obtain raw where "ki_value_encode (sp_key P) (?g k) = Inr raw"
      by (cases "ki_value_encode (sp_key P) (?g k)") (auto simp: encode_key_seq_marked_def)
    with item show ?thesis unfolding props(2) by blast
  qed
qed

end

section \<open>The two key types\<close>

lemma seq_marked_decode_shape:
  "seq_marked_decode C raw = Inr m \<Longrightarrow>
   internal_seq raw = internal_seq m \<and> (marked raw = TombStone \<longleftrightarrow> marked m = TombStone)"
  by (cases "marked raw") (auto simp: seq_marked_decode_def)

lemma seq_marked_string_decode_shape:
  "seq_marked_string_decode C raw = Inr m \<Longrightarrow>
   internal_seq raw = internal_seq m \<and> (marked raw = TombStone \<longleftrightarrow> marked m = TombStone)"
proof -
  assume "seq_marked_string_decode C raw = Inr m"
  then obtain d where d: "seq_marked_decode C raw = Inr d"
    "internal_seq d = internal_seq m" "marked d = TombStone \<longleftrightarrow> marked m = TombStone"
    by (cases "seq_marked_decode C raw")
      (auto simp: seq_marked_string_decode_def split: marked.splits prod.splits)
  with seq_marked_decode_shape [OF d(1)] show ?thesis by simp
qed

lemma user_keys_simps [simp]:
  "sp_table (user_keys S) = sl_user S" "sp_sub (user_keys S) = lv_kv"
  "ki_prefix (sp_key (user_keys S)) = user_key_prefix" "ki_encode (sp_key (user_keys S)) = user_key_encode"
  "ki_decode (sp_key (user_keys S)) = user_key_decode"
  "ki_value_encode (sp_key (user_keys S)) = seq_marked_encode (sl_value S)"
  "ki_value_decode (sp_key (user_keys S)) = seq_marked_decode (sl_value S)"
  by (simp_all add: user_keys_def)

lemma expire_keys_simps [simp]:
  "sp_table (expire_keys S) = sl_expire S" "sp_sub (expire_keys S) = lv_expire"
  "ki_prefix (sp_key (expire_keys S)) = expire_key_prefix" "ki_encode (sp_key (expire_keys S)) = expire_key_encode"
  "ki_decode (sp_key (expire_keys S)) = expire_key_decode"
  "ki_value_encode (sp_key (expire_keys S)) = seq_marked_string_encode (sl_value S)"
  "ki_value_decode (sp_key (expire_keys S)) = seq_marked_string_decode (sl_value S)"
  by (simp_all add: expire_keys_def)

interpretation user_store: store_space S "user_keys S" "[]" for S
  by (intro store_space.intro)
    (auto simp: user_sub.sub_table_axioms user_space.key_space_axioms
      dest: seq_marked_encode_shape seq_marked_decode_shape)

interpretation expire_store: store_space S "expire_keys S" "ExpireKey 0 0" for S
  by (intro store_space.intro)
    (auto simp: expire_sub.sub_table_axioms expire_space.key_space_axioms
      dest: seq_marked_string_encode_shape seq_marked_string_decode_shape)

lemma user_expire_differ:
  "encode_key user_key_prefix user_key_encode u \<noteq> encode_key expire_key_prefix expire_key_encode e"
  "encode_key expire_key_prefix expire_key_encode e < encode_key user_key_prefix user_key_encode u"
  by (simp_all add: encode_key_def user_key_prefix_def expire_key_prefix_def)

section \<open>The whole stream\<close>

text \<open>Every entry on disk is an encoded user key or expiration key with a value that can be read.\<close>

definition db_wf :: "('a, 'b, 'r) store_lib \<Rightarrow> ('r \<Rightarrow> rstring \<Rightarrow> bytes seq_marked option) \<Rightarrow> 'r db option \<Rightarrow> bool" where
  "db_wf S C d \<longleftrightarrow>
    (\<forall>db str raw. d = Some db \<and> C (db_rotbl db) str = Some raw \<longrightarrow>
      (\<exists>k m. str = encode_key user_key_prefix user_key_encode k \<and> seq_marked_decode (sl_value S) raw = Inr m) \<or>
      (\<exists>k m. str = encode_key expire_key_prefix expire_key_encode k \<and> seq_marked_string_decode (sl_value S) raw = Inr m))"

text \<open>The expiration index holds strings.\<close>

definition strings_ok :: "('a, 'b, 'r) store_lib \<Rightarrow> ('a, 'b) immutable_levels \<Rightarrow> bool" where
  "strings_ok S L \<longleftrightarrow>
    (\<forall>k s. marked (levels_get (sl_expire S) lv_expire L k u64_max) = Normal s \<longrightarrow> valid_str s)"

definition entry_of :: "rotbl_item list \<Rightarrow> rstring \<Rightarrow> bytes seq_marked set" where
  "entry_of xs str = {raw. Inr (str, raw) \<in> set xs}"

lemma merge_no_error:
  assumes "rotbl_ok R C" "no_error (r_coalesce R rotbl_choose_greater (r_kmerge R le xss))"
  shows "list_all no_error xss"
proof -
  have "coalesce_law R" "set (r_kmerge R le xss) = \<Union> (set (map set xss))"
    using assms(1) unfolding rotbl_ok_def kmerge_law_def by blast+
  with assms(2) coal_error [of "r_kmerge R le xss"] show ?thesis
    by (auto simp: coalesce_coal no_error_def list_all_iff)
qed

definition disk_entry :: "('r \<Rightarrow> rstring \<Rightarrow> bytes seq_marked option) \<Rightarrow> 'r db option \<Rightarrow> rstring \<Rightarrow> bytes seq_marked set" where
  "disk_entry C d str = {raw. \<exists>db. d = Some db \<and> C (db_rotbl db) str = Some raw}"

definition expire_entries :: "('a, 'b, 'r) store_lib \<Rightarrow> ('a, 'b) immutable_levels \<Rightarrow> rotbl_item list" where
  "expire_entries S L = encode_items (sp_key (expire_keys S))
    (levels_range (sp_table (expire_keys S)) (sp_sub (expire_keys S)) L (Included (ExpireKey 0 0), Unbounded) u64_max)"

definition user_entries :: "('a, 'b, 'r) store_lib \<Rightarrow> ('a, 'b) immutable_levels \<Rightarrow> rotbl_item list" where
  "user_entries S L = encode_items (sp_key (user_keys S))
    (levels_range (sp_table (user_keys S)) (sp_sub (user_keys S)) L (Included [], Unbounded) u64_max)"

lemma user_entries_props:
  assumes "table_ok (sl_user S) VU" "\<And>k. levels_inv VU lv_kv L k" "no_error (user_entries S L)"
  shows "ascending (user_entries S L)"
    and "raw \<in> entry_of (user_entries S L) str \<Longrightarrow> \<exists>k. str = encode_key user_key_prefix user_key_encode k"
    and "raw \<in> entry_of (user_entries S L) (encode_key user_key_prefix user_key_encode k) \<Longrightarrow>
      seq_marked_encode (sl_value S) (levels_get (sl_user S) lv_kv L k u64_max) = Inr raw"
    and "levels_get (sl_user S) lv_kv L k u64_max \<noteq> not_found \<Longrightarrow>
      entry_of (user_entries S L) (encode_key user_key_prefix user_key_encode k) \<noteq> {}"
  using user_store.level_entries [of S VU L] assms unfolding user_entries_def entry_of_def
  by simp_all

lemma expire_entries_props:
  assumes "table_ok (sl_expire S) VE" "\<And>k. levels_inv VE lv_expire L k" "no_error (expire_entries S L)"
  shows "ascending (expire_entries S L)"
    and "raw \<in> entry_of (expire_entries S L) str \<Longrightarrow> \<exists>k. str = encode_key expire_key_prefix expire_key_encode k"
    and "raw \<in> entry_of (expire_entries S L) (encode_key expire_key_prefix expire_key_encode k) \<Longrightarrow>
      seq_marked_string_encode (sl_value S) (levels_get (sl_expire S) lv_expire L k u64_max) = Inr raw"
    and "levels_get (sl_expire S) lv_expire L k u64_max \<noteq> not_found \<Longrightarrow>
      entry_of (expire_entries S L) (encode_key expire_key_prefix expire_key_encode k) \<noteq> {}"
  using expire_store.level_entries [of S VE L] assms unfolding expire_entries_def entry_of_def
  by simp_all

text \<open>The stream before tombstones are taken out.\<close>

definition is_mid ::
  "('a, 'b, 'r) store_lib \<Rightarrow> ('r \<Rightarrow> rstring \<Rightarrow> bytes seq_marked option) \<Rightarrow> ('a, 'b, 'r) immutable_data \<Rightarrow> rotbl_item list \<Rightarrow> bool" where
  "is_mid S C d mid \<longleftrightarrow>
    no_error (expire_entries S (id_levels d)) \<and> no_error (user_entries S (id_levels d)) \<and> ascending mid \<and>
    (\<forall>str. let all = entry_of (expire_entries S (id_levels d)) str \<union> entry_of (user_entries S (id_levels d)) str \<union>
        disk_entry C (id_persisted d) str
      in entry_of mid str \<subseteq> all \<and> (\<forall>raw \<in> entry_of mid str. \<forall>raw' \<in> all. sm_le raw' raw) \<and>
        (all \<noteq> {} \<longrightarrow> entry_of mid str \<noteq> {}))"

lemma compact_mid:
  assumes ok: "table_ok (sl_user S) VU" "table_ok (sl_expire S) VE" "rotbl_ok (sl_rotbl S) C"
    and inv: "\<And>k. data_inv VU (user_keys S) C d k" "\<And>k. data_inv VE (expire_keys S) C d k"
    and run: "compact_into_stream S d = Inr (sd, out)" "no_error out"
  obtains mid where "is_mid S C d mid"
    and "out = filter (\<lambda>item. case item of Inl e \<Rightarrow> True | Inr (k, v) \<Rightarrow> marked v \<noteq> TombStone) mid"
proof -
  let ?R = "sl_rotbl S"
  let ?eE = "expire_entries S (id_levels d)" and ?eU = "user_entries S (id_levels d)"
  define dbs where "dbs = (case id_persisted d of None \<Rightarrow> [] | Some db \<Rightarrow> [db_inner_range ?R db])"
  define xss where "xss = (?eE @ ?eU) # dbs"
  define mid where "mid = r_coalesce ?R rotbl_choose_greater (r_kmerge ?R (rotbl_by_key_seq ?R) xss)"
  have out: "out = filter (\<lambda>item. case item of Inl e \<Rightarrow> True | Inr (k, v) \<Rightarrow> marked v \<noteq> TombStone) mid"
    using run(1) by (auto simp: compact_into_stream_def Let_def expire_entries_def user_entries_def
        dbs_def xss_def mid_def split: option.splits)
  have nm: "no_error mid"
    using run(2) by (auto simp: out no_error_def list_all_iff split: sum.splits) (metis isl_def)
  then have all: "list_all no_error xss" using merge_no_error [OF ok(3)] by (simp add: mid_def)
  then have ne: "no_error ?eE" "no_error ?eU" by (simp_all add: xss_def)
  have "levels_inv VU lv_kv (id_levels d) k" for k using data_inv_levels [OF inv(1)] by simp
  note levU = user_entries_props [OF ok(1) this ne(2)]
  have "levels_inv VE lv_expire (id_levels d) k" for k using data_inv_levels [OF inv(2)] by simp
  note levE = expire_entries_props [OF ok(2) this ne(1)]
  have "x < y" if "x \<in> fst ` set (ok_items ?eE)" "y \<in> fst ` set (ok_items ?eU)" for x y
    using that levE(2) levU(2) user_expire_differ(2) by (fastforce simp: ok_items_iff entry_of_def)
  moreover have "ascending ?eE" "ascending ?eU" using levE(1) levU(1) by simp_all
  ultimately have "ascending (?eE @ ?eU)" by (auto simp: ascending_def sorted_wrt_append)
  moreover have "list_all ascending dbs"
    using content_lawD(2) [OF ok(3)] by (simp add: dbs_def db_inner_range_def split: option.splits)
  ultimately have asc: "list_all ascending xss" by (simp add: xss_def)
  have mem: "(\<exists>xs \<in> set xss. Inr (str, raw) \<in> set xs) \<longleftrightarrow>
      raw \<in> entry_of ?eE str \<union> entry_of ?eU str \<union> disk_entry C (id_persisted d) str" for str raw
  proof -
    have "(\<exists>xs \<in> set dbs. Inr (str, raw) \<in> set xs) \<longleftrightarrow> raw \<in> disk_entry C (id_persisted d) str"
    proof (cases "id_persisted d")
      case None
      then show ?thesis by (simp add: dbs_def disk_entry_def)
    next
      case (Some db)
      let ?xs = "r_range ?R (db_rotbl db) (Unbounded, Unbounded)"
      have "no_error ?xs" using all Some by (simp add: xss_def dbs_def db_inner_range_def)
      then have "Inr (str, raw) \<in> set ?xs \<longleftrightarrow> C (db_rotbl db) str = Some raw"
        using content_lawD(3) [OF ok(3)] content_lawD(4) [OF ok(3)] by (metis above.simps(3) below.simps(3) fst_conv snd_conv in_range_def)
      with Some show ?thesis by (simp add: dbs_def disk_entry_def db_inner_range_def)
    qed
    then show ?thesis by (auto simp: xss_def entry_of_def)
  qed
  note merged = merge_two [OF ok(3) nm [unfolded mid_def] asc, folded mid_def]
  have "is_mid S C d mid"
    unfolding is_mid_def Let_def
  proof (intro conjI allI ne)
    show "ascending mid" using merged by blast
    fix str
    let ?all = "entry_of ?eE str \<union> entry_of ?eU str \<union> disk_entry C (id_persisted d) str"
    have mid_iff: "raw \<in> entry_of mid str \<longleftrightarrow> Inr (str, raw) \<in> set mid" for raw by (simp add: entry_of_def)
    show "entry_of mid str \<subseteq> ?all"
    proof
      fix raw assume "raw \<in> entry_of mid str"
      with merged have "\<exists>xs \<in> set xss. Inr (str, raw) \<in> set xs" unfolding mid_iff by blast
      then show "raw \<in> ?all" unfolding mem .
    qed
    show "\<forall>raw \<in> entry_of mid str. \<forall>raw' \<in> ?all. sm_le raw' raw"
    proof (intro ballI)
      fix raw raw' assume "raw \<in> entry_of mid str" "raw' \<in> ?all"
      then have "Inr (str, raw) \<in> set mid" "\<exists>xs \<in> set xss. Inr (str, raw') \<in> set xs" unfolding mem mid_iff .
      with merged show "sm_le raw' raw" by blast
    qed
    show "?all \<noteq> {} \<longrightarrow> entry_of mid str \<noteq> {}"
    proof
      assume "?all \<noteq> {}"
      then obtain raw where "raw \<in> ?all" by blast
      then have "\<exists>xs \<in> set xss. Inr (str, raw) \<in> set xs" unfolding mem .
      with merged obtain raw' where "Inr (str, raw') \<in> set mid" by blast
      then show "entry_of mid str \<noteq> {}" using mid_iff by blast
    qed
  qed
  with out that show thesis by blast
qed

end
