(* ===== verification/Store_Compact.thy ===== *)
theory Store_Compact
  imports Store_Merge
begin

text \<open>
  Compaction of the immutable levels and the table on disk into one stream
  (\<open>compact_into_stream\<close>): the stream is in the order of the encoded keys and holds, for every key,
  the value that a read shows, without tombstones.
\<close>

lemma db_wfD:
  assumes "db_wf S C d"
  shows "raw \<in> disk_entry C d (encode_key user_key_prefix user_key_encode k) \<Longrightarrow>
      \<exists>m. seq_marked_decode (sl_value S) raw = Inr m"
    and "raw \<in> disk_entry C d (encode_key expire_key_prefix expire_key_encode e) \<Longrightarrow>
      \<exists>m. seq_marked_string_decode (sl_value S) raw = Inr m"
    and "raw \<in> disk_entry C d str \<Longrightarrow>
      (\<exists>k. str = encode_key user_key_prefix user_key_encode k) \<or>
      (\<exists>e. str = encode_key expire_key_prefix expire_key_encode e)"
proof -
  have key: "(\<exists>k m. str = encode_key user_key_prefix user_key_encode k \<and> seq_marked_decode (sl_value S) raw = Inr m) \<or>
      (\<exists>k m. str = encode_key expire_key_prefix expire_key_encode k \<and> seq_marked_string_decode (sl_value S) raw = Inr m)"
    if "raw \<in> disk_entry C d str" for raw str
    using assms that unfolding db_wf_def disk_entry_def by blast
  show "\<exists>m. seq_marked_decode (sl_value S) raw = Inr m"
    if "raw \<in> disk_entry C d (encode_key user_key_prefix user_key_encode k)"
    using key [OF that] user_expire_differ(1) by blast
  show "\<exists>m. seq_marked_string_decode (sl_value S) raw = Inr m"
    if "raw \<in> disk_entry C d (encode_key expire_key_prefix expire_key_encode e)"
    using key [OF that] user_expire_differ(1) by metis
  show "(\<exists>k. str = encode_key user_key_prefix user_key_encode k) \<or>
      (\<exists>e. str = encode_key expire_key_prefix expire_key_encode e)" if "raw \<in> disk_entry C d str"
    using key [OF that] by blast
qed

text \<open>The merged entries of a user key and of an expiration key are what reads show.\<close>

lemma mid_user:
  fixes k :: rstring
  assumes "table_ok (sl_user S) VU" "value_lib_ok (sl_value S)"
    and "\<And>k. data_inv VU (user_keys S) C d k" "table_ok (sl_expire S) VE" "\<And>k. data_inv VE (expire_keys S) C d k"
    and "db_wf S C (id_persisted d)" "is_mid S C d mid"
  defines "str \<equiv> encode_key user_key_prefix user_key_encode k" and "h \<equiv> data_shown (user_keys S) C d k u64_max"
  shows "(\<forall>raw \<in> entry_of mid str. seq_marked_decode (sl_value S) raw = Inr h) \<and>
    (marked h \<noteq> TombStone \<longrightarrow> entry_of mid str \<noteq> {})"
proof -
  have linv: "levels_inv VU lv_kv (id_levels d) j" "levels_inv VE lv_expire (id_levels d) e" for j e
    using data_inv_levels [OF assms(3)] data_inv_levels [OF assms(5)] by simp_all
  have mid: "no_error (expire_entries S (id_levels d))" "no_error (user_entries S (id_levels d))"
    using assms(7) by (simp_all add: is_mid_def)
  note U = user_entries_props [OF assms(1) linv(1) mid(2)] and E = expire_entries_props [OF assms(4) linv(2) mid(1)]
  have "entry_of (expire_entries S (id_levels d)) str = {}"
    using E(2) user_expire_differ(1) unfolding str_def by blast
  then have M: "entry_of mid str \<subseteq> entry_of (user_entries S (id_levels d)) str \<union> disk_entry C (id_persisted d) str"
    "\<And>raw raw'. raw \<in> entry_of mid str \<Longrightarrow>
      raw' \<in> entry_of (user_entries S (id_levels d)) str \<union> disk_entry C (id_persisted d) str \<Longrightarrow> sm_le raw' raw"
    "entry_of (user_entries S (id_levels d)) str \<union> disk_entry C (id_persisted d) str \<noteq> {} \<Longrightarrow> entry_of mid str \<noteq> {}"
    using assms(7) unfolding is_mid_def Let_def by (metis Un_empty_left)+
  show ?thesis
    using user_store.compact_key [of S VU C d k "entry_of (user_entries S (id_levels d)) str" "entry_of mid str"]
      assms(1,3) seq_marked_roundtrip [OF assms(2)] db_wfD(1) [OF assms(6)] U(3,4) M
    unfolding h_def str_def disk_entry_def by simp
qed

lemma mid_expire:
  fixes e :: expire_key
  assumes "table_ok (sl_user S) VU" "value_lib_ok (sl_value S)"
    and "\<And>k. data_inv VU (user_keys S) C d k" "table_ok (sl_expire S) VE" "\<And>k. data_inv VE (expire_keys S) C d k"
    and "db_wf S C (id_persisted d)" "is_mid S C d mid" "strings_ok S (id_levels d)"
  defines "str \<equiv> encode_key expire_key_prefix expire_key_encode e" and "h \<equiv> data_shown (expire_keys S) C d e u64_max"
  shows "(\<forall>raw \<in> entry_of mid str. seq_marked_string_decode (sl_value S) raw = Inr h) \<and>
    (marked h \<noteq> TombStone \<longrightarrow> entry_of mid str \<noteq> {})"
proof -
  have linv: "levels_inv VU lv_kv (id_levels d) j" "levels_inv VE lv_expire (id_levels d) e" for j e
    using data_inv_levels [OF assms(3)] data_inv_levels [OF assms(5)] by simp_all
  have mid: "no_error (expire_entries S (id_levels d))" "no_error (user_entries S (id_levels d))"
    using assms(7) by (simp_all add: is_mid_def)
  note U = user_entries_props [OF assms(1) linv(1) mid(2)] and E = expire_entries_props [OF assms(4) linv(2) mid(1)]
  have "entry_of (user_entries S (id_levels d)) str = {}"
    using U(2) user_expire_differ(1) unfolding str_def by (metis equals0I)
  then have M: "entry_of mid str \<subseteq> entry_of (expire_entries S (id_levels d)) str \<union> disk_entry C (id_persisted d) str"
    "\<And>raw raw'. raw \<in> entry_of mid str \<Longrightarrow>
      raw' \<in> entry_of (expire_entries S (id_levels d)) str \<union> disk_entry C (id_persisted d) str \<Longrightarrow> sm_le raw' raw"
    "entry_of (expire_entries S (id_levels d)) str \<union> disk_entry C (id_persisted d) str \<noteq> {} \<Longrightarrow> entry_of mid str \<noteq> {}"
    using assms(7) unfolding is_mid_def Let_def by (metis Un_empty_right)+
  have rt: "seq_marked_string_encode (sl_value S) (levels_get (sl_expire S) lv_expire (id_levels d) e u64_max) = Inr raw \<Longrightarrow>
      seq_marked_string_decode (sl_value S) raw = Inr (levels_get (sl_expire S) lv_expire (id_levels d) e u64_max)" for raw
    using seq_marked_string_roundtrip [OF assms(2)] assms(8) by (simp add: strings_ok_def)
  show ?thesis
    using expire_store.compact_key [of S VE C d e "entry_of (expire_entries S (id_levels d)) str" "entry_of mid str"]
      assms(4,5) rt db_wfD(2) [OF assms(6)] E(3,4) M
    unfolding h_def str_def disk_entry_def by simp
qed

text \<open>
  The stream of a compaction: in the order of the encoded keys; an entry is there exactly when a
  read shows a value, and it is read back as that value; no other key is there.
\<close>

definition stream_shows ::
  "('a, 'b, 'r) store_lib \<Rightarrow> (rstring \<Rightarrow> meta_value seq_marked) \<Rightarrow> (expire_key \<Rightarrow> rstring seq_marked) \<Rightarrow>
   rotbl_item list \<Rightarrow> bool" where
  "stream_shows S fu fe out \<longleftrightarrow>
    ascending out \<and>
    (\<forall>k. (\<forall>raw \<in> entry_of out (encode_key user_key_prefix user_key_encode k).
        seq_marked_decode (sl_value S) raw = Inr (fu k)) \<and>
      (entry_of out (encode_key user_key_prefix user_key_encode k) \<noteq> {} \<longleftrightarrow> marked (fu k) \<noteq> TombStone)) \<and>
    (\<forall>e. (\<forall>raw \<in> entry_of out (encode_key expire_key_prefix expire_key_encode e).
        seq_marked_string_decode (sl_value S) raw = Inr (fe e)) \<and>
      (entry_of out (encode_key expire_key_prefix expire_key_encode e) \<noteq> {} \<longleftrightarrow> marked (fe e) \<noteq> TombStone)) \<and>
    (\<forall>str. entry_of out str \<noteq> {} \<longrightarrow>
      (\<exists>k. str = encode_key user_key_prefix user_key_encode k) \<or>
      (\<exists>e. str = encode_key expire_key_prefix expire_key_encode e))"

lemma sorted_filter_items:
  "sorted_wrt (<) (map fst (ok_items xs)) \<Longrightarrow> sorted_wrt (<) (map fst (ok_items (filter p xs)))"
  by (induction xs rule: ok_items.induct) (auto simp: ok_items_iff)

lemma compact_stream:
  assumes ok: "table_ok (sl_user S) VU" "table_ok (sl_expire S) VE" "rotbl_ok (sl_rotbl S) C" "value_lib_ok (sl_value S)"
    and inv: "\<And>k. data_inv VU (user_keys S) C d k" "\<And>k. data_inv VE (expire_keys S) C d k"
    and wf: "db_wf S C (id_persisted d)" "strings_ok S (id_levels d)"
    and run: "compact_into_stream S d = Inr (sd, out)" "no_error out"
  shows "stream_shows S (\<lambda>k. data_shown (user_keys S) C d k u64_max) (\<lambda>e. data_shown (expire_keys S) C d e u64_max) out"
proof -
  obtain mid where mid: "is_mid S C d mid"
    and out: "out = filter (\<lambda>item. case item of Inl e \<Rightarrow> True | Inr (k, v) \<Rightarrow> marked v \<noteq> TombStone) mid"
    by (rule compact_mid [OF ok(1-3) inv run])
  have out_iff: "entry_of out str = {raw \<in> entry_of mid str. marked raw \<noteq> TombStone}" for str
    by (auto simp: out entry_of_def)
  note U = mid_user [OF ok(1,4) inv(1) ok(2) inv(2) wf(1) mid] and E = mid_expire [OF ok(1,4) inv(1) ok(2) inv(2) wf(1) mid wf(2)]
  have asc: "ascending out"
    unfolding ascending_def out by (rule sorted_filter_items) (use mid in \<open>simp add: is_mid_def ascending_def\<close>)
  have u: "entry_of out (encode_key user_key_prefix user_key_encode k) \<noteq> {} \<longleftrightarrow>
      marked (data_shown (user_keys S) C d k u64_max) \<noteq> TombStone" for k
    using U [of k] seq_marked_decode_shape unfolding out_iff by blast
  have e: "entry_of out (encode_key expire_key_prefix expire_key_encode k) \<noteq> {} \<longleftrightarrow>
      marked (data_shown (expire_keys S) C d k u64_max) \<noteq> TombStone" for k
    using E [of k] seq_marked_string_decode_shape unfolding out_iff by blast
  have linv: "levels_inv VU lv_kv (id_levels d) j" "levels_inv VE lv_expire (id_levels d) e" for j e
    using data_inv_levels [OF inv(1)] data_inv_levels [OF inv(2)] by simp_all
  have ne: "no_error (expire_entries S (id_levels d))" "no_error (user_entries S (id_levels d))"
    using mid by (simp_all add: is_mid_def)
  have "(\<exists>k. str = encode_key user_key_prefix user_key_encode k) \<or>
      (\<exists>e. str = encode_key expire_key_prefix expire_key_encode e)" if "entry_of out str \<noteq> {}" for str
  proof -
    have "entry_of mid str \<noteq> {}" using that by (auto simp: out_iff)
    then obtain raw where "raw \<in> entry_of (expire_entries S (id_levels d)) str \<union>
        entry_of (user_entries S (id_levels d)) str \<union> disk_entry C (id_persisted d) str"
      using mid unfolding is_mid_def Let_def by blast
    then show ?thesis
      using expire_entries_props(2) [OF ok(2) linv(2) ne(1)] user_entries_props(2) [OF ok(1) linv(1) ne(2)]
        db_wfD(3) [OF wf(1)] by blast
  qed
  with asc u e U E show ?thesis unfolding stream_shows_def out_iff by blast
qed

end
