(* ===== verification/Store_Keep.thy ===== *)
theory Store_Keep
  imports Store_Compact
begin

text \<open>
  What every operation of the store keeps: newer parts hold newer versions, level indexes are in
  order and below the counter, and the table on disk can be read.  Freezing and compaction keep
  what is read; only a commit changes it.
\<close>

section \<open>The invariant of the store\<close>

definition space_ok ::
  "('t \<Rightarrow> 'k \<Rightarrow> 'v seq_marked set) \<Rightarrow> ('a, 'b, 't, 'k, 'v) space \<Rightarrow>
   ('r \<Rightarrow> rstring \<Rightarrow> bytes seq_marked option) \<Rightarrow> ('a, 'b, 'r) leveled_map \<Rightarrow> bool" where
  "space_ok V P C lm \<longleftrightarrow> (\<forall>k. lm_inv V P C lm k \<and> upto (lm_versions V P C lm k) (lm_curr_seq lm))"

definition indexes_ok :: "u64 \<Rightarrow> ('a, 'b, 'r) leveled_map \<Rightarrow> bool" where
  "indexes_ok n lm \<longleftrightarrow>
    levels_wf (id_levels (lm_immutable lm)) \<and>
    id_last_level_index (lm_immutable lm) = newest_level_index (id_levels (lm_immutable lm)) \<and>
    (\<forall>e \<in> set (id_levels (lm_immutable lm)). li_seq (fst e) \<le> lm_curr_seq lm \<and> li_uniq (fst e) < n)"

definition texts_ok ::
  "('b \<Rightarrow> expire_key \<Rightarrow> rstring seq_marked set) \<Rightarrow> ('a, 'b, 'r) store_lib \<Rightarrow>
   ('r \<Rightarrow> rstring \<Rightarrow> bytes seq_marked option) \<Rightarrow> ('a, 'b, 'r) leveled_map \<Rightarrow> bool" where
  "texts_ok VE S C lm \<longleftrightarrow>
    (\<forall>k s m. m \<in> lm_versions VE (expire_keys S) C lm k \<and> marked m = Normal s \<longrightarrow> valid_str s)"

definition store_ok ::
  "('a, 'b, 'r) store_lib \<Rightarrow> ('a \<Rightarrow> rstring \<Rightarrow> meta_value seq_marked set) \<Rightarrow>
   ('b \<Rightarrow> expire_key \<Rightarrow> rstring seq_marked set) \<Rightarrow> ('r \<Rightarrow> rstring \<Rightarrow> bytes seq_marked option) \<Rightarrow>
   u64 \<Rightarrow> ('a, 'b, 'r) leveled_map \<Rightarrow> bool" where
  "store_ok S VU VE C n lm \<longleftrightarrow>
    indexes_ok n lm \<and> space_ok VU (user_keys S) C lm \<and> space_ok VE (expire_keys S) C lm \<and>
    texts_ok VE S C lm \<and> db_wf S C (lm_persisted lm)"

definition libs_ok ::
  "('a, 'b, 'r) store_lib \<Rightarrow> ('a \<Rightarrow> rstring \<Rightarrow> meta_value seq_marked set) \<Rightarrow>
   ('b \<Rightarrow> expire_key \<Rightarrow> rstring seq_marked set) \<Rightarrow> ('r \<Rightarrow> rstring \<Rightarrow> bytes seq_marked option) \<Rightarrow> bool" where
  "libs_ok S VU VE C \<longleftrightarrow>
    table_ok (sl_user S) VU \<and> table_ok (sl_expire S) VE \<and> rotbl_ok (sl_rotbl S) C \<and> value_lib_ok (sl_value S)"

text \<open>What a caller sees of a version: nothing, or a value with its sequence number.\<close>

definition value_of :: "'v seq_marked \<Rightarrow> (u64 \<times> 'v) option" where
  "value_of m = (case marked m of TombStone \<Rightarrow> None | Normal v \<Rightarrow> Some (internal_seq m, v))"

lemma value_of_simps [simp]:
  "value_of not_found = None" "value_of (SeqMarked s TombStone) = None" "value_of (SeqMarked s (Normal v)) = Some (s, v)"
  by (simp_all add: value_of_def)

lemma value_of_tombstone: "marked m = TombStone \<Longrightarrow> value_of m = None"
  by (simp add: value_of_def)

lemma immutable_data_new_simps [simp]:
  "id_levels (immutable_data_new L d) = L" "id_persisted (immutable_data_new L d) = d"
  "id_last_level_index (immutable_data_new L d) = newest_level_index L"
  by (simp_all add: immutable_data_new_def)

section \<open>Freezing\<close>

lemma freeze_shape:
  assumes "indexes_ok n lm" "n \<noteq> u64_max"
  defines "w \<equiv> lm_writable lm"
  defines "im \<equiv> \<lparr>im_index = LevelIndex (curr_seq (lv_sys_data w)) n, im_level = w\<rparr>"
  shows "do_freeze_writable S n lm =
      Inr (\<lparr>lm_writable = new_level (sl_user S) (sl_expire S) w,
            lm_immutable = immutable_data_new (id_levels (lm_immutable lm) @ [(im_index im, im)])
              (id_persisted (lm_immutable lm))\<rparr>, n + 1)"
    and "levels_wf (id_levels (lm_immutable lm) @ [(im_index im, im)])"
proof -
  have less: "\<forall>e \<in> set (id_levels (lm_immutable lm)). fst e < im_index im"
    using assms(1) by (auto simp: indexes_ok_def less_level_index_def im_def w_def lm_curr_seq_def)
  have wf: "levels_wf (id_levels (lm_immutable lm))" using assms(1) by (simp add: indexes_ok_def)
  from levels_insert_greater [OF wf less] show "do_freeze_writable S n lm =
      Inr (\<lparr>lm_writable = new_level (sl_user S) (sl_expire S) w,
            lm_immutable = immutable_data_new (id_levels (lm_immutable lm) @ [(im_index im, im)])
              (id_persisted (lm_immutable lm))\<rparr>, n + 1)"
    by (simp add: do_freeze_writable_def immutable_new_def w_def im_def)
  show "levels_wf (id_levels (lm_immutable lm) @ [(im_index im, im)])"
    using wf less by (simp add: levels_wf_append levels_wf_Cons)
qed

lemma data_seq_curr [simp]: "curr_seq (snd (incr_data_seq sd)) = curr_seq sd"
  by (simp add: incr_data_seq_def curr_seq_def Let_def)

lemma new_level_seq [simp]: "lv_sys_data (new_level A B l) = snd (incr_data_seq (lv_sys_data l))"
  by (simp add: new_level_def)

context store_space
begin

lemma default_not_found: "table_ok (sp_table P) V \<Longrightarrow> t_get (sp_table P) (t_default (sp_table P)) k s = not_found"
  using table_okD(3,4) by (metis is_latest_empty)

text \<open>Every read, at every snapshot, gives the same result and the same error after a freeze.\<close>

lemma freeze_reads:
  assumes "table_ok (sp_table P) V"
    and "lm' = \<lparr>lm_writable = new_level (sl_user S) (sl_expire S) (lm_writable lm),
      lm_immutable = immutable_data_new (id_levels (lm_immutable lm) @ [(i, \<lparr>im_index = i, im_level = lm_writable lm\<rparr>)])
        (id_persisted (lm_immutable lm))\<rparr>"
  shows "lm_get S P lm' k s = lm_get S P lm k s" "lm_shown P C lm' k s = lm_shown P C lm k s"
    "lm_versions V P C lm' k = lm_versions V P C lm k" "lm_inv V P C lm k \<Longrightarrow> lm_inv V P C lm' k"
  using default_not_found [OF assms(1), of k s]
  by (auto simp: assms(2) lm_get_def immutable_data_get_def lm_shown_def data_shown_def levels_get_def
      immutable_get_def sub_new table_okD(1-3) [OF assms(1)] Let_def lm_versions_def data_versions_def
      levels_versions_def vers_def lm_inv_def data_inv_def Un_assoc)

end

lemma libs_okD:
  assumes "libs_ok S VU VE C"
  shows "table_ok (sl_user S) VU" "table_ok (sl_expire S) VE" "rotbl_ok (sl_rotbl S) C" "value_lib_ok (sl_value S)"
    "table_ok (sp_table (user_keys S)) VU" "table_ok (sp_table (expire_keys S)) VE"
  using assms by (simp_all add: libs_ok_def)

lemma store_okD:
  assumes "store_ok S VU VE C n lm"
  shows "indexes_ok n lm" "lm_inv VU (user_keys S) C lm k" "upto (lm_versions VU (user_keys S) C lm k) (lm_curr_seq lm)"
    "lm_inv VE (expire_keys S) C lm e" "upto (lm_versions VE (expire_keys S) C lm e) (lm_curr_seq lm)"
    "texts_ok VE S C lm" "db_wf S C (lm_persisted lm)"
  using assms by (simp_all add: store_ok_def space_ok_def)

lemma freeze_store:
  assumes "libs_ok S VU VE C" "store_ok S VU VE C n lm" "n \<noteq> u64_max"
  obtains lm' where "do_freeze_writable S n lm = Inr (lm', n + 1)" "store_ok S VU VE C (n + 1) lm'"
    "lm_curr_seq lm' = lm_curr_seq lm" "lm_persisted lm' = lm_persisted lm"
    "lm_writable lm' = new_level (sl_user S) (sl_expire S) (lm_writable lm)"
    "id_levels (lm_immutable lm') = id_levels (lm_immutable lm) @
      [(LevelIndex (lm_curr_seq lm) n, \<lparr>im_index = LevelIndex (lm_curr_seq lm) n, im_level = lm_writable lm\<rparr>)]"
    "\<And>k s. lm_get S (user_keys S) lm' k s = lm_get S (user_keys S) lm k s"
    "\<And>k s. lm_get S (expire_keys S) lm' k s = lm_get S (expire_keys S) lm k s"
    "\<And>k s. lm_shown (user_keys S) C lm' k s = lm_shown (user_keys S) C lm k s"
    "\<And>k s. lm_shown (expire_keys S) C lm' k s = lm_shown (expire_keys S) C lm k s"
proof -
  let ?i = "LevelIndex (lm_curr_seq lm) n"
  let ?L = "id_levels (lm_immutable lm) @ [(?i, \<lparr>im_index = ?i, im_level = lm_writable lm\<rparr>)]"
  define lm' where "lm' = \<lparr>lm_writable = new_level (sl_user S) (sl_expire S) (lm_writable lm),
      lm_immutable = immutable_data_new ?L (id_persisted (lm_immutable lm))\<rparr>"
  note idx = store_okD(1) [OF assms(2)] and T = libs_okD(5,6) [OF assms(1)]
  have run: "do_freeze_writable S n lm = Inr (lm', n + 1)" and wf: "levels_wf ?L"
    using freeze_shape [OF idx assms(3)] by (simp_all add: lm'_def lm_curr_seq_def)
  have seq: "lm_curr_seq lm' = lm_curr_seq lm" by (simp add: lm'_def lm_curr_seq_def)
  have lt: "m < n + 1" if "m < n" for m using that u64_less_inc [OF assms(3)] by (rule less_trans)
  have "id_levels (lm_immutable lm') = ?L" "id_last_level_index (lm_immutable lm') = newest_level_index ?L"
    by (simp_all add: lm'_def)
  then have "indexes_ok (n + 1) lm'"
    using idx wf lt u64_less_inc [OF assms(3)] by (simp add: indexes_ok_def seq)
  moreover have "space_ok VU (user_keys S) C lm'" "space_ok VE (expire_keys S) C lm'" "texts_ok VE S C lm'"
    using user_store.freeze_reads(3,4) [OF T(1) lm'_def] expire_store.freeze_reads(3,4) [OF T(2) lm'_def]
      store_okD [OF assms(2)] by (simp_all add: space_ok_def seq texts_ok_def)
  moreover have per: "lm_persisted lm' = lm_persisted lm" by (simp add: lm'_def lm_persisted_def)
  ultimately have "store_ok S VU VE C (n + 1) lm'"
    using store_okD(7) [OF assms(2)] by (simp add: store_ok_def)
  then show thesis
    using that [OF run _ seq per] user_store.freeze_reads(1,2) [OF T(1) lm'_def]
      expire_store.freeze_reads(1,2) [OF T(2) lm'_def] by (simp add: lm'_def)
qed

section \<open>Compaction in memory\<close>

context store_space
begin

lemma compact_reads:
  assumes "table_ok (sp_table P) V" "levels_wf (id_levels (lm_immutable lm))" "lm_inv V P C lm k"
    and "m \<le> s \<or> upto (levels_versions V (sp_sub P) (id_levels (lm_immutable lm)) k) s"
    and "lm' = replace_immutable_levels lm (compact_min_adjacent (sl_user S) (sl_expire S) (id_levels (lm_immutable lm)) m)"
  shows "lm_get S P lm' k s = lm_get S P lm k s" "lm_shown P C lm' k s = lm_shown P C lm k s"
    "lm_versions V P C lm' k \<subseteq> lm_versions V P C lm k" "lm_inv V P C lm' k"
proof -
  have inv: "data_inv V P C (lm_immutable lm) k" using assms(3) by (simp add: lm_inv_def)
  note keep = compact_min_adjacent_reads [OF assms(1,2) data_inv_levels [OF inv] assms(4)]
  have reads: "levels_get (sp_table P) (sp_sub P) (id_levels (lm_immutable lm')) k s =
      levels_get (sp_table P) (sp_sub P) (id_levels (lm_immutable lm)) k s"
    and per: "id_persisted (lm_immutable lm') = id_persisted (lm_immutable lm)" "lm_writable lm' = lm_writable lm"
    using keep(3) by (simp_all add: assms(5) replace_immutable_levels_def)
  then show "lm_get S P lm' k s = lm_get S P lm k s" "lm_shown P C lm' k s = lm_shown P C lm k s"
    by (simp_all add: lm_get_def immutable_data_get_def lm_shown_def data_shown_def Let_def)
  have sub: "levels_versions V (sp_sub P) (id_levels (lm_immutable lm')) k \<subseteq>
      levels_versions V (sp_sub P) (id_levels (lm_immutable lm)) k"
    using keep(2) by (simp add: assms(5) replace_immutable_levels_def)
  with per show vers: "lm_versions V P C lm' k \<subseteq> lm_versions V P C lm k"
    by (auto simp: lm_versions_def data_versions_def)
  have dsub: "data_versions V P C (lm_immutable lm') k \<subseteq> data_versions V P C (lm_immutable lm) k"
    using sub per by (auto simp: data_versions_def)
  have "data_inv V P C (lm_immutable lm') k"
    using inv keep(1) over_mono [OF _ sub order_refl] good_subset [OF _ dsub] per
    by (auto simp: data_inv_def levels_inv_def assms(5) replace_immutable_levels_def)
  then show "lm_inv V P C lm' k"
    using assms(3) over_mono [OF _ order_refl dsub] good_subset [OF _ vers] per by (auto simp: lm_inv_def)
qed

end

lemma upto_mono: "upto S s \<Longrightarrow> S' \<subseteq> S \<Longrightarrow> s \<le> s' \<Longrightarrow> upto S' s'"
  unfolding upto_def by (meson order_trans subsetD)

lemma diff_index_ge: "diff_index xs ys i = Some j \<Longrightarrow> i \<le> j"
  by (induction xs ys i rule: diff_index.induct) (auto split: if_splits)

lemma newest_level_index_snoc:
  "newest_level_index [] = None" "newest_level_index (L @ [e]) = Some (im_index (snd e))"
  by (simp_all add: newest_level_index_def)

lemma newest_level_index_append: "newest_level_index (xs @ e # ys) = newest_level_index (e # ys)"
  by (cases "e # ys" rule: rev_cases) (simp_all add: newest_level_index_def flip: append_assoc)

text \<open>Two levels become one, under the index of the newer; the other levels stay.\<close>

lemma compact_min_adjacent_indexes:
  fixes A :: "'a user_lib" and B :: "'b expire_lib" and m :: u64
  assumes "levels_wf L" "1 < length L"
  defines "L' \<equiv> compact_min_adjacent A B L m"
  shows "levels_wf L'" "newest_level_index L' = newest_level_index L" "fst ` set L' \<subseteq> fst ` set L"
    "length L' + 1 = length L"
proof -
  obtain us older newer vs where L: "L = us @ (im_index older, older) # (im_index newer, newer) # vs"
    and L': "L' = us @ (im_index newer, immutable_compact A B newer older m) # vs"
    and less: "im_index older < im_index newer"
    using compact_min_adjacent_shape [OF assms(1,2)] unfolding L'_def by metis
  have idx: "im_index (immutable_compact A B newer older m) = im_index newer"
    using less by (simp add: immutable_compact_def new_with_index_def)
  show "levels_wf L'" using assms(1) idx by (auto simp: L L' levels_wf_append levels_wf_Cons)
  show "fst ` set L' \<subseteq> fst ` set L" "length L' + 1 = length L" by (auto simp: L L')
  show "newest_level_index L' = newest_level_index L"
    by (cases vs rule: rev_cases) (simp_all add: L L' newest_level_index_def newest_def newest_to_oldest_def idx)
qed

lemma compactor_panic_free:
  assumes "levels_wf L" "1 < length L"
  shows "diff_index (levels_stat A B L) (levels_stat A B (compact_min_adjacent A B L m)) 0 \<noteq> Some 0"
proof -
  obtain im ims im' ims' where "newest_to_oldest L = im # ims"
    "newest_to_oldest (compact_min_adjacent A B L m) = im' # ims'" "im_index im = im_index im'"
    using compact_min_adjacent_indexes(2,4) [OF assms, of A B m] assms(2)
    by (cases "newest_to_oldest L"; cases "newest_to_oldest (compact_min_adjacent A B L m)")
      (auto simp: newest_level_index_def newest_def newest_to_oldest_def)
  then show ?thesis
    using diff_index_ge by (fastforce simp: levels_stat_def stat_with_index_def)
qed

lemma compactor_cases:
  assumes "levels_wf (id_levels (lm_immutable lm))"
  obtains (skip) "immutable_compactor_compact S lm m = Inr lm"
  | (compacted) "1 < length (id_levels (lm_immutable lm))"
    "immutable_compactor_compact S lm m = Inr (replace_immutable_levels lm
      (compact_min_adjacent (sl_user S) (sl_expire S) (id_levels (lm_immutable lm)) m))"
proof (cases "need_compact (sl_user S) (sl_expire S) (id_levels (lm_immutable lm))")
  case (Inl e)
  then show thesis by (intro skip) (simp add: immutable_compactor_compact_def Let_def)
next
  case (Inr u)
  then have "1 < length (id_levels (lm_immutable lm))"
    by (auto simp: need_compact_def Let_def split: if_splits)
  moreover from this have "immutable_compactor_compact S lm m = Inr lm \<or>
      immutable_compactor_compact S lm m = Inr (replace_immutable_levels lm
        (compact_min_adjacent (sl_user S) (sl_expire S) (id_levels (lm_immutable lm)) m))"
    using compactor_panic_free [OF assms, of "sl_user S" "sl_expire S" m] Inr
    by (simp add: immutable_compactor_compact_def Let_def)
  ultimately show thesis using skip compacted by blast
qed

lemma indexes_ok_replace:
  assumes "indexes_ok n lm" "levels_wf L" "fst ` set L \<subseteq> fst ` set (id_levels (lm_immutable lm))"
  shows "indexes_ok n (lm\<lparr>lm_immutable := immutable_data_new L d\<rparr>)"
proof -
  have "\<forall>i \<in> fst ` set (id_levels (lm_immutable lm)). li_seq i \<le> lm_curr_seq lm \<and> li_uniq i < n"
    using assms(1) by (simp add: indexes_ok_def)
  with assms(3) have "\<forall>i \<in> fst ` set L. li_seq i \<le> lm_curr_seq lm \<and> li_uniq i < n" by (meson subsetD)
  with assms(2) show ?thesis by (simp add: indexes_ok_def lm_curr_seq_def)
qed

lemma mem_compact_store:
  assumes "libs_ok S VU VE C" "store_ok S VU VE C n lm"
  obtains lm' where "immutable_compactor_compact S lm m = Inr lm'" "store_ok S VU VE C n lm'"
    "lm_writable lm' = lm_writable lm" "lm_persisted lm' = lm_persisted lm"
    "length (id_levels (lm_immutable lm')) \<le> length (id_levels (lm_immutable lm))"
    "\<And>k s. m \<le> s \<or> lm_curr_seq lm \<le> s \<Longrightarrow> lm_get S (user_keys S) lm' k s = lm_get S (user_keys S) lm k s"
    "\<And>k s. m \<le> s \<or> lm_curr_seq lm \<le> s \<Longrightarrow> lm_get S (expire_keys S) lm' k s = lm_get S (expire_keys S) lm k s"
    "\<And>k s. m \<le> s \<or> lm_curr_seq lm \<le> s \<Longrightarrow> lm_shown (user_keys S) C lm' k s = lm_shown (user_keys S) C lm k s"
    "\<And>k s. m \<le> s \<or> lm_curr_seq lm \<le> s \<Longrightarrow> lm_shown (expire_keys S) C lm' k s = lm_shown (expire_keys S) C lm k s"
proof -
  note idx = store_okD(1) [OF assms(2)] and T = libs_okD(5,6) [OF assms(1)]
  have wf: "levels_wf (id_levels (lm_immutable lm))" using idx by (simp add: indexes_ok_def)
  show thesis
  proof (cases rule: compactor_cases [OF wf, of S m])
    case 1
    show ?thesis by (rule that [OF 1 assms(2)]) simp_all
  next
    case 2
    let ?L = "id_levels (lm_immutable lm)"
    define lm' where "lm' = replace_immutable_levels lm (compact_min_adjacent (sl_user S) (sl_expire S) ?L m)"
    have parts: "lm_writable lm' = lm_writable lm" "lm_persisted lm' = lm_persisted lm"
      "lm_curr_seq lm' = lm_curr_seq lm"
      "id_levels (lm_immutable lm') = compact_min_adjacent (sl_user S) (sl_expire S) ?L m"
      "id_last_level_index (lm_immutable lm') = newest_level_index (compact_min_adjacent (sl_user S) (sl_expire S) ?L m)"
      by (simp_all add: lm'_def replace_immutable_levels_def lm_curr_seq_def lm_persisted_def)
    have pre: "m \<le> s \<or> upto (levels_versions VU (sp_sub (user_keys S)) ?L k) s"
      "m \<le> s \<or> upto (levels_versions VE (sp_sub (expire_keys S)) ?L e) s" if "m \<le> s \<or> lm_curr_seq lm \<le> s" for s k e
      using that upto_mono [OF store_okD(3) [OF assms(2), of k]] upto_mono [OF store_okD(5) [OF assms(2), of e]]
      by (auto simp: lm_versions_def data_versions_def)
    note U = user_store.compact_reads [OF T(1) wf store_okD(2) [OF assms(2)] pre(1) lm'_def]
    note E = expire_store.compact_reads [OF T(2) wf store_okD(4) [OF assms(2)] pre(2) lm'_def]
    have "indexes_ok n lm'"
      using indexes_ok_replace [OF idx] compact_min_adjacent_indexes(1,3) [OF wf 2(1), of "sl_user S" "sl_expire S" m]
      by (simp add: lm'_def replace_immutable_levels_def)
    moreover have "space_ok VU (user_keys S) C lm'" "space_ok VE (expire_keys S) C lm'" "texts_ok VE S C lm'"
      using U(4) [of m] E(4) [of m] upto_mono [OF store_okD(3) [OF assms(2)] U(3) [of m] order_refl]
        upto_mono [OF store_okD(5) [OF assms(2)] E(3) [of m] order_refl] subsetD [OF E(3) [of m]]
        store_okD(6) [OF assms(2)]
      by (simp_all add: space_ok_def texts_ok_def parts) blast
    ultimately have "store_ok S VU VE C n lm'"
      using store_okD(7) [OF assms(2)] by (simp add: store_ok_def parts)
    moreover have "length (id_levels (lm_immutable lm')) \<le> length ?L"
      using compact_min_adjacent_indexes(4) [OF wf 2(1), of "sl_user S" "sl_expire S" m] by (simp add: parts)
    ultimately show ?thesis using U(1,2) E(1,2) 2(2) parts(1,2)
      by (intro that [of lm']) (simp_all add: lm'_def)
  qed
qed

section \<open>Compaction to disk\<close>

lemma is_latest_upto: "upto S s \<Longrightarrow> upto S s' \<Longrightarrow> is_latest S s m \<Longrightarrow> is_latest S s' m"
  by (auto simp: is_latest_def upto_def)

lemma get_newest_first_append:
  assumes "table_ok T V"
  shows "get_newest_first T sub (xs @ ys) k s =
    (let g = get_newest_first T sub xs k s in if g \<noteq> not_found then g else get_newest_first T sub ys k s)"
  by (induction xs) (auto simp: table_okD(1,2) [OF assms] Let_def)

lemma levels_get_append:
  assumes "table_ok T V"
  shows "levels_get T sub (xs @ ys) k s =
    (let g = levels_get T sub ys k s in if g \<noteq> not_found then g else levels_get T sub xs k s)"
  by (simp add: levels_get_def get_newest_first_append [OF assms] Let_def)

lemma levels_versions_append [simp]:
  "levels_versions V sub (xs @ ys) k = levels_versions V sub ys k \<union> levels_versions V sub xs k"
  by (simp add: levels_versions_def)

text \<open>
  The immutable data \<open>d0\<close> that a compaction began with is the older part of the immutable data of
  the store.
\<close>

definition older_part :: "('a, 'b, 'r) immutable_data \<Rightarrow> ('a, 'b) immutable_levels \<Rightarrow> ('a, 'b, 'r) immutable_data \<Rightarrow> bool" where
  "older_part d0 ys d \<longleftrightarrow>
    id_levels d = id_levels d0 @ ys \<and> id_persisted d0 = id_persisted d \<and>
    id_last_level_index d0 = newest_level_index (id_levels d0)"

lemma older_part_inv:
  assumes "older_part d0 ys d" "data_inv V P C d k"
  shows "data_inv V P C d0 k" "data_versions V P C d k = levels_versions V (sp_sub P) ys k \<union> data_versions V P C d0 k"
    "over (levels_versions V (sp_sub P) ys k) (data_versions V P C d0 k)"
    "stacked (map (vers V (sp_sub P) k) (newest_to_oldest ys))"
proof -
  show eq: "data_versions V P C d k = levels_versions V (sp_sub P) ys k \<union> data_versions V P C d0 k"
    using assms(1) by (auto simp: older_part_def data_versions_def)
  have "good (data_versions V P C d0 k)"
    using assms(2) eq by (auto simp: data_inv_def intro: good_subset)
  with assms show "data_inv V P C d0 k" "over (levels_versions V (sp_sub P) ys k) (data_versions V P C d0 k)"
    "stacked (map (vers V (sp_sub P) k) (newest_to_oldest ys))"
    by (auto simp: data_inv_def older_part_def stacked_append data_versions_def levels_versions_def)
qed

lemma older_part_shown:
  assumes "table_ok (sp_table P) V" "older_part d0 ys d"
  shows "data_shown P C d k s =
    (let g = levels_get (sp_table P) (sp_sub P) ys k s in if g \<noteq> not_found then g else data_shown P C d0 k s)"
  using assms(2) by (simp add: older_part_def data_shown_def levels_get_append [OF assms(1)] Let_def)

text \<open>The new table on disk has, for a key, what a read of \<open>d0\<close> shows.\<close>

definition db_replaces ::
  "('a, 'b, 't, 'k, 'v) space \<Rightarrow> ('r \<Rightarrow> rstring \<Rightarrow> bytes seq_marked option) \<Rightarrow> 'r db \<Rightarrow> 'k \<Rightarrow> 'v seq_marked \<Rightarrow> bool" where
  "db_replaces P C db k h \<longleftrightarrow>
    (let entry = C (db_rotbl db) (encode_key (ki_prefix (sp_key P)) (ki_encode (sp_key P)) k) in
     (\<forall>raw. entry = Some raw \<longrightarrow> ki_value_decode (sp_key P) raw = Inr h) \<and>
     (entry \<noteq> None \<longleftrightarrow> marked h \<noteq> TombStone))"

lemma db_replaces_versions:
  assumes "db_replaces P C db k h"
  shows "db_versions P C (Some db) k = (if marked h = TombStone then {} else {h})"
    "db_shown P C (Some db) k = (if marked h = TombStone then not_found else h)"
  using assms by (auto simp: db_replaces_def db_versions_def db_shown_def Let_def split: option.splits)

lemma replace_reads:
  assumes T: "table_ok (sp_table P) V" and part: "older_part d0 ys (lm_immutable lm)" and inv: "lm_inv V P C lm k"
    and db: "db_replaces P C db k (data_shown P C d0 k u64_max)"
    and lm': "lm' = lm\<lparr>lm_immutable := immutable_data_new ys (Some db)\<rparr>"
  shows "upto (data_versions V P C d0 k) s \<Longrightarrow> value_of (lm_shown P C lm' k s) = value_of (lm_shown P C lm k s)"
    "lm_versions V P C lm' k \<subseteq> lm_versions V P C lm k" "lm_inv V P C lm' k"
proof -
  let ?h = "data_shown P C d0 k u64_max"
  have dinv: "data_inv V P C (lm_immutable lm) k" using inv by (simp add: lm_inv_def)
  note old = older_part_inv [OF part dinv]
  have latest: "is_latest (data_versions V P C d0 k) s (data_shown P C d0 k s)"
    if "upto (data_versions V P C d0 k) s" for s
    using that by (intro data_shown_latest [OF T old(1)]) (auto simp: upto_def data_versions_def)
  have h: "?h \<in> data_versions V P C d0 k" if "marked ?h \<noteq> TombStone"
    using latest [of u64_max] that by (auto simp: upto_def is_latest_def split: if_splits)
  show "value_of (lm_shown P C lm' k s) = value_of (lm_shown P C lm k s)" if "upto (data_versions V P C d0 k) s"
  proof -
    have "data_shown P C d0 k s = ?h"
      using old(1) latest [OF that] latest [of u64_max] that
      by (intro is_latest_unique [of "data_versions V P C d0 k" u64_max])
        (auto simp: data_inv_def upto_def intro: is_latest_upto)
    then show ?thesis
      by (simp add: lm_shown_def lm' older_part_shown [OF T part] data_shown_def [of P C "immutable_data_new ys (Some db)"]
          db_replaces_versions(2) [OF db] Let_def value_of_tombstone)
  qed
  have sub: "data_versions V P C (lm_immutable lm') k \<subseteq> data_versions V P C (lm_immutable lm) k"
    using h by (auto simp: lm' old(2) data_versions_def [of V P C "immutable_data_new ys (Some db)"]
        db_replaces_versions(1) [OF db])
  then show vers: "lm_versions V P C lm' k \<subseteq> lm_versions V P C lm k"
    by (auto simp: lm_versions_def lm')
  have "over (levels_versions V (sp_sub P) ys k) (db_versions P C (Some db) k)"
    using old(3) h by (auto simp: db_replaces_versions(1) [OF db] over_def)
  then have "data_inv V P C (lm_immutable lm') k"
    using old(4) dinv good_subset [OF _ sub] by (simp add: data_inv_def lm')
  then show "lm_inv V P C lm' k"
    using inv over_mono [OF _ order_refl sub] good_subset [OF _ vers] by (simp add: lm_inv_def lm')
qed

end
