(* ===== verification/Mem_Store.thy ===== *)
theory Mem_Store
  imports Store_Keep Mem_View
begin

text \<open>
  A small in-memory instance of the library functions that the store uses: a table of versions is
  a list of keys and versions, a table on disk an association list.  It shows that the documented
  behaviour \<open>libs_ok\<close> can be met, and the witnesses of the properties of the store run on it.  It
  stands for library code and models nothing of the sources.
\<close>

section \<open>Tables of versions\<close>

type_synonym ('k, 'v) vtable = "('k \<times> 'v seq_marked) list"

definition vt_versions :: "('k, 'v) vtable \<Rightarrow> 'k \<Rightarrow> 'v seq_marked set" where
  "vt_versions t k = {m. (k, m) \<in> set t}"

definition vt_max :: "'v seq_marked \<Rightarrow> 'v seq_marked \<Rightarrow> 'v seq_marked" where
  "vt_max a b = (if sm_le a b then b else a)"

fun vt_latest :: "'v seq_marked list \<Rightarrow> 'v seq_marked" where
  "vt_latest [] = not_found"
| "vt_latest [m] = m"
| "vt_latest (m # m' # ms) = vt_max m (vt_latest (m' # ms))"

definition vt_seen :: "('k, 'v) vtable \<Rightarrow> 'k \<Rightarrow> u64 \<Rightarrow> 'v seq_marked list" where
  "vt_seen t k s = map snd (filter (\<lambda>e. fst e = k \<and> internal_seq (snd e) \<le> s) t)"

definition vt_get :: "('k, 'v) vtable \<Rightarrow> 'k \<Rightarrow> u64 \<Rightarrow> 'v seq_marked" where
  "vt_get t k s = vt_latest (vt_seen t k s)"

definition vt_range :: "('k :: linorder, 'v) vtable \<Rightarrow> 'k bound \<times> 'k bound \<Rightarrow> u64 \<Rightarrow> ('k \<times> 'v seq_marked) list" where
  "vt_range t r s = map (\<lambda>k. (k, vt_get t k s)) (mem_keys (filter (\<lambda>e. internal_seq (snd e) \<le> s) t) r)"

definition vt_compact :: "('k, 'v) vtable \<Rightarrow> ('k, 'v) vtable \<Rightarrow> u64 \<Rightarrow> ('k, 'v) vtable" where
  "vt_compact a b m =
    filter (\<lambda>e. \<not> list_ex (\<lambda>e'. fst e' = fst e \<and> \<not> sm_le (snd e') (snd e) \<and> internal_seq (snd e') \<le> m) (a @ b)) (a @ b)"

definition vt_coalesce :: "('k :: linorder \<times> 'v seq_marked) strm \<Rightarrow> ('k \<times> 'v seq_marked) strm" where
  "vt_coalesce strm =
    filter isl strm @ map Inr (vt_range (ok_items strm) (Unbounded, Unbounded) u64_max)"

definition vt_lib :: "(('k :: linorder, 'v) vtable, 'k, 'v) table_lib" where
  "vt_lib =
    \<lparr>t_default = [], t_len = (\<lambda>t. word_of_nat (length t)), t_get = vt_get, t_range = vt_range, t_compact = vt_compact,
     t_from_stream = (\<lambda>xs. Inr (ok_items xs)),
     t_apply_changes = (\<lambda>t s cs. t @ map (\<lambda>c. (fst (fst c), version_of (snd (fst c)) (snd c))) cs),
     t_kmerge = concat, t_coalesce = vt_coalesce, t_not_found = not_found,
     t_is_not_found = (\<lambda>m. internal_seq m = 0 \<and> (case marked m of TombStone \<Rightarrow> True | Normal v \<Rightarrow> False))\<rparr>"

lemma vt_latest_greatest: "ms \<noteq> [] \<Longrightarrow> vt_latest ms \<in> set ms \<and> (\<forall>m \<in> set ms. sm_le m (vt_latest ms))"
proof (induction ms rule: vt_latest.induct)
  case (3 m m' ms)
  then show ?case using sm_le_trans sm_le_total by (auto simp: vt_max_def) blast+
qed auto

lemma vt_seen_set: "set (vt_seen t k s) = {m \<in> vt_versions t k. internal_seq m \<le> s}"
  by (force simp: vt_seen_def vt_versions_def)

lemma vt_get_latest: "is_latest (vt_versions t k) s (vt_get t k s)"
proof (cases "vt_seen t k s = []")
  case True
  then have "{m \<in> vt_versions t k. internal_seq m \<le> s} = {}" using vt_seen_set by (metis set_empty)
  with True show ?thesis by (auto simp: is_latest_def vt_get_def)
next
  case False
  then show ?thesis using vt_latest_greatest [OF False] vt_seen_set [of t k s] by (auto simp: is_latest_def vt_get_def)
qed

lemma vt_range_props:
  "sorted_wrt (<) (map fst (vt_range t r s))"
  "(k, m) \<in> set (vt_range t r s) \<longleftrightarrow> in_range r k \<and> m = vt_get t k s \<and> vt_seen t k s \<noteq> []"
proof -
  show "sorted_wrt (<) (map fst (vt_range t r s))"
    using mem_keys_props(1) by (simp add: vt_range_def comp_def)
  show "(k, m) \<in> set (vt_range t r s) \<longleftrightarrow> in_range r k \<and> m = vt_get t k s \<and> vt_seen t k s \<noteq> []"
    by (auto simp: vt_range_def mem_keys_props vt_seen_def filter_empty_conv image_iff) force
qed

lemma vt_range_shows: "range_shows r (\<lambda>k. vt_get t k s) (vt_range t r s)"
  by (auto simp: range_shows_def vt_range_props(1) vt_range_props(2) vt_get_def)

lemma vt_compact_law: "compact_law vt_lib vt_versions"
  by (auto simp: compact_law_def vt_lib_def vt_compact_def vt_versions_def list_ex_iff)

lemma vt_coalesce_no_error: "no_error (vt_coalesce strm) \<longleftrightarrow> no_error strm"
  by (simp add: vt_coalesce_def) (auto simp: no_error_def list_all_iff)

lemma vt_coalesce_items: "Inr x \<in> set (vt_coalesce strm) \<longleftrightarrow> x \<in> set (vt_range (ok_items strm) (Unbounded, Unbounded) u64_max)"
  by (auto simp: vt_coalesce_def)

lemma ok_items_isl: "ok_items (filter isl strm) = []"
  by (induction strm rule: ok_items.induct) auto

lemma vt_merged: "merged xs (vt_coalesce (concat xs))"
proof -
  let ?t = "ok_items (concat xs)"
  have item: "m \<in> vt_versions ?t k \<longleftrightarrow> (\<exists>x \<in> set xs. Inr (k, m) \<in> set x)" for k m
    by (auto simp: vt_versions_def ok_items_iff)
  have err: "no_error (vt_coalesce (concat xs)) \<longleftrightarrow> list_all no_error xs"
    by (simp add: vt_coalesce_no_error) (auto simp: no_error_def list_all_iff)
  have asc: "ascending (vt_coalesce (concat xs))"
    using vt_range_props(1) by (simp add: ascending_def vt_coalesce_def ok_items_isl)
  have in_all: "in_range (Unbounded, Unbounded) k" for k :: 'a by (simp add: in_range_def)
  have seen: "vt_seen ?t k u64_max \<noteq> [] \<longleftrightarrow> vt_versions ?t k \<noteq> {}" for k
    using vt_seen_set [of ?t k u64_max] by (metis (no_types, lifting) Collect_cong Collect_mem_eq le_u64_max set_empty)
  have out: "m \<in> vt_versions ?t k" "\<And>m'. m' \<in> vt_versions ?t k \<Longrightarrow> sm_le m' m"
    if entry: "Inr (k, m) \<in> set (vt_coalesce (concat xs))" for k m
  proof -
    have "m = vt_get ?t k u64_max" "vt_versions ?t k \<noteq> {}"
      using entry by (simp_all add: vt_coalesce_items vt_range_props(2) seen)
    with vt_get_latest [of ?t k u64_max]
    show "m \<in> vt_versions ?t k" "\<And>m'. m' \<in> vt_versions ?t k \<Longrightarrow> sm_le m' m"
      by (auto simp: is_latest_def split: if_splits)
  qed
  have all: "Inr (k, vt_get ?t k u64_max) \<in> set (vt_coalesce (concat xs))" if "m \<in> vt_versions ?t k" for k m
    using that by (auto simp: vt_coalesce_items vt_range_props(2) seen in_all)
  show ?thesis
    unfolding merged_def
  proof (intro conjI impI allI ballI)
    show "no_error (vt_coalesce (concat xs)) \<longleftrightarrow> list_all no_error xs" by (rule err)
    show "ascending (vt_coalesce (concat xs))" by (rule asc)
    fix k m
    assume "Inr (k, m) \<in> set (vt_coalesce (concat xs))"
    note entry = out [OF this]
    show "\<exists>x \<in> set xs. Inr (k, m) \<in> set x" using entry(1) item by simp
    show "sm_le m' m" if "x \<in> set xs" "Inr (k, m') \<in> set x" for x m'
      using that item by (intro entry(2)) blast
  next
    show "\<exists>m'. Inr (k, m') \<in> set (vt_coalesce (concat xs))" if "x \<in> set xs" "Inr (k, m) \<in> set x" for x k m
      using all [of m k] item that by blast
  qed
qed

lemma vt_lib_simps [simp]:
  "t_not_found vt_lib = not_found" "t_is_not_found vt_lib m \<longleftrightarrow> m = not_found" "t_default vt_lib = []"
  "t_get vt_lib = vt_get" "t_range vt_lib = vt_range" "t_kmerge vt_lib = concat" "t_coalesce vt_lib = vt_coalesce"
  "t_from_stream vt_lib xs = Inr (ok_items xs)"
  "t_apply_changes vt_lib t s cs = t @ map (\<lambda>c. (fst (fst c), version_of (snd (fst c)) (snd c))) cs"
proof -
  show "t_is_not_found vt_lib m \<longleftrightarrow> m = not_found"
    by (cases m; cases "marked m") (simp_all add: vt_lib_def not_found_def)
qed (simp_all add: vt_lib_def)

lemma vt_lib_ok: "table_ok vt_lib vt_versions"
proof -
  have "from_stream_law vt_lib vt_versions"
    by (auto simp: from_stream_law_def vt_versions_def ok_items_iff)
  moreover have "vt_versions (t_apply_changes vt_lib t s cs) k = vt_versions t k \<union> {version_of m v |m v. ((k, m), v) \<in> set cs}" for t s cs k
    by (force simp: vt_versions_def)
  moreover have "m \<in> vt_versions t k" if "(k, m) \<in> set (vt_range t r s)" for t r s k m
    using that vt_latest_greatest [of "vt_seen t k s"] vt_seen_set [of t k s]
    by (auto simp: vt_range_props(2) vt_get_def)
  moreover have "vt_versions [] k = {}" for k by (simp add: vt_versions_def)
  ultimately show ?thesis
    unfolding table_ok_def using vt_get_latest vt_range_shows vt_compact_law vt_merged
    by (intro conjI allI impI) (simp_all del: split_paired_All)
qed

section \<open>Tables on disk\<close>

fun merge_by :: "('x \<Rightarrow> 'x \<Rightarrow> bool) \<Rightarrow> 'x \<Rightarrow> 'x list \<Rightarrow> 'x list" where
  "merge_by le x [] = [x]"
| "merge_by le x (y # ys) = (if le x y then x # y # ys else y # merge_by le x ys)"

function coalesce_by :: "('x \<Rightarrow> 'x \<Rightarrow> ('x \<times> 'x) + 'x) \<Rightarrow> 'x list \<Rightarrow> 'x list" where
  "coalesce_by f [] = []"
| "coalesce_by f [x] = [x]"
| "coalesce_by f (x # y # zs) =
    (case f x y of Inr z \<Rightarrow> coalesce_by f (z # zs) | Inl (x', y') \<Rightarrow> x' # coalesce_by f (y' # zs))"
  by pat_completeness auto
termination
  by (relation "measure (\<lambda>(f, xs). length xs)") auto

text \<open>A table on disk: its entries and its user data.\<close>

type_synonym disk_table = "(rstring \<times> bytes seq_marked) list \<times> rstring"

definition at_content :: "disk_table \<Rightarrow> rstring \<Rightarrow> bytes seq_marked option" where
  "at_content t = map_of (fst t)"

definition at_lib :: "disk_table rotbl_lib" where
  "at_lib =
    \<lparr>r_get = (\<lambda>t k. Inr (map_of (fst t) k)),
     r_range = (\<lambda>t r. map (\<lambda>k. Inr (k, the (map_of (fst t) k))) (mem_keys (fst t) r)),
     r_order_key = (\<lambda>m. 2 * unat (internal_seq m) + (case marked m of TombStone \<Rightarrow> 1 | Normal v \<Rightarrow> 0)),
     r_kmerge = (\<lambda>le xss. foldr (merge_by le) (concat xss) []),
     r_coalesce = coalesce_by\<rparr>"

lemma merge_by_set: "set (merge_by le x ys) = insert x (set ys)"
  by (induction ys) auto

text \<open>A total preorder on a set.\<close>

definition pre_on :: "('x \<Rightarrow> 'x \<Rightarrow> bool) \<Rightarrow> 'x set \<Rightarrow> bool" where
  "pre_on le A \<longleftrightarrow> (\<forall>x \<in> A. \<forall>y \<in> A. \<forall>z \<in> A. (le x y \<or> le y x) \<and> (le x y \<and> le y z \<longrightarrow> le x z))"

lemma pre_onD:
  assumes "pre_on le A"
  shows "x \<in> A \<Longrightarrow> y \<in> A \<Longrightarrow> \<not> le x y \<Longrightarrow> le y x"
    "le x y \<Longrightarrow> le y z \<Longrightarrow> x \<in> A \<Longrightarrow> y \<in> A \<Longrightarrow> z \<in> A \<Longrightarrow> le x z"
  using assms unfolding pre_on_def by blast+

lemma pre_on_subset: "pre_on le A \<Longrightarrow> B \<subseteq> A \<Longrightarrow> pre_on le B"
  unfolding pre_on_def by (meson subsetD)

lemma merge_by_sorted:
  assumes "sorted_wrt le ys" "pre_on le (insert x (set ys))"
  shows "sorted_wrt le (merge_by le x ys)"
  using assms
proof (induction ys)
  case (Cons y ys)
  have "pre_on le (insert x (set ys))" using Cons.prems(2) by (rule pre_on_subset) auto
  then have IH: "sorted_wrt le (merge_by le x ys)" using Cons.IH Cons.prems(1) by simp
  show ?case
  proof (cases "le x y")
    case True
    have "le x z" if "z \<in> set ys" for z
      using pre_onD(2) [OF Cons.prems(2) True, of z] Cons.prems(1) that by simp
    with True Cons.prems(1) show ?thesis by simp
  next
    case False
    then have "le y x" using pre_onD(1) [OF Cons.prems(2), of x y] by simp
    with False IH Cons.prems(1) show ?thesis by (simp add: merge_by_set)
  qed
qed simp

lemma merge_all_set: "set (foldr (merge_by le) xs []) = set xs"
  by (induction xs) (auto simp: merge_by_set)

lemma merge_all_sorted: "pre_on le (set xs) \<Longrightarrow> sorted_wrt le (foldr (merge_by le) xs [])"
proof (induction xs)
  case (Cons x xs)
  then have "sorted_wrt le (foldr (merge_by le) xs [])" using pre_on_subset [of le "set (x # xs)" "set xs"] by auto
  then show ?case using Cons.prems by (simp add: merge_by_sorted merge_all_set)
qed simp

lemma at_lib_ok: "rotbl_ok at_lib at_content"
proof -
  have "order_key_law at_lib"
    unfolding order_key_law_def at_lib_def sm_le_def by (auto simp: word_less_nat_alt word_unat_eq_iff split: marked.splits)
  moreover have "kmerge_law at_lib"
    unfolding kmerge_law_def
  proof (intro allI conjI impI)
    fix le :: "rotbl_item \<Rightarrow> rotbl_item \<Rightarrow> bool" and xss
    show "set (r_kmerge at_lib le xss) = \<Union> (set (map set xss))" by (simp add: at_lib_def merge_all_set)
    assume "(\<forall>x \<in> \<Union> (set (map set xss)). \<forall>y \<in> \<Union> (set (map set xss)). \<forall>z \<in> \<Union> (set (map set xss)).
          (le x y \<or> le y x) \<and> (le x y \<and> le y z \<longrightarrow> le x z)) \<and> list_all (sorted_wrt le) xss"
    then have "sorted_wrt le (foldr (merge_by le) (concat xss) [])"
      by (intro merge_all_sorted) (simp only: pre_on_def set_concat set_map, elim conjE)
    then show "sorted_wrt le (r_kmerge at_lib le xss)" by (simp add: at_lib_def)
  qed
  moreover have eq: "r_coalesce at_lib = coalesce_by" by (simp add: at_lib_def)
  have "coalesce_law at_lib" unfolding coalesce_law_def eq by simp
  moreover have "content_law at_lib at_content"
  proof -
    have "k \<in> fst ` set t \<longleftrightarrow> (\<exists>m. map_of t k = Some m)" for t :: "(rstring \<times> bytes seq_marked) list" and k
      using map_of_eq_None_iff [of t k] by auto
    then have entry: "Inr (k, m) \<in> set (r_range at_lib t r) \<longleftrightarrow> in_range r k \<and> at_content t k = Some m" for t k m r
      by (auto simp: at_lib_def at_content_def mem_keys_props(2))
    have "ascending (r_range at_lib t r)" for t r
      by (simp add: at_lib_def ascending_map mem_keys_props(1))
    then show ?thesis by (simp add: content_law_def entry) (simp add: at_lib_def at_content_def)
  qed
  ultimately show ?thesis by (simp add: rotbl_ok_def)
qed

section \<open>Values\<close>

text \<open>Text is stored in unary, ended by a two; it is enough for small examples.\<close>

fun opt_text :: "u64 option \<Rightarrow> rstring" where
  "opt_text None = [0, 0]"
| "opt_text (Some n) = [1, unat n]"

fun text_opt :: "nat \<Rightarrow> nat \<Rightarrow> u64 option" where
  "text_opt a n = (if a = 0 then None else Some (word_of_nat n))"

definition meta_text :: "kvmeta option \<Rightarrow> rstring option" where
  "meta_text m = (case m of None \<Rightarrow> Some [] | Some km \<Rightarrow> Some (opt_text (expire_at km) @ opt_text (proposed_at_ms km)))"

fun text_meta :: "rstring \<Rightarrow> kvmeta option option" where
  "text_meta [] = Some None"
| "text_meta [a, n, b, m] = Some (Some \<lparr>expire_at = text_opt a n, proposed_at_ms = text_opt b m\<rparr>)"
| "text_meta _ = None"

definition unary :: "rstring \<Rightarrow> bytes" where
  "unary s = concat (map (\<lambda>n. replicate n 1 @ [0]) s)"

fun read_unary :: "nat \<Rightarrow> bytes \<Rightarrow> (rstring \<times> bytes) option" where
  "read_unary n [] = None"
| "read_unary n (b # bs) =
    (if b = 1 then read_unary (n + 1) bs
     else if b = 0 then map_option (\<lambda>(s, rest). (n # s, rest)) (read_unary 0 bs)
     else Some ([], bs))"

definition pack :: "u8 \<times> rstring \<times> bytes \<Rightarrow> bytes option" where
  "pack p = Some (fst p # unary (fst (snd p)) @ 2 # snd (snd p))"

definition unpack :: "bytes \<Rightarrow> ((u8 \<times> rstring \<times> bytes) \<times> nat) option" where
  "unpack b =
    (case b of
       [] \<Rightarrow> None
     | v # rest \<Rightarrow> map_option (\<lambda>(s, val). ((v, s, val), length b)) (read_unary 0 rest))"

definition small_values :: value_lib where
  "small_values =
    \<lparr>json_of_meta = meta_text, meta_of_json = text_meta, bincode_encode = pack, bincode_decode = unpack\<rparr>"

lemma read_ones: "read_unary n (replicate k 1 @ bs) = read_unary (n + k) bs"
  by (induction k arbitrary: n) simp_all

lemma read_unary_text: "read_unary 0 (unary s @ 2 # val) = Some (s, val)"
  by (induction s) (simp_all add: unary_def read_ones)

lemma small_values_ok: "value_lib_ok small_values"
proof -
  have "text_meta j = Some m" if "meta_text m = Some j" for m j
  proof (cases m)
    case (Some km)
    with that show ?thesis
      by (cases km; cases "expire_at km"; cases "proposed_at_ms km") (auto simp: meta_text_def)
  qed (use that in \<open>simp add: meta_text_def\<close>)
  moreover have "unpack b = Some (p, length b)" if "pack p = Some b" for p b
    using that by (cases p) (auto simp: pack_def unpack_def read_unary_text)
  ultimately show ?thesis by (simp add: value_lib_ok_def small_values_def)
qed

type_synonym mem_store =
  "((rstring, meta_value) vtable, (expire_key, rstring) vtable, disk_table) store_lib"

definition mem_lib :: mem_store where
  "mem_lib = \<lparr>sl_user = vt_lib, sl_expire = vt_lib, sl_rotbl = at_lib, sl_value = small_values, sl_debug = True\<rparr>"

lemma mem_lib_ok: "libs_ok mem_lib vt_versions vt_versions at_content"
  by (simp add: libs_ok_def mem_lib_def vt_lib_ok at_lib_ok small_values_ok)

end
