(* ===== verification/Store_Steps.thy ===== *)
theory Store_Steps
  imports Mem_Store
begin

text \<open>
  The operations of the store as steps.  A compaction to disk reads the immutable data it began
  with while commits and freezes go on, and replaces only that part; a commit adds versions to the
  writable level.
\<close>

section \<open>A compaction to disk replaces the part it began with\<close>

text \<open>The new table on disk holds the entries of the stream.\<close>

definition db_holds :: "('r \<Rightarrow> rstring \<Rightarrow> bytes seq_marked option) \<Rightarrow> 'r db \<Rightarrow> rotbl_item list \<Rightarrow> bool" where
  "db_holds C db out \<longleftrightarrow> (\<forall>str raw. C (db_rotbl db) str = Some raw \<longleftrightarrow> Inr (str, raw) \<in> set out)"

lemma levels_get_texts:
  assumes "table_ok (sl_expire S) VE" "\<And>k. levels_inv VE lv_expire L k"
    and "\<And>k s m. m \<in> levels_versions VE lv_expire L k \<Longrightarrow> marked m = Normal s \<Longrightarrow> valid_str s"
  shows "strings_ok S L"
  unfolding strings_ok_def
proof (intro allI impI)
  fix k s
  assume "marked (levels_get (sl_expire S) lv_expire L k u64_max) = Normal s"
  moreover from this have "levels_get (sl_expire S) lv_expire L k u64_max \<in> levels_versions VE lv_expire L k"
    using levels_get_latest [OF assms(1,2), of k u64_max] by (auto simp: is_latest_def split: if_splits)
  ultimately show "valid_str s" using assms(3) by blast
qed

lemma stream_replaces:
  assumes "stream_shows S fu fe out" "db_holds C db out"
  shows "db_replaces (user_keys S) C db k (fu k)" "db_replaces (expire_keys S) C db e (fe e)" "db_wf S C (Some db)"
proof -
  have entry: "C (db_rotbl db) str = Some raw \<longleftrightarrow> raw \<in> entry_of out str"
    "C (db_rotbl db) str \<noteq> None \<longleftrightarrow> entry_of out str \<noteq> {}" for str raw
    using assms(2) by (auto simp: db_holds_def entry_of_def)
  show "db_replaces (user_keys S) C db k (fu k)" "db_replaces (expire_keys S) C db e (fe e)"
    using assms(1) unfolding stream_shows_def db_replaces_def Let_def entry user_keys_simps expire_keys_simps by blast+
  show "db_wf S C (Some db)"
    unfolding db_wf_def
  proof (intro allI impI, elim conjE)
    fix db' str raw
    assume "Some db = Some db'" "C (db_rotbl db') str = Some raw"
    then have raw: "raw \<in> entry_of out str" using entry(1) by auto
    then consider k where "str = encode_key user_key_prefix user_key_encode k"
      | e where "str = encode_key expire_key_prefix expire_key_encode e"
      using assms(1) unfolding stream_shows_def by blast
    then show "(\<exists>k m. str = encode_key user_key_prefix user_key_encode k \<and> seq_marked_decode (sl_value S) raw = Inr m) \<or>
      (\<exists>k m. str = encode_key expire_key_prefix expire_key_encode k \<and> seq_marked_string_decode (sl_value S) raw = Inr m)"
      using assms(1) raw unfolding stream_shows_def by cases blast+
  qed
qed

lemma remove_older_part:
  assumes "levels_wf (id_levels d)" "older_part d0 ys d" "id_levels d0 \<noteq> []"
  shows "(case id_last_level_index d0 of None \<Rightarrow> Inr (id_levels d)
    | Some i \<Rightarrow> remove_levels_upto i (id_levels d)) = Inr ys"
proof -
  obtain xs e where xs: "id_levels d0 = xs @ [e]" using assms(3) by (cases "id_levels d0" rule: rev_cases) auto
  then have L: "id_levels d = xs @ e # ys" using assms(2) by (simp add: older_part_def)
  then have "im_index (snd e) = fst e" using assms(1) by (simp add: levels_wf_append levels_wf_Cons)
  then show ?thesis
    using assms(1,2) remove_levels_upto_suffix [of xs e ys] by (simp add: older_part_def xs L newest_level_index_snoc)
qed

lemma part_stream:
  assumes libs: "libs_ok S VU VE C" and ok: "store_ok S VU VE C n lm"
    and part: "older_part d0 ys (lm_immutable lm)"
    and run: "compact_into_stream S d0 = Inr (sd, out)" "no_error out"
  shows "stream_shows S (\<lambda>k. data_shown (user_keys S) C d0 k u64_max) (\<lambda>e. data_shown (expire_keys S) C d0 e u64_max) out"
proof -
  note T = libs_okD [OF libs] and st = store_okD [OF ok]
  have uinv: "data_inv VU (user_keys S) C (lm_immutable lm) k" and einv: "data_inv VE (expire_keys S) C (lm_immutable lm) e" for k e
    using st(2) [of k] st(4) [of e] by (simp_all add: lm_inv_def)
  note U = older_part_inv [OF part uinv] and E = older_part_inv [OF part einv]
  have wf: "db_wf S C (id_persisted d0)" using st(7) part by (simp add: older_part_def lm_persisted_def)
  have texts: "strings_ok S (id_levels d0)"
  proof (rule levels_get_texts [OF T(2)])
    show "levels_inv VE lv_expire (id_levels d0) k" for k using data_inv_levels [OF E(1)] by simp
    show "valid_str s" if "m \<in> levels_versions VE lv_expire (id_levels d0) k" "marked m = Normal s" for k s m
      using that st(6) part by (auto simp: texts_ok_def lm_versions_def data_versions_def older_part_def)
  qed
  show ?thesis by (rule compact_stream [OF T(1-4) U(1) E(1) wf texts run])
qed

lemma replace_store:
  assumes libs: "libs_ok S VU VE C" and ok: "store_ok S VU VE C n lm"
    and part: "older_part d0 ys (lm_immutable lm)"
    and run: "compact_into_stream S d0 = Inr (sd, out)" "no_error out" "db_holds C db out"
    and c: "cp_immutable_data c = d0"
  obtains lm' where "replace_with_compacted lm c db = Inr lm'" "store_ok S VU VE C n lm'"
    "lm_writable lm' = lm_writable lm" "lm_persisted lm' = Some db" "id_levels (lm_immutable lm') = ys"
    "\<And>k s. upto (data_versions VU (user_keys S) C d0 k) s \<Longrightarrow>
      value_of (lm_shown (user_keys S) C lm' k s) = value_of (lm_shown (user_keys S) C lm k s)"
    "\<And>k s. upto (data_versions VE (expire_keys S) C d0 k) s \<Longrightarrow>
      value_of (lm_shown (expire_keys S) C lm' k s) = value_of (lm_shown (expire_keys S) C lm k s)"
proof -
  note T = libs_okD [OF libs] and st = store_okD [OF ok]
  have idx: "levels_wf (id_levels (lm_immutable lm))" using st(1) by (simp add: indexes_ok_def)
  note db = stream_replaces [OF part_stream [OF libs ok part run(1,2)] run(3)]
  define lm' where "lm' = lm\<lparr>lm_immutable := immutable_data_new ys (Some db)\<rparr>"
  note UR = replace_reads [OF T(5) part st(2) db(1) lm'_def] and ER = replace_reads [OF T(6) part st(4) db(2) lm'_def]
  have "id_levels d0 \<noteq> []" using run(1) by (auto simp: compact_into_stream_def)
  from remove_older_part [OF idx part this] have "replace_with_compacted lm c db = Inr lm'"
    by (simp add: replace_with_compacted_def c lm'_def)
  moreover have "store_ok S VU VE C n lm'"
  proof -
    have seq: "lm_curr_seq lm' = lm_curr_seq lm" by (simp add: lm_curr_seq_def lm'_def)
    have "levels_wf ys" "fst ` set ys \<subseteq> fst ` set (id_levels (lm_immutable lm))"
      using idx part by (auto simp: older_part_def levels_wf_append)
    then have "indexes_ok n lm'" using indexes_ok_replace [OF st(1)] by (simp add: lm'_def)
    moreover have "space_ok VU (user_keys S) C lm'" "space_ok VE (expire_keys S) C lm'" "texts_ok VE S C lm'"
      using UR(3) ER(3) upto_mono [OF st(3) UR(2) order_refl] upto_mono [OF st(5) ER(2) order_refl] subsetD [OF ER(2)] st(6)
      by (simp_all add: space_ok_def texts_ok_def seq) blast
    ultimately show ?thesis using db(3) by (simp add: store_ok_def lm'_def lm_persisted_def)
  qed
  ultimately show thesis using UR(1) ER(1) that [of lm'] by (simp add: lm'_def lm_persisted_def)
qed

section \<open>Commits\<close>

definition changes_of ::
  "(skey \<Rightarrow> 'k io_result) \<Rightarrow> (svalue \<Rightarrow> 'v io_result) \<Rightarrow> change_table option \<Rightarrow>
   (('k \<times> unit seq_marked) \<times> 'v option) list io_result" where
  "changes_of fk fv u =
    (case u of None \<Rightarrow> Inr [] | Some (n, entries) \<Rightarrow> rcollect (map (change_entry fk fv) entries))"

text \<open>The versions that changes add to a key.\<close>

definition added :: "(('k \<times> unit seq_marked) \<times> 'v option) list \<Rightarrow> 'k \<Rightarrow> 'v seq_marked set" where
  "added cs k = {version_of m v | m v. ((k, m), v) \<in> set cs}"

text \<open>
  What the view gives to a commit: versions that come after those of the store, up to the top_seq
  sequence number of the view.
\<close>

definition changes_ok ::
  "('t \<Rightarrow> 'k \<Rightarrow> 'v seq_marked set) \<Rightarrow> ('a, 'b, 't, 'k, 'v) space \<Rightarrow>
   ('r \<Rightarrow> rstring \<Rightarrow> bytes seq_marked option) \<Rightarrow> ('a, 'b, 'r) leveled_map \<Rightarrow> u64 \<Rightarrow>
   (('k \<times> unit seq_marked) \<times> 'v option) list \<Rightarrow> bool" where
  "changes_ok V P C lm top_seq cs \<longleftrightarrow>
    (\<forall>k. over (added cs k) (lm_versions V P C lm k) \<and> good (added cs k \<union> lm_versions V P C lm k) \<and>
      upto (added cs k) top_seq)"

lemma lm_inv_add:
  assumes "lm_inv V P C lm k" "lm_immutable lm' = lm_immutable lm"
    and "V (sp_sub P (lm_writable lm')) k = V (sp_sub P (lm_writable lm)) k \<union> N"
    and "over N (lm_versions V P C lm k)" "good (N \<union> lm_versions V P C lm k)"
  shows "lm_versions V P C lm' k = N \<union> lm_versions V P C lm k" "lm_inv V P C lm' k"
proof -
  show eq: "lm_versions V P C lm' k = N \<union> lm_versions V P C lm k"
    using assms(2,3) by (auto simp: lm_versions_def)
  show "lm_inv V P C lm' k"
    using assms unfolding lm_inv_def eq by (simp add: lm_versions_def)
qed

lemma commit_shape:
  assumes "changes_of key_into_user value_into_user u = Inr us" "changes_of key_into_expire value_into_expire e = Inr es"
  obtains lm' where "commit S lm top_seq u e = Inr lm'" "lm_immutable lm' = lm_immutable lm" "lm_curr_seq lm' = top_seq"
    "lv_kv (lm_writable lm') = (case u of None \<Rightarrow> lv_kv (lm_writable lm)
      | Some (n, x) \<Rightarrow> t_apply_changes (sl_user S) (lv_kv (lm_writable lm)) n us)"
    "lv_expire (lm_writable lm') = (case e of None \<Rightarrow> lv_expire (lm_writable lm)
      | Some (n, x) \<Rightarrow> t_apply_changes (sl_expire S) (lv_expire (lm_writable lm)) n es)"
proof -
  have "\<exists>lm'. commit S lm top_seq u e = Inr lm' \<and> lm_immutable lm' = lm_immutable lm \<and> lm_curr_seq lm' = top_seq \<and>
    lv_kv (lm_writable lm') = (case u of None \<Rightarrow> lv_kv (lm_writable lm)
      | Some (n, x) \<Rightarrow> t_apply_changes (sl_user S) (lv_kv (lm_writable lm)) n us) \<and>
    lv_expire (lm_writable lm') = (case e of None \<Rightarrow> lv_expire (lm_writable lm)
      | Some (n, x) \<Rightarrow> t_apply_changes (sl_expire S) (lv_expire (lm_writable lm)) n es)"
    using assms by (cases u; cases e) (auto simp: commit_def changes_of_def Let_def lm_curr_seq_def curr_seq_def update_seq_def)
  then show thesis using that by blast
qed

lemma commit_store:
  assumes libs: "libs_ok S VU VE C" and ok: "store_ok S VU VE C n lm"
    and cs: "changes_of key_into_user value_into_user u = Inr us" "changes_of key_into_expire value_into_expire e = Inr es"
    and new: "changes_ok VU (user_keys S) C lm top_seq us" "changes_ok VE (expire_keys S) C lm top_seq es"
    and seq_le: "lm_curr_seq lm \<le> top_seq" and texts: "\<forall>k m v. ((k, m), Some v) \<in> set es \<longrightarrow> valid_str v"
  obtains lm' where "commit S lm top_seq u e = Inr lm'" "store_ok S VU VE C n lm'"
    "lm_immutable lm' = lm_immutable lm" "lm_curr_seq lm' = top_seq"
    "\<And>k. lm_versions VU (user_keys S) C lm' k = added us k \<union> lm_versions VU (user_keys S) C lm k"
    "\<And>k. lm_versions VE (expire_keys S) C lm' k = added es k \<union> lm_versions VE (expire_keys S) C lm k"
proof -
  note T = libs_okD [OF libs] and st = store_okD [OF ok]
  obtain lm' where lm': "commit S lm top_seq u e = Inr lm'" "lm_immutable lm' = lm_immutable lm" "lm_curr_seq lm' = top_seq"
    and kv: "lv_kv (lm_writable lm') = (case u of None \<Rightarrow> lv_kv (lm_writable lm)
      | Some (n, x) \<Rightarrow> t_apply_changes (sl_user S) (lv_kv (lm_writable lm)) n us)"
    and exp: "lv_expire (lm_writable lm') = (case e of None \<Rightarrow> lv_expire (lm_writable lm)
      | Some (n, x) \<Rightarrow> t_apply_changes (sl_expire S) (lv_expire (lm_writable lm)) n es)"
    using commit_shape [OF cs] by metis
  have U: "VU (sp_sub (user_keys S) (lm_writable lm')) k = VU (sp_sub (user_keys S) (lm_writable lm)) k \<union> added us k" for k
    using cs(1) by (auto simp: kv added_def changes_of_def table_okD(8) [OF T(1)] split: option.splits)
  have E: "VE (sp_sub (expire_keys S) (lm_writable lm')) k = VE (sp_sub (expire_keys S) (lm_writable lm)) k \<union> added es k" for k
    using cs(2) by (auto simp: exp added_def changes_of_def table_okD(8) [OF T(2)] split: option.splits)
  note UV = lm_inv_add [where V = VU and P = "user_keys S", OF st(2) lm'(2) U] and
    EV = lm_inv_add [where V = VE and P = "expire_keys S", OF st(4) lm'(2) E]
  have uv: "lm_versions VU (user_keys S) C lm' k = added us k \<union> lm_versions VU (user_keys S) C lm k" "lm_inv VU (user_keys S) C lm' k" for k
    using UV new(1) by (simp_all add: changes_ok_def)
  have ev: "lm_versions VE (expire_keys S) C lm' k = added es k \<union> lm_versions VE (expire_keys S) C lm k" "lm_inv VE (expire_keys S) C lm' k" for k
    using EV new(2) by (simp_all add: changes_ok_def)
  have "space_ok VU (user_keys S) C lm'" "space_ok VE (expire_keys S) C lm'"
    using uv ev new seq_le upto_mono [OF st(3) order_refl seq_le] upto_mono [OF st(5) order_refl seq_le]
    by (auto simp: space_ok_def changes_ok_def lm'(3) upto_def)
  moreover have "indexes_ok n lm'"
    using st(1) seq_le order_trans by (fastforce simp: indexes_ok_def lm'(2,3))
  moreover have "texts_ok VE S C lm'"
  proof -
    have "valid_str s" if "m \<in> added es k" "marked m = Normal s" for k m s
    proof -
      obtain m' v where "m = version_of m' v" "((k, m'), v) \<in> set es" using \<open>m \<in> added es k\<close> by (auto simp: added_def)
      with texts that(2) show ?thesis by (cases v) auto
    qed
    with st(6) show ?thesis by (auto simp: texts_ok_def ev(1))
  qed
  moreover have "db_wf S C (lm_persisted lm')" using st(7) by (simp add: lm_persisted_def lm'(2))
  ultimately show thesis using that [OF lm'(1)] uv(1) ev(1) lm'(2,3) by (simp add: store_ok_def)
qed

end
