(* ===== verification/Snapshot.thy ===== *)
theory Snapshot
  imports Store "HOL-Library.Product_Lexorder" "HOL-Library.Option_ord"
begin

text \<open>
  Snapshots of the state machine: the files of a snapshot directory (\<open>snapshot_config.rs\<close>,
  \<open>snapshot_loader.rs\<close>), the writer (\<open>writer_v003.rs\<close>, \<open>db_builder.rs\<close>), building a snapshot while
  the store is in use, and installing one (\<open>meta_raft_state_machine\<close>, \<open>sm_v003.rs\<close>).

  The file system, the builder of tables on disk and JSON are library code: \<open>snapshot_lib\<close>.  The
  type \<open>'f\<close> is the state of the file system; operations take the current time where the source
  reads the clock.
\<close>

record ('f, 'w, 'r) snapshot_lib =
  json_of_sys :: "sys_data \<Rightarrow> rstring option"
  sys_of_json :: "rstring \<Rightarrow> sys_data option"
  builder_new :: "'f \<Rightarrow> rstring \<Rightarrow> rstring \<Rightarrow> ('w \<times> 'f) io_result"
  builder_storage_path :: "'w \<Rightarrow> rstring"
  builder_rel_path :: "'w \<Rightarrow> rstring"
  builder_append :: "'w \<Rightarrow> rstring \<Rightarrow> bytes seq_marked \<Rightarrow> 'w io_result"
  builder_commit :: "'f \<Rightarrow> 'w \<Rightarrow> rstring \<Rightarrow> ('r \<times> 'f) io_result"
  rotbl_open :: "'f \<Rightarrow> rstring \<Rightarrow> rstring \<Rightarrow> 'r io_result"
  rotbl_user_data :: "'r \<Rightarrow> rstring"
  fs_create_dir_all :: "'f \<Rightarrow> rstring \<Rightarrow> 'f io_result"
  fs_rename :: "'f \<Rightarrow> rstring \<Rightarrow> rstring \<Rightarrow> 'f io_result"
  fs_read_dir :: "'f \<Rightarrow> rstring \<Rightarrow> rstring option list io_result"
  fs_remove_file :: "'f \<Rightarrow> rstring \<Rightarrow> 'f io_result"

section \<open>Paths\<close>

record snapshot_config =
  sc_data_version :: rstring
  sc_raft_dir :: rstring

definition snapshot_dir :: "snapshot_config \<Rightarrow> rstring" where
  "snapshot_dir c = sc_raft_dir c @ ascii ''/df_meta/'' @ sc_data_version c @ ascii ''/snapshot''"

definition snapshot_fn :: "rstring \<Rightarrow> rstring" where
  "snapshot_fn snapshot_id = snapshot_id @ ascii ''.snap''"

definition snapshot_path :: "snapshot_config \<Rightarrow> rstring \<Rightarrow> rstring" where
  "snapshot_path c snapshot_id = snapshot_dir c @ ascii ''/'' @ snapshot_fn snapshot_id"

definition temp_snapshot_id :: "nat \<Rightarrow> rstring" where
  "temp_snapshot_id ts = ascii ''0.snap'' @ ascii ''-'' @ show_nat ts"

definition ensure_snapshot_dir :: "('f, 'w, 'r) snapshot_lib \<Rightarrow> snapshot_config \<Rightarrow> 'f \<Rightarrow> (rstring \<times> 'f) io_result" where
  "ensure_snapshot_dir L c f = rmap (\<lambda>f'. (snapshot_dir c, f')) (fs_create_dir_all L f (snapshot_dir c))"

definition move_to_final_path ::
  "('f, 'w, 'r) snapshot_lib \<Rightarrow> snapshot_config \<Rightarrow> 'f \<Rightarrow> rstring \<Rightarrow> rstring \<Rightarrow> ((rstring \<times> rstring) \<times> 'f) io_result" where
  "move_to_final_path L c f temp_path snapshot_id =
    (let storage_path = snapshot_dir c; rel_path = snapshot_fn snapshot_id;
         final_path = storage_path @ ascii ''/'' @ rel_path
     in rmap (\<lambda>f'. ((storage_path, rel_path), f')) (fs_rename L f temp_path final_path))"

section \<open>Opening a table\<close>

definition db_new ::
  "('f, 'w, 'r) snapshot_lib \<Rightarrow> rstring \<Rightarrow> rstring \<Rightarrow> rstring \<Rightarrow> 'r \<Rightarrow> 'r db io_result" where
  "db_new L storage_path rel_path snapshot_id r =
    (case sys_of_json L (rotbl_user_data L r) of
       None \<Rightarrow> Inl Panicked
     | Some sd \<Rightarrow>
         Inr \<lparr>db_storage_path = storage_path, db_rel_path = rel_path,
              db_meta = \<lparr>meta_last_log_id = last_applied sd, meta_last_membership = last_membership sd,
                meta_snapshot_id = snapshot_id\<rparr>,
              db_sys_data = sd, db_rotbl = r\<rparr>)"

definition db_path :: "'r db \<Rightarrow> rstring" where
  "db_path db = db_storage_path db @ ascii ''/'' @ db_rel_path db"

definition open_snapshot ::
  "('f, 'w, 'r) snapshot_lib \<Rightarrow> 'f \<Rightarrow> rstring \<Rightarrow> rstring \<Rightarrow> rstring \<Rightarrow> 'r db io_result" where
  "open_snapshot L f storage_path rel_path snapshot_id =
    rbind (rotbl_open L f storage_path rel_path) (db_new L storage_path rel_path snapshot_id)"

section \<open>Writing a table\<close>

definition db_builder_commit ::
  "('f, 'w, 'r) snapshot_lib \<Rightarrow> 'f \<Rightarrow> 'w \<Rightarrow> sys_data \<Rightarrow> ((rstring \<times> 'r) \<times> 'f) io_result" where
  "db_builder_commit L f w sys_data =
    rbind (ok_or InvalidData (json_of_sys L sys_data)) (\<lambda>meta.
    rbind (builder_commit L f w meta) (\<lambda>(r, f'). Inr ((builder_rel_path L w, r), f')))"

definition commit_to_snapshot_store ::
  "('f, 'w, 'r) snapshot_lib \<Rightarrow> snapshot_config \<Rightarrow> 'f \<Rightarrow> 'w \<Rightarrow> meta_snapshot_id \<Rightarrow> sys_data \<Rightarrow> ('r db \<times> 'f) io_result" where
  "commit_to_snapshot_store L c f w snapshot_id sys_data =
    (let storage_path = builder_storage_path L w in
     rbind (db_builder_commit L f w sys_data) (\<lambda>((current_rel_path, r), f1).
     rbind (move_to_final_path L c f1 (storage_path @ ascii ''/'' @ current_rel_path)
         (snapshot_id_display snapshot_id)) (\<lambda>((dir, rel_path), f2).
     rbind (open_snapshot L f2 storage_path rel_path (snapshot_id_display snapshot_id)) (\<lambda>db.
       Inr (db, f2)))))"

datatype write_entry = Data "rstring \<times> bytes seq_marked" | Finish "meta_snapshot_id \<times> sys_data"

definition writer_new ::
  "('f, 'w, 'r) snapshot_lib \<Rightarrow> snapshot_config \<Rightarrow> 'f \<Rightarrow> nat \<Rightarrow> ('w \<times> 'f) io_result" where
  "writer_new L c f ts = builder_new L f (snapshot_dir c) (temp_snapshot_id ts)"

text \<open>The argument list is what the channel delivers until it is closed.\<close>

fun write_kv ::
  "('f, 'w, 'r) snapshot_lib \<Rightarrow> snapshot_config \<Rightarrow> 'f \<Rightarrow> 'w \<Rightarrow> write_entry list \<Rightarrow> ('r db \<times> 'f) io_result" where
  "write_kv L c f w [] = Inl UnexpectedEof"
| "write_kv L c f w (Data (k, v) # rest) = rbind (builder_append L w k v) (\<lambda>w'. write_kv L c f w' rest)"
| "write_kv L c f w (Finish (snapshot_id, sys_data) # rest) = commit_to_snapshot_store L c f w snapshot_id sys_data"

section \<open>Loading and cleaning\<close>

definition log_id_key :: "log_id \<Rightarrow> u64 \<times> u64 \<times> u64" where
  "log_id_key l = (li_term l, li_node_id l, li_index l)"

definition snapshot_id_key :: "meta_snapshot_id \<Rightarrow> (u64 \<times> u64 \<times> u64) option \<times> u64 \<times> u64 option" where
  "snapshot_id_key i = (map_option log_id_key (snap_last_applied i), uniq i, key_num i)"

definition extract_snapshot_id_from_fn :: "rstring \<Rightarrow> rstring option" where
  "extract_snapshot_id_from_fn filename = map_option rev (strip_prefix (rev (ascii ''.snap'')) (rev filename))"

text \<open>The loop over the entries of the directory; \<open>None\<close> is a name that is not UTF-8.\<close>

fun scan_names :: "rstring option list \<Rightarrow> meta_snapshot_id list \<times> rstring list" where
  "scan_names [] = ([], [])"
| "scan_names (None # rest) = scan_names rest"
| "scan_names (Some file_name # rest) =
    (let (ids, invalid) = scan_names rest in
     case extract_snapshot_id_from_fn file_name of
       None \<Rightarrow> (ids, invalid)
     | Some snapshot_id_str \<Rightarrow>
         (case snapshot_id_from_str snapshot_id_str of
            None \<Rightarrow> (ids, file_name # invalid)
          | Some i \<Rightarrow> (i # ids, invalid)))"

definition load_snapshot_ids ::
  "('f, 'w, 'r) snapshot_lib \<Rightarrow> snapshot_config \<Rightarrow> 'f \<Rightarrow> ((meta_snapshot_id list \<times> rstring list) \<times> 'f) io_result" where
  "load_snapshot_ids L c f =
    rbind (ensure_snapshot_dir L c f) (\<lambda>(dir, f1).
    rbind (fs_read_dir L f1 dir) (\<lambda>names.
      let (snapshot_ids, invalid_files) = scan_names names
      in Inr ((sort_key snapshot_id_key snapshot_ids, sort invalid_files), f1)))"

definition load_snapshot ::
  "('f, 'w, 'r) snapshot_lib \<Rightarrow> snapshot_config \<Rightarrow> 'f \<Rightarrow> rstring \<Rightarrow> ('r db \<times> 'f) io_result" where
  "load_snapshot L c f snapshot_id =
    rbind (ensure_snapshot_dir L c f) (\<lambda>(dir, f1).
    rbind (open_snapshot L f1 (snapshot_dir c) (snapshot_fn snapshot_id) snapshot_id) (\<lambda>db. Inr (db, f1)))"

definition load_last_snapshot ::
  "('f, 'w, 'r) snapshot_lib \<Rightarrow> snapshot_config \<Rightarrow> 'f \<Rightarrow> ((meta_snapshot_id \<times> 'r db) option \<times> 'f) io_result" where
  "load_last_snapshot L c f =
    rbind (load_snapshot_ids L c f) (\<lambda>((snapshot_ids, invalid), f1).
      if snapshot_ids = [] then Inr (None, f1)
      else
        let i = last snapshot_ids
        in rbind (load_snapshot L c f1 (snapshot_id_display i)) (\<lambda>(data, f2). Inr (Some (i, data), f2)))"

fun remove_files :: "('f, 'w, 'r) snapshot_lib \<Rightarrow> 'f \<Rightarrow> rstring list \<Rightarrow> 'f io_result" where
  "remove_files L f [] = Inr f"
| "remove_files L f (path # rest) = rbind (fs_remove_file L f path) (\<lambda>f'. remove_files L f' rest)"

definition clean_old_snapshots ::
  "('f, 'w, 'r) snapshot_lib \<Rightarrow> snapshot_config \<Rightarrow> 'f \<Rightarrow> 'f io_result" where
  "clean_old_snapshots L c f =
    rbind (ensure_snapshot_dir L c f) (\<lambda>(dir, f1).
    rbind (load_snapshot_ids L c f1) (\<lambda>((snapshot_ids, invalid), f2).
      let l = length invalid;
          invalid_files = (if 2 < l then take (l - 2) invalid else []) in
      rbind (remove_files L f2 (map (\<lambda>name. dir @ ascii ''/'' @ name) invalid_files)) (\<lambda>f3.
        let n = 3 in
        if length snapshot_ids \<le> n then Inr f3
        else remove_files L f3
          (map (\<lambda>i. snapshot_path c (snapshot_id_display i)) (take (length snapshot_ids - n) snapshot_ids)))))"

section \<open>Building a snapshot\<close>

text \<open>The first four bytes of a key; cutting in the middle of a character panics.\<close>

definition key_space_of :: "rstring \<Rightarrow> rstring io_result" where
  "key_space_of key =
    (case filter (\<lambda>j. utf8_len (take j key) = 4) [0..<min 5 (length key + 1)] of
       [] \<Rightarrow> Inl Panicked
     | j # _ \<Rightarrow> Inr (take j key))"

definition count_key :: "rstring \<Rightarrow> (rstring \<rightharpoonup> u64) \<Rightarrow> (rstring \<rightharpoonup> u64)" where
  "count_key p counts = counts(p \<mapsto> (case counts p of Some n \<Rightarrow> n + 1 | None \<Rightarrow> 1))"

text \<open>What \<open>do_build_snapshot\<close> sends to the writer for the entries of the stream, and the counts.\<close>

fun send_entries :: "rotbl_item list \<Rightarrow> (rstring \<rightharpoonup> u64) \<Rightarrow> (write_entry list \<times> (rstring \<rightharpoonup> u64)) io_result" where
  "send_entries [] counts = Inr ([], counts)"
| "send_entries (Inl e # rest) counts = Inl e"
| "send_entries (Inr (k, v) # rest) counts =
    rbind (key_space_of k) (\<lambda>p.
    rbind (send_entries rest (count_key p counts)) (\<lambda>(es, counts').
      Inr (Data (k, v) # es, counts')))"

text \<open>
  \<open>do_build_snapshot\<close> up to the stream: with the writer's permit the writable level is frozen, then
  the compactor is made.  Other writers may go on from here.
\<close>

definition build_snapshot_start ::
  "('a, 'b, 'r) store_lib \<Rightarrow> u64 \<Rightarrow> ('a, 'b, 'r) leveled_map \<Rightarrow> u64 \<Rightarrow>
   (('a, 'b, 'r) leveled_map \<times> u64 \<times> ('a, 'b, 'r) compactor \<times> meta_snapshot_id \<times> sys_data \<times> rotbl_item list) io_result" where
  "build_snapshot_start S n lm epoch_millis =
    rbind (do_freeze_writable S n lm) (\<lambda>(lm1, n1).
      let compactor = new_compactor lm1 in
      rbind (compact_into_stream S (cp_immutable_data compactor)) (\<lambda>(sys_data, strm).
        Inr (lm1, n1, compactor, snapshot_id_new (last_applied sys_data) epoch_millis, sys_data, strm)))"

definition build_snapshot_write ::
  "('f, 'w, 'r) snapshot_lib \<Rightarrow> snapshot_config \<Rightarrow> 'f \<Rightarrow> nat \<Rightarrow> meta_snapshot_id \<Rightarrow> sys_data \<Rightarrow> rotbl_item list \<Rightarrow>
   ('r db \<times> 'f) io_result" where
  "build_snapshot_write L c f ts snapshot_id sys_data strm =
    rbind (ensure_snapshot_dir L c f) (\<lambda>(dir, f1).
    rbind (writer_new L c f1 ts) (\<lambda>(w, f2).
    rbind (send_entries strm Map.empty) (\<lambda>(entries, counts).
      write_kv L c f2 w (entries @ [Finish (snapshot_id, sys_data\<lparr>key_counts := counts\<rparr>)]))))"

definition do_build_snapshot ::
  "('a, 'b, 'r) store_lib \<Rightarrow> ('f, 'w, 'r) snapshot_lib \<Rightarrow> snapshot_config \<Rightarrow> 'f \<Rightarrow> u64 \<Rightarrow> ('a, 'b, 'r) leveled_map \<Rightarrow>
   u64 \<Rightarrow> nat \<Rightarrow> ((snapshot_meta \<times> 'r db) \<times> ('a, 'b, 'r) leveled_map \<times> u64 \<times> 'f) io_result" where
  "do_build_snapshot S L c f n lm epoch_millis ts =
    rbind (build_snapshot_start S n lm epoch_millis) (\<lambda>(lm1, n1, compactor, snapshot_id, sys_data, strm).
      let snapshot_meta =
        \<lparr>meta_last_log_id = last_applied sys_data, meta_last_membership = last_membership sys_data,
         meta_snapshot_id = snapshot_id_display snapshot_id\<rparr> in
      rbind (build_snapshot_write L c f ts snapshot_id sys_data strm) (\<lambda>(db, f1).
      rbind (replace_with_compacted lm1 compactor db) (\<lambda>lm2.
      rbind (clean_old_snapshots L c f1) (\<lambda>f2.
        Inr ((snapshot_meta, db), lm2, n1, f2)))))"

section \<open>Installing a snapshot\<close>

definition install_snapshot_v003 :: "('a, 'b, 'r) store_lib \<Rightarrow> 'r db \<Rightarrow> ('a, 'b, 'r) leveled_map" where
  "install_snapshot_v003 S db =
    lm_with_sys_data
      \<lparr>lm_writable = level_default (sl_user S) (sl_expire S), lm_immutable = immutable_data_new [] (Some db)\<rparr>
      (\<lambda>s. db_sys_data db)"

definition do_install_snapshot ::
  "('a, 'b, 'r) store_lib \<Rightarrow> ('a, 'b, 'r) leveled_map \<Rightarrow> 'r db \<Rightarrow> ('a, 'b, 'r) leveled_map" where
  "do_install_snapshot S lm db =
    (let my_last_applied = last_applied (lv_sys_data (lm_writable lm)) in
     if my_last_applied \<noteq> None \<and>
        map_option log_id_key (last_applied (db_sys_data db)) \<le> map_option log_id_key my_last_applied
     then lm
     else install_snapshot_v003 S db)"

definition install_snapshot ::
  "('a, 'b, 'r) store_lib \<Rightarrow> ('f, 'w, 'r) snapshot_lib \<Rightarrow> snapshot_config \<Rightarrow> 'f \<Rightarrow> ('a, 'b, 'r) leveled_map \<Rightarrow>
   snapshot_meta \<Rightarrow> 'r db \<Rightarrow> (('a, 'b, 'r) leveled_map \<times> 'f) io_result" where
  "install_snapshot S L c f lm meta snapshot =
    rbind (move_to_final_path L c f (db_path snapshot) (meta_snapshot_id meta)) (\<lambda>((storage_path, rel_path), f1).
    rbind (open_snapshot L f1 storage_path rel_path (meta_snapshot_id meta)) (\<lambda>db.
      Inr (do_install_snapshot S lm db, f1)))"

end
