(* ===== verification/Snapshot_Correct.thy ===== *)
theory Snapshot_Correct
  imports Store_Steps Snapshot
begin

text \<open>
  What building, cleaning and installing snapshots does.  \<open>snapshot_ok L C B F\<close> is the documented
  behaviour of the libraries: \<open>B w\<close> are the entries appended to a builder, and \<open>F f p\<close> is the content
  and the user data of the table in the file with path \<open>p\<close>.
\<close>

section \<open>Documented behaviour of files and builders\<close>

type_synonym 'f files = "'f \<Rightarrow> rstring \<Rightarrow> ((rstring \<Rightarrow> bytes seq_marked option) \<times> rstring) option"

definition builder_law ::
  "('f, 'w, 'r) snapshot_lib \<Rightarrow> ('w \<Rightarrow> (rstring \<times> bytes seq_marked) list) \<Rightarrow> 'f files \<Rightarrow> bool" where
  "builder_law L B F \<longleftrightarrow>
    (\<forall>f d p w f'. builder_new L f d p = Inr (w, f') \<longrightarrow>
      B w = [] \<and> builder_storage_path L w = d \<and> builder_rel_path L w = p \<and> F f' = F f) \<and>
    (\<forall>w k v w'. builder_append L w k v = Inr w' \<longrightarrow>
      B w' = B w @ [(k, v)] \<and> builder_storage_path L w' = builder_storage_path L w \<and>
      builder_rel_path L w' = builder_rel_path L w) \<and>
    (\<forall>f w meta r f'. builder_commit L f w meta = Inr (r, f') \<and> sorted_wrt (<) (map fst (B w)) \<longrightarrow>
      F f' = (F f)(builder_storage_path L w @ ascii ''/'' @ builder_rel_path L w \<mapsto> (map_of (B w), meta)))"

definition files_law ::
  "('f, 'w, 'r) snapshot_lib \<Rightarrow> ('r \<Rightarrow> rstring \<Rightarrow> bytes seq_marked option) \<Rightarrow> 'f files \<Rightarrow> bool" where
  "files_law L C F \<longleftrightarrow>
    (\<forall>f d p r. rotbl_open L f d p = Inr r \<longrightarrow> F f (d @ ascii ''/'' @ p) = Some (C r, rotbl_user_data L r)) \<and>
    (\<forall>f d f'. fs_create_dir_all L f d = Inr f' \<longrightarrow> F f' = F f) \<and>
    (\<forall>f a b f'. fs_rename L f a b = Inr f' \<longrightarrow> F f' = (\<lambda>p. if p = b then F f a else if p = a then None else F f p)) \<and>
    (\<forall>f p f'. fs_remove_file L f p = Inr f' \<longrightarrow> F f' = (F f)(p := None))"

definition snapshot_ok ::
  "('f, 'w, 'r) snapshot_lib \<Rightarrow> ('r \<Rightarrow> rstring \<Rightarrow> bytes seq_marked option) \<Rightarrow>
   ('w \<Rightarrow> (rstring \<times> bytes seq_marked) list) \<Rightarrow> 'f files \<Rightarrow> bool" where
  "snapshot_ok L C B F \<longleftrightarrow>
    (\<forall>sd j. json_of_sys L sd = Some j \<longrightarrow> sys_of_json L j = Some sd) \<and> builder_law L B F \<and> files_law L C F"

lemma snapshot_okD:
  assumes "snapshot_ok L C B F"
  shows "json_of_sys L sd = Some j \<Longrightarrow> sys_of_json L j = Some sd"
    "builder_new L f d p = Inr (w, f') \<Longrightarrow>
      B w = [] \<and> builder_storage_path L w = d \<and> builder_rel_path L w = p \<and> F f' = F f"
    "builder_append L w k v = Inr w' \<Longrightarrow>
      B w' = B w @ [(k, v)] \<and> builder_storage_path L w' = builder_storage_path L w \<and>
      builder_rel_path L w' = builder_rel_path L w"
    "builder_commit L f w meta = Inr (r, f') \<Longrightarrow> sorted_wrt (<) (map fst (B w)) \<Longrightarrow>
      F f' = (F f)(builder_storage_path L w @ ascii ''/'' @ builder_rel_path L w \<mapsto> (map_of (B w), meta))"
    "rotbl_open L f d p = Inr q \<Longrightarrow> F f (d @ ascii ''/'' @ p) = Some (C q, rotbl_user_data L q)"
    "fs_create_dir_all L f d = Inr f' \<Longrightarrow> F f' = F f"
    "fs_rename L f a b = Inr f' \<Longrightarrow> F f' = (\<lambda>p. if p = b then F f a else if p = a then None else F f p)"
    "fs_remove_file L f p = Inr f' \<Longrightarrow> F f' = (F f)(p := None)"
proof -
  have laws: "\<forall>sd j. json_of_sys L sd = Some j \<longrightarrow> sys_of_json L j = Some sd" "builder_law L B F" "files_law L C F"
    using assms by (simp_all add: snapshot_ok_def)
  note b = laws(2) [unfolded builder_law_def] and fl = laws(3) [unfolded files_law_def]
  show "json_of_sys L sd = Some j \<Longrightarrow> sys_of_json L j = Some sd" using laws(1) by blast
  show "builder_new L f d p = Inr (w, f') \<Longrightarrow>
      B w = [] \<and> builder_storage_path L w = d \<and> builder_rel_path L w = p \<and> F f' = F f"
    using b [THEN conjunct1] by blast
  show "builder_append L w k v = Inr w' \<Longrightarrow>
      B w' = B w @ [(k, v)] \<and> builder_storage_path L w' = builder_storage_path L w \<and>
      builder_rel_path L w' = builder_rel_path L w"
    using b [THEN conjunct2, THEN conjunct1] by blast
  show "builder_commit L f w meta = Inr (r, f') \<Longrightarrow> sorted_wrt (<) (map fst (B w)) \<Longrightarrow>
      F f' = (F f)(builder_storage_path L w @ ascii ''/'' @ builder_rel_path L w \<mapsto> (map_of (B w), meta))"
    using b [THEN conjunct2, THEN conjunct2] by blast
  show "rotbl_open L f d p = Inr q \<Longrightarrow> F f (d @ ascii ''/'' @ p) = Some (C q, rotbl_user_data L q)"
    using fl [THEN conjunct1] by blast
  show "fs_create_dir_all L f d = Inr f' \<Longrightarrow> F f' = F f"
    using fl [THEN conjunct2, THEN conjunct1] by blast
  show "fs_rename L f a b = Inr f' \<Longrightarrow> F f' = (\<lambda>p. if p = b then F f a else if p = a then None else F f p)"
    using fl [THEN conjunct2, THEN conjunct2, THEN conjunct1] by blast
  show "fs_remove_file L f p = Inr f' \<Longrightarrow> F f' = (F f)(p := None)"
    using fl [THEN conjunct2, THEN conjunct2, THEN conjunct2] by blast
qed

section \<open>The writer\<close>

lemma open_snapshot_props:
  assumes "snapshot_ok L C B F" "open_snapshot L f d p i = Inr db" "F f (d @ ascii ''/'' @ p) = Some (content, meta)"
    and "sys_of_json L meta = Some sd"
  shows "C (db_rotbl db) = content" "db_sys_data db = sd" "db_storage_path db = d" "db_rel_path db = p"
    "db_meta db = \<lparr>meta_last_log_id = last_applied sd, meta_last_membership = last_membership sd, meta_snapshot_id = i\<rparr>"
proof -
  obtain r where r: "rotbl_open L f d p = Inr r" "db_new L d p i r = Inr db"
    using assms(2) by (auto simp: open_snapshot_def)
  then have "C r = content" "rotbl_user_data L r = meta" using snapshot_okD(5) [OF assms(1) r(1)] assms(3) by auto
  with r(2) assms(4) show "C (db_rotbl db) = content" "db_sys_data db = sd" "db_storage_path db = d" "db_rel_path db = p"
    "db_meta db = \<lparr>meta_last_log_id = last_applied sd, meta_last_membership = last_membership sd, meta_snapshot_id = i\<rparr>"
    by (auto simp: db_new_def)
qed

lemma write_kv_props:
  assumes "snapshot_ok L C B F" "sorted_wrt (<) (map fst (B w @ es))" "builder_storage_path L w = snapshot_dir c"
    and "write_kv L c f w (map Data es @ [Finish (i, sd)]) = Inr (db, f')"
  shows "C (db_rotbl db) = map_of (B w @ es)" "db_sys_data db = sd"
    "db_meta db = \<lparr>meta_last_log_id = last_applied sd, meta_last_membership = last_membership sd,
      meta_snapshot_id = snapshot_id_display i\<rparr>"
    "db_path db = snapshot_path c (snapshot_id_display i)"
    "\<exists>j. F f' (db_path db) = Some (C (db_rotbl db), j) \<and> sys_of_json L j = Some sd"
proof -
  have "C (db_rotbl db) = map_of (B w @ es) \<and> db_sys_data db = sd \<and>
    db_meta db = \<lparr>meta_last_log_id = last_applied sd, meta_last_membership = last_membership sd,
      meta_snapshot_id = snapshot_id_display i\<rparr> \<and>
    db_path db = snapshot_path c (snapshot_id_display i) \<and>
    (\<exists>j. F f' (db_path db) = Some (C (db_rotbl db), j) \<and> sys_of_json L j = Some sd)"
    using assms(2-4)
  proof (induction es arbitrary: w)
    case Nil
    let ?id = "snapshot_id_display i"
    let ?temp = "builder_storage_path L w @ ascii ''/'' @ builder_rel_path L w"
    obtain meta r f1 f2 where run: "json_of_sys L sd = Some meta" "builder_commit L f w meta = Inr (r, f1)"
      "fs_rename L f1 ?temp (snapshot_path c ?id) = Inr f2"
      "open_snapshot L f2 (snapshot_dir c) (snapshot_fn ?id) ?id = Inr db" "f' = f2"
      using Nil.prems(2,3)
      by (auto simp: commit_to_snapshot_store_def db_builder_commit_def move_to_final_path_def snapshot_path_def
          ok_or_def rmap_Inr_iff Let_def split: option.splits)
    have "F f1 ?temp = Some (map_of (B w), meta)"
      using snapshot_okD(4) [OF assms(1) run(2)] Nil.prems(1) by simp
    then have F: "F f2 (snapshot_dir c @ ascii ''/'' @ snapshot_fn ?id) = Some (map_of (B w), meta)"
      using snapshot_okD(7) [OF assms(1) run(3)] by (simp add: snapshot_path_def)
    note j = snapshot_okD(1) [OF assms(1) run(1)]
    from open_snapshot_props [OF assms(1) run(4) F j] show ?case
      using F j run(5) by (simp add: db_path_def snapshot_path_def)
  next
    case (Cons e es)
    obtain w' where w': "builder_append L w (fst e) (snd e) = Inr w'" "write_kv L c f w' (map Data es @ [Finish (i, sd)]) = Inr (db, f')"
      using Cons.prems(3) by (cases e) auto
    have a: "B w' = B w @ [e]" "builder_storage_path L w' = snapshot_dir c"
      using snapshot_okD(3) [OF assms(1) w'(1)] Cons.prems(2) by simp_all
    have "B w' @ es = B w @ e # es" using a(1) by simp
    with Cons.IH [OF _ a(2) w'(2)] Cons.prems(1) show ?case by metis
  qed
  then show "C (db_rotbl db) = map_of (B w @ es)" "db_sys_data db = sd"
    "db_meta db = \<lparr>meta_last_log_id = last_applied sd, meta_last_membership = last_membership sd,
      meta_snapshot_id = snapshot_id_display i\<rparr>"
    "db_path db = snapshot_path c (snapshot_id_display i)"
    "\<exists>j. F f' (db_path db) = Some (C (db_rotbl db), j) \<and> sys_of_json L j = Some sd" by blast+
qed

section \<open>The entries of a snapshot\<close>

lemma send_entries_props:
  "send_entries strm counts = Inr (es, counts') \<Longrightarrow> no_error strm \<and> es = map Data (ok_items strm)"
proof (induction strm counts arbitrary: es counts' rule: send_entries.induct)
  case (3 k v rest counts)
  then show ?case by (auto simp: no_error_def)
qed (auto simp: no_error_def)

lemma send_entries_counts:
  assumes "send_entries strm counts = Inr (es, counts')"
  shows "(case counts' p of None \<Rightarrow> 0 | Some n \<Rightarrow> n) = (case counts p of None \<Rightarrow> 0 | Some n \<Rightarrow> n) +
    word_of_nat (length (filter (\<lambda>e. key_space_of (fst e) = Inr p) (ok_items strm)))"
  using assms
proof (induction strm counts arbitrary: es counts' rule: send_entries.induct)
  case (3 k v rest counts)
  obtain q es1 where q: "key_space_of k = Inr q" "send_entries rest (count_key q counts) = Inr (es1, counts')"
    using 3(2) by auto
  from 3(1) [OF this] q(1) show ?case
    by (cases "q = p") (auto simp: count_key_def split: option.splits)
qed simp_all

text \<open>A key with a name space is never cut in the middle of a character.\<close>

lemma key_space_prefix:
  assumes "length pre = 4" "\<forall>ch \<in> set pre. ch < 128"
  shows "key_space_of (encode_key pre enc k) = Inr pre"
proof -
  have w: "utf8_len p = length p" if "\<forall>ch \<in> set p. ch < 128" for p
    using that by (induction p) (auto simp: utf8_len_def utf8_width_def)
  have "utf8_len (take j (pre @ rest)) = j" if "j \<le> 4" for j rest
    using that assms w [of "take j pre"] by (auto dest: in_set_takeD)
  then have "filter (\<lambda>j. utf8_len (take j (pre @ rest)) = 4) [0..<5] = filter (\<lambda>j. j = 4) [0..<5]" for rest
    by (intro filter_cong) auto
  then have "filter (\<lambda>j. utf8_len (take j (pre @ rest)) = 4) [0..<5] = [4]" for rest
    by (simp add: upt_rec)
  moreover have "min 5 (length (encode_key pre enc k) + 1) = 5" using assms(1) by (simp add: encode_key_def)
  ultimately show ?thesis using assms(1) by (simp add: key_space_of_def encode_key_def)
qed

lemma build_write_holds:
  assumes "snapshot_ok L C B F" "no_error strm \<Longrightarrow> ascending strm" "build_snapshot_write L c f ts i sd strm = Inr (db, f')"
  obtains counts where "no_error strm" "db_holds C db strm" "db_sys_data db = sd\<lparr>key_counts := counts\<rparr>"
    "db_meta db = \<lparr>meta_last_log_id = last_applied sd, meta_last_membership = last_membership sd,
      meta_snapshot_id = snapshot_id_display i\<rparr>"
    "\<And>p. (case counts p of None \<Rightarrow> 0 | Some n \<Rightarrow> n) =
      word_of_nat (length (filter (\<lambda>e. key_space_of (fst e) = Inr p) (ok_items strm)))"
proof -
  obtain d f1 w f2 es counts where run: "writer_new L c f1 ts = Inr (w, f2)" "send_entries strm Map.empty = Inr (es, counts)"
    "write_kv L c f2 w (es @ [Finish (i, sd\<lparr>key_counts := counts\<rparr>)]) = Inr (db, f')"
    using assms(3) by (auto simp: build_snapshot_write_def)
  have w: "B w = []" "builder_storage_path L w = snapshot_dir c"
    using snapshot_okD(2) [OF assms(1)] run(1) by (auto simp: writer_new_def)
  have es: "no_error strm" "es = map Data (ok_items strm)" using send_entries_props [OF run(2)] by simp_all
  have sorted: "sorted_wrt (<) (map fst (ok_items strm))" using assms(2) es(1) by (simp add: ascending_def)
  note db = write_kv_props [OF assms(1) _ w(2) run(3) [unfolded es(2)]]
  have "C (db_rotbl db) = map_of (ok_items strm)" using db(1) sorted w(1) by simp
  moreover have "distinct (map fst (ok_items strm))" using sorted by (simp add: strict_sorted_iff)
  ultimately have "db_holds C db strm" by (simp add: db_holds_def ok_items_iff)
  with that [of counts] es(1) db(2,3) sorted w(1) send_entries_counts [OF run(2)] show thesis by simp
qed

section \<open>A store that begins with a snapshot\<close>

lemma level_default_simps [simp]:
  "lv_kv (level_default A B) = t_default A" "lv_expire (level_default A B) = t_default B"
  by (simp_all add: level_default_def)

lemma install_simps [simp]:
  "lm_persisted (install_snapshot_v003 S db) = Some db" "id_levels (lm_immutable (install_snapshot_v003 S db)) = []"
  "lv_sys_data (lm_writable (install_snapshot_v003 S db)) = db_sys_data db"
  "lv_kv (lm_writable (install_snapshot_v003 S db)) = t_default (sl_user S)"
  "lv_expire (lm_writable (install_snapshot_v003 S db)) = t_default (sl_expire S)"
  "id_last_level_index (lm_immutable (install_snapshot_v003 S db)) = None"
  by (simp_all add: install_snapshot_v003_def lm_with_sys_data_def lm_persisted_def newest_level_index_def)

lemma install_versions:
  assumes "table_ok (sp_table P) V" "sp_sub P (lm_writable (install_snapshot_v003 S db)) = t_default (sp_table P)"
  shows "lm_versions V P C (install_snapshot_v003 S db) k = db_versions P C (Some db) k"
    "lm_shown P C (install_snapshot_v003 S db) k s = db_shown P C (Some db) k"
    "good (db_versions P C (Some db) k) \<Longrightarrow> lm_inv V P C (install_snapshot_v003 S db) k"
proof -
  have per: "id_persisted (lm_immutable (install_snapshot_v003 S db)) = Some db"
    using install_simps(1) [of S db] by (simp add: lm_persisted_def)
  have get: "t_get (sp_table P) (t_default (sp_table P)) k s = not_found"
    using table_okD(3,4) [OF assms(1)] by (metis is_latest_empty)
  have none: "levels_get (sp_table P) (sp_sub P) [] k s = not_found"
    by (simp add: levels_get_def table_okD(1) [OF assms(1)])
  show "lm_versions V P C (install_snapshot_v003 S db) k = db_versions P C (Some db) k"
    using assms by (simp add: lm_versions_def data_versions_def levels_versions_def per table_okD(3))
  show "lm_shown P C (install_snapshot_v003 S db) k s = db_shown P C (Some db) k"
    using get none by (simp add: lm_shown_def data_shown_def assms(2) per)
  show "lm_inv V P C (install_snapshot_v003 S db) k" if "good (db_versions P C (Some db) k)"
    using that assms by (simp add: lm_inv_def data_inv_def data_versions_def levels_versions_def lm_versions_def per table_okD(3))
qed

lemma build_start_props:
  assumes libs: "libs_ok S VU VE C" and ok: "store_ok S VU VE C n lm" and n: "n \<noteq> u64_max"
    and run: "build_snapshot_start S n lm t = Inr (lm1, n1, cp, i, sd, strm)"
  shows "n1 = n + 1" "store_ok S VU VE C n1 lm1" "lm_curr_seq lm1 = lm_curr_seq lm"
    "compact_into_stream S (lm_immutable lm1) = Inr (sd, strm)" "cp_immutable_data cp = lm_immutable lm1"
    "older_part (lm_immutable lm1) [] (lm_immutable lm1)"
    "sd = lv_sys_data (lm_writable lm)" "i = snapshot_id_new (last_applied sd) t"
    "lm_shown (user_keys S) C lm1 k s = lm_shown (user_keys S) C lm k s"
    "lm_shown (expire_keys S) C lm1 e s = lm_shown (expire_keys S) C lm e s"
    "data_shown (user_keys S) C (lm_immutable lm1) k s = lm_shown (user_keys S) C lm k s"
    "data_shown (expire_keys S) C (lm_immutable lm1) e s = lm_shown (expire_keys S) C lm e s"
proof -
  note T = libs_okD [OF libs]
  obtain m where m: "do_freeze_writable S n lm = Inr (m, n + 1)" "store_ok S VU VE C (n + 1) m"
    "lm_curr_seq m = lm_curr_seq lm" "lm_writable m = new_level (sl_user S) (sl_expire S) (lm_writable lm)"
    "id_levels (lm_immutable m) = id_levels (lm_immutable lm) @
      [(LevelIndex (lm_curr_seq lm) n, \<lparr>im_index = LevelIndex (lm_curr_seq lm) n, im_level = lm_writable lm\<rparr>)]"
    and shown: "\<And>k s. lm_shown (user_keys S) C m k s = lm_shown (user_keys S) C lm k s"
    "\<And>k s. lm_shown (expire_keys S) C m k s = lm_shown (expire_keys S) C lm k s"
    using freeze_store [OF libs ok n] by metis
  have eq: "lm1 = m" "n1 = n + 1" "cp = new_compactor m" "compact_into_stream S (lm_immutable m) = Inr (sd, strm)"
    "i = snapshot_id_new (last_applied sd) t"
    using run m(1) by (auto simp: build_snapshot_start_def new_compactor_def Let_def)
  then show "n1 = n + 1" "store_ok S VU VE C n1 lm1" "lm_curr_seq lm1 = lm_curr_seq lm"
    "compact_into_stream S (lm_immutable lm1) = Inr (sd, strm)" "cp_immutable_data cp = lm_immutable lm1"
    "i = snapshot_id_new (last_applied sd) t"
    "lm_shown (user_keys S) C lm1 k s = lm_shown (user_keys S) C lm k s"
    "lm_shown (expire_keys S) C lm1 e s = lm_shown (expire_keys S) C lm e s"
    using m(2,3) shown by (simp_all add: new_compactor_def)
  show "older_part (lm_immutable lm1) [] (lm_immutable lm1)"
    using store_okD(1) [OF m(2)] by (simp add: older_part_def indexes_ok_def eq(1))
  show "sd = lv_sys_data (lm_writable lm)"
    using eq(4) by (auto simp: compact_into_stream_def m(5) Let_def)
  have "t_get (sl_user S) (sp_sub (user_keys S) (lm_writable m)) k s = not_found"
    "t_get (sl_expire S) (sp_sub (expire_keys S) (lm_writable m)) e s = not_found"
    using user_store.default_not_found [OF T(5)] expire_store.default_not_found [OF T(6)]
    by (simp_all add: m(4) new_level_def)
  then show "data_shown (user_keys S) C (lm_immutable lm1) k s = lm_shown (user_keys S) C lm k s"
    "data_shown (expire_keys S) C (lm_immutable lm1) e s = lm_shown (expire_keys S) C lm e s"
    using shown(1) [of k s] shown(2) [of e s] by (simp_all add: lm_shown_def eq(1))
qed

lemma shown_fixed:
  assumes "table_ok (sp_table P) V" "lm_inv V P C lm k" "upto (lm_versions V P C lm k) s"
  shows "lm_shown P C lm k s = lm_shown P C lm k u64_max"
proof -
  let ?S = "lm_versions V P C lm k"
  have max: "upto ?S u64_max" by (simp add: upto_def)
  have latest: "is_latest ?S q (lm_shown P C lm k q)" if "upto ?S q" for q
    using that by (intro lm_shown_latest [OF assms(1,2)]) (auto simp: upto_def lm_versions_def data_versions_def lm_persisted_def)
  have "good ?S" using assms(2) by (simp add: lm_inv_def)
  then show ?thesis
    by (rule is_latest_unique [OF _ is_latest_upto [OF assms(3) max latest [OF assms(3)]] latest [OF max]])
qed

text \<open>
  A snapshot shows what the store showed when the build began, on every node that starts from it.
\<close>

lemma content_shows:
  assumes libs: "libs_ok S VU VE C" and ok: "store_ok S VU VE C n lm" and n: "n \<noteq> u64_max"
    and start: "build_snapshot_start S n lm t = Inr (lm1, n1, cp, i, sd, strm)"
    and w: "no_error strm" "db_holds C db strm" "db_sys_data db = sd\<lparr>key_counts := counts\<rparr>"
  shows "lm_curr_seq lm \<le> s \<Longrightarrow> value_of (lm_shown (user_keys S) C (install_snapshot_v003 S db) k s) = value_of (lm_shown (user_keys S) C lm k s)"
    "lm_curr_seq lm \<le> s \<Longrightarrow> value_of (lm_shown (expire_keys S) C (install_snapshot_v003 S db) e s) = value_of (lm_shown (expire_keys S) C lm e s)"
    "store_ok S VU VE C n' (install_snapshot_v003 S db)"
    "db_sys_data db = (lv_sys_data (lm_writable lm))\<lparr>key_counts := counts\<rparr>"
proof -
  note T = libs_okD [OF libs] and st = store_okD [OF ok] and b = build_start_props [OF libs ok n start]
  note stream = part_stream [OF libs b(2,6) b(4)]
  show "db_sys_data db = (lv_sys_data (lm_writable lm))\<lparr>key_counts := counts\<rparr>"
    using w(3) b(7) by simp
  note db = stream_replaces [OF stream [OF w(1)] w(2), unfolded b(11,12)]
  have "sp_sub (user_keys S) (lm_writable (install_snapshot_v003 S db)) = t_default (sp_table (user_keys S))"
    "sp_sub (expire_keys S) (lm_writable (install_snapshot_v003 S db)) = t_default (sp_table (expire_keys S))"
    by simp_all
  note ui = install_versions [OF T(5) this(1)] and ei = install_versions [OF T(6) this(2)]
  have same: "lm_shown (user_keys S) C lm k s = lm_shown (user_keys S) C lm k u64_max"
    "lm_shown (expire_keys S) C lm e s = lm_shown (expire_keys S) C lm e u64_max" if "lm_curr_seq lm \<le> s" for k e s
    using shown_fixed [OF T(5) st(2) upto_mono [OF st(3) order_refl that]]
      shown_fixed [OF T(6) st(4) upto_mono [OF st(5) order_refl that]] by blast+
  show "value_of (lm_shown (user_keys S) C (install_snapshot_v003 S db) k s) = value_of (lm_shown (user_keys S) C lm k s)"
    if "lm_curr_seq lm \<le> s"
    using same(1) [OF that] by (simp add: ui(2) db_replaces_versions(2) [OF db(1)] value_of_tombstone)
  show "value_of (lm_shown (expire_keys S) C (install_snapshot_v003 S db) e s) = value_of (lm_shown (expire_keys S) C lm e s)"
    if "lm_curr_seq lm \<le> s"
    using same(2) [OF that] by (simp add: ei(2) db_replaces_versions(2) [OF db(2)] value_of_tombstone)
  have in_lm: "lm_shown (user_keys S) C lm k u64_max \<in> lm_versions VU (user_keys S) C lm k"
    if "marked (lm_shown (user_keys S) C lm k u64_max) \<noteq> TombStone" for k
    using that lm_shown_latest [OF T(5) st(2), of k u64_max] by (auto simp: upto_def is_latest_def split: if_splits)
  have in_lm': "lm_shown (expire_keys S) C lm e u64_max \<in> lm_versions VE (expire_keys S) C lm e"
    if "marked (lm_shown (expire_keys S) C lm e u64_max) \<noteq> TombStone" for e
    using that lm_shown_latest [OF T(6) st(4), of e u64_max] by (auto simp: upto_def is_latest_def split: if_splits)
  have sub: "db_versions (user_keys S) C (Some db) k \<subseteq> lm_versions VU (user_keys S) C lm k"
    "db_versions (expire_keys S) C (Some db) e \<subseteq> lm_versions VE (expire_keys S) C lm e" for k e
    using in_lm in_lm' by (simp_all add: db_replaces_versions(1) [OF db(1)] db_replaces_versions(1) [OF db(2)])
  have seq: "lm_curr_seq (install_snapshot_v003 S db) = lm_curr_seq lm"
    using w(3) b(7) by (simp add: lm_curr_seq_def curr_seq_def)
  have "space_ok VU (user_keys S) C (install_snapshot_v003 S db)" "space_ok VE (expire_keys S) C (install_snapshot_v003 S db)"
    using ui(1,3) ei(1,3) st(2,4) good_subset [OF _ sub(1)] good_subset [OF _ sub(2)]
      upto_mono [OF st(3) sub(1) order_refl] upto_mono [OF st(5) sub(2) order_refl]
    by (simp_all add: space_ok_def seq lm_inv_def)
  moreover have "texts_ok VE S C (install_snapshot_v003 S db)"
    using st(6) subsetD [OF sub(2)] by (simp add: texts_ok_def ei(1)) blast
  moreover have "indexes_ok n' (install_snapshot_v003 S db)"
    by (simp add: indexes_ok_def newest_level_index_def)
  ultimately show "store_ok S VU VE C n' (install_snapshot_v003 S db)"
    using db(3) by (simp add: store_ok_def)
qed

lemma build_shows:
  assumes libs: "libs_ok S VU VE C" and snap: "snapshot_ok L C B F"
    and ok: "store_ok S VU VE C n lm" and n: "n \<noteq> u64_max"
    and start: "build_snapshot_start S n lm t = Inr (lm1, n1, cp, i, sd, strm)"
    and wr: "build_snapshot_write L c f ts i sd strm = Inr (db, f')"
  obtains counts where "no_error strm" "db_holds C db strm" "db_sys_data db = sd\<lparr>key_counts := counts\<rparr>"
proof -
  note b = build_start_props [OF libs ok n start]
  note stream = part_stream [OF libs b(2,6) b(4)]
  show thesis
    by (rule build_write_holds [OF snap _ wr]) (use stream that in \<open>simp_all add: stream_shows_def\<close>)
qed

end
