(* ===== verification/Store_Machine.thy ===== *)
theory Store_Machine
  imports Snapshot_Correct
begin

text \<open>
  The store in use.  Commits, changes of the system data, freezing, compaction in memory and the
  building of a snapshot are steps that interleave under the permits of the source: freezing and
  compaction in memory do not run while a snapshot is built, commits and changes of the system
  data do.  Every run refines a map that only commits change.
\<close>

section \<open>Steps\<close>

record ('a, 'b, 'r) machine =
  mc_map :: "('a, 'b, 'r) leveled_map"
  mc_next :: u64
  mc_build :: "(('a, 'b, 'r) compactor \<times> rotbl_item list) option"

datatype 'r event =
  Committed u64 "change_table option" "change_table option"
| SysDataChanged
| Froze
| CompactedInMemory u64
| BuildStarted
| BuildFinished "'r db"

inductive store_step ::
  "('a, 'b, 'r) store_lib \<Rightarrow> ('r \<Rightarrow> rstring \<Rightarrow> bytes seq_marked option) \<Rightarrow>
   ('a, 'b, 'r) machine \<Rightarrow> 'r event \<Rightarrow> ('a, 'b, 'r) machine \<Rightarrow> bool"
  for S :: "('a, 'b, 'r) store_lib" and C :: "'r \<Rightarrow> rstring \<Rightarrow> bytes seq_marked option"
where
  committed: "commit S (mc_map m) top_seq u e = Inr lm \<Longrightarrow>
    store_step S C m (Committed top_seq u e) (m\<lparr>mc_map := lm\<rparr>)"
| sys_data: "(\<And>sd. curr_seq (g sd) = curr_seq sd) \<Longrightarrow>
    store_step S C m SysDataChanged (m\<lparr>mc_map := lm_with_sys_data (mc_map m) g\<rparr>)"
| froze: "mc_build m = None \<Longrightarrow> do_freeze_writable S (mc_next m) (mc_map m) = Inr (lm, n) \<Longrightarrow>
    store_step S C m Froze (m\<lparr>mc_map := lm, mc_next := n\<rparr>)"
| compacted: "mc_build m = None \<Longrightarrow> immutable_compactor_compact S (mc_map m) q = Inr lm \<Longrightarrow>
    store_step S C m (CompactedInMemory q) (m\<lparr>mc_map := lm\<rparr>)"
| build_started: "mc_build m = None \<Longrightarrow>
    build_snapshot_start S (mc_next m) (mc_map m) t = Inr (lm, n, cp, i, sd, strm) \<Longrightarrow>
    store_step S C m BuildStarted (m\<lparr>mc_map := lm, mc_next := n, mc_build := Some (cp, strm)\<rparr>)"
| build_finished: "mc_build m = Some (cp, strm) \<Longrightarrow> no_error strm \<Longrightarrow> db_holds C db strm \<Longrightarrow>
    replace_with_compacted (mc_map m) cp db = Inr lm \<Longrightarrow>
    store_step S C m (BuildFinished db) (m\<lparr>mc_map := lm, mc_build := None\<rparr>)"

inductive_cases store_step_committed: "store_step S C m (Committed top_seq u e) m'"

text \<open>
  What the environment of the store keeps: the view commits versions that come after those of the
  store, and the counter of level indexes does not wrap around.
\<close>

definition event_ok ::
  "('a, 'b, 'r) store_lib \<Rightarrow> ('a \<Rightarrow> rstring \<Rightarrow> meta_value seq_marked set) \<Rightarrow>
   ('b \<Rightarrow> expire_key \<Rightarrow> rstring seq_marked set) \<Rightarrow> ('r \<Rightarrow> rstring \<Rightarrow> bytes seq_marked option) \<Rightarrow>
   ('a, 'b, 'r) machine \<Rightarrow> 'r event \<Rightarrow> bool" where
  "event_ok S VU VE C m ev \<longleftrightarrow>
    mc_next m \<noteq> u64_max \<and>
    (\<forall>top_seq u e. ev = Committed top_seq u e \<longrightarrow>
      lm_curr_seq (mc_map m) \<le> top_seq \<and>
      (\<exists>us es. changes_of key_into_user value_into_user u = Inr us \<and>
        changes_of key_into_expire value_into_expire e = Inr es \<and>
        changes_ok VU (user_keys S) C (mc_map m) top_seq us \<and>
        changes_ok VE (expire_keys S) C (mc_map m) top_seq es \<and>
        (\<forall>k m v. ((k, m), Some v) \<in> set es \<longrightarrow> valid_str v)))"

inductive store_run ::
  "('a, 'b, 'r) store_lib \<Rightarrow> ('a \<Rightarrow> rstring \<Rightarrow> meta_value seq_marked set) \<Rightarrow>
   ('b \<Rightarrow> expire_key \<Rightarrow> rstring seq_marked set) \<Rightarrow> ('r \<Rightarrow> rstring \<Rightarrow> bytes seq_marked option) \<Rightarrow>
   ('a, 'b, 'r) machine \<Rightarrow> 'r event list \<Rightarrow> ('a, 'b, 'r) machine \<Rightarrow> bool"
  for S :: "('a, 'b, 'r) store_lib" and VU :: "'a \<Rightarrow> rstring \<Rightarrow> meta_value seq_marked set"
    and VE :: "'b \<Rightarrow> expire_key \<Rightarrow> rstring seq_marked set" and C :: "'r \<Rightarrow> rstring \<Rightarrow> bytes seq_marked option"
where
  run_nil: "store_run S VU VE C m [] m"
| run_snoc: "store_run S VU VE C m evs m1 \<Longrightarrow> event_ok S VU VE C m1 ev \<Longrightarrow> store_step S C m1 ev m2 \<Longrightarrow>
    store_run S VU VE C m (evs @ [ev]) m2"

section \<open>The specification\<close>

text \<open>What a reader at the current sequence number sees.\<close>

definition seen ::
  "('a, 'b, 't, 'k, 'v) space \<Rightarrow> ('r \<Rightarrow> rstring \<Rightarrow> bytes seq_marked option) \<Rightarrow> ('a, 'b, 'r) leveled_map \<Rightarrow>
   'k \<Rightarrow> (u64 \<times> 'v) option" where
  "seen P C lm k = value_of (lm_shown P C lm k (lm_curr_seq lm))"

text \<open>Changes overwrite a key with the greatest version they hold of it.\<close>

definition overwrites ::
  "(('k \<times> unit seq_marked) \<times> 'v option) list \<Rightarrow> ('k \<Rightarrow> (u64 \<times> 'v) option) \<Rightarrow> ('k \<Rightarrow> (u64 \<times> 'v) option) \<Rightarrow> bool" where
  "overwrites cs f f' \<longleftrightarrow>
    (\<forall>k. (added cs k = {} \<longrightarrow> f' k = f k) \<and>
      (\<forall>m \<in> added cs k. (\<forall>m' \<in> added cs k. sm_le m' m) \<longrightarrow> f' k = value_of m))"

inductive spec_run ::
  "'r event list \<Rightarrow> (rstring \<Rightarrow> (u64 \<times> meta_value) option) \<Rightarrow> (expire_key \<Rightarrow> (u64 \<times> rstring) option) \<Rightarrow>
   (rstring \<Rightarrow> (u64 \<times> meta_value) option) \<Rightarrow> (expire_key \<Rightarrow> (u64 \<times> rstring) option) \<Rightarrow> bool"
where
  spec_nil: "spec_run [] fu fe fu fe"
| spec_commit: "spec_run evs fu fe gu ge \<Longrightarrow>
    changes_of key_into_user value_into_user u = Inr us \<Longrightarrow> changes_of key_into_expire value_into_expire e = Inr es \<Longrightarrow>
    overwrites us gu hu \<Longrightarrow> overwrites es ge he \<Longrightarrow> spec_run (evs @ [Committed top_seq u e]) fu fe hu he"
| spec_other: "spec_run evs fu fe gu ge \<Longrightarrow> \<forall>top_seq u e. ev \<noteq> Committed top_seq u e \<Longrightarrow>
    spec_run (evs @ [ev]) fu fe gu ge"

section \<open>Every step keeps the invariant and refines the specification\<close>

definition machine_ok ::
  "('a, 'b, 'r) store_lib \<Rightarrow> ('a \<Rightarrow> rstring \<Rightarrow> meta_value seq_marked set) \<Rightarrow>
   ('b \<Rightarrow> expire_key \<Rightarrow> rstring seq_marked set) \<Rightarrow> ('r \<Rightarrow> rstring \<Rightarrow> bytes seq_marked option) \<Rightarrow>
   ('a, 'b, 'r) machine \<Rightarrow> bool" where
  "machine_ok S VU VE C m \<longleftrightarrow>
    store_ok S VU VE C (mc_next m) (mc_map m) \<and>
    (\<forall>cp strm. mc_build m = Some (cp, strm) \<longrightarrow>
      cp_immutable_data cp = lm_immutable (mc_map m) \<and> (\<exists>sd. compact_into_stream S (lm_immutable (mc_map m)) = Inr (sd, strm)))"

lemma machine_ok_same:
  assumes "machine_ok S VU VE C m" "store_ok S VU VE C (mc_next m') (mc_map m')"
    and "mc_build m' = mc_build m" "lm_immutable (mc_map m') = lm_immutable (mc_map m)"
  shows "machine_ok S VU VE C m'"
  using assms unfolding machine_ok_def by presburger

lemma machine_ok_idle: "store_ok S VU VE C (mc_next m) (mc_map m) \<Longrightarrow> mc_build m = None \<Longrightarrow> machine_ok S VU VE C m"
  by (simp add: machine_ok_def)

lemma overwrites_shown:
  assumes T: "table_ok (sp_table P) V" and inv: "lm_inv V P C lm k" "lm_inv V P C lm' k"
    and upto: "upto (lm_versions V P C lm k) (lm_curr_seq lm)" "upto (lm_versions V P C lm' k) (lm_curr_seq lm')"
    and vers: "lm_versions V P C lm' k = added cs k \<union> lm_versions V P C lm k" and over: "over (added cs k) (lm_versions V P C lm k)"
  shows "added cs k = {} \<Longrightarrow> seen P C lm' k = seen P C lm k"
    "m \<in> added cs k \<Longrightarrow> \<forall>m' \<in> added cs k. sm_le m' m \<Longrightarrow> seen P C lm' k = value_of m"
proof -
  have fixed: "seen P C lm k = value_of (lm_shown P C lm k u64_max)" "seen P C lm' k = value_of (lm_shown P C lm' k u64_max)"
    using shown_fixed [OF T inv(1) upto(1)] shown_fixed [OF T inv(2) upto(2)] by (simp_all add: seen_def)
  have latest: "is_latest (lm_versions V P C lm k) u64_max (lm_shown P C lm k u64_max)"
    "is_latest (lm_versions V P C lm' k) u64_max (lm_shown P C lm' k u64_max)"
    using lm_shown_latest [OF T inv(1), of u64_max] lm_shown_latest [OF T inv(2), of u64_max] by (simp_all add: upto_def)
  have good: "good (lm_versions V P C lm' k)" using inv(2) by (simp add: lm_inv_def)
  show "seen P C lm' k = seen P C lm k" if "added cs k = {}"
    using is_latest_unique [OF good latest(2)] latest(1) vers that fixed by simp
  show "seen P C lm' k = value_of m" if m: "m \<in> added cs k" "\<forall>m' \<in> added cs k. sm_le m' m"
  proof -
    have "is_latest (lm_versions V P C lm' k) u64_max m"
      using m over vers by (auto simp: is_latest_def over_def)
    then show ?thesis using is_latest_unique [OF good latest(2)] fixed by simp
  qed
qed

lemma seen_at:
  assumes "lm_curr_seq lm' = lm_curr_seq lm"
    and "\<And>k. value_of (lm_shown P C lm' k (lm_curr_seq lm)) = value_of (lm_shown P C lm k (lm_curr_seq lm))"
  shows "seen P C lm' = seen P C lm"
  using assms by (auto simp: seen_def)

text \<open>A step that is not a commit keeps what is seen; a commit overwrites it with its changes.\<close>

lemma commit_keeps:
  assumes libs: "libs_ok S VU VE C" and ok: "machine_ok S VU VE C m"
    and ev: "event_ok S VU VE C m (Committed top_seq u e)" and run: "commit S (mc_map m) top_seq u e = Inr lm"
    and us: "changes_of key_into_user value_into_user u = Inr us" and es: "changes_of key_into_expire value_into_expire e = Inr es"
  shows "machine_ok S VU VE C (m\<lparr>mc_map := lm\<rparr>)"
    "overwrites us (seen (user_keys S) C (mc_map m)) (seen (user_keys S) C lm)"
    "overwrites es (seen (expire_keys S) C (mc_map m)) (seen (expire_keys S) C lm)"
proof -
  note T = libs_okD [OF libs]
  have st: "store_ok S VU VE C (mc_next m) (mc_map m)" using ok by (simp add: machine_ok_def)
  have new: "changes_ok VU (user_keys S) C (mc_map m) top_seq us" "changes_ok VE (expire_keys S) C (mc_map m) top_seq es"
    "lm_curr_seq (mc_map m) \<le> top_seq" "\<forall>k m v. ((k, m), Some v) \<in> set es \<longrightarrow> valid_str v"
    using ev us es by (auto simp: event_ok_def)
  obtain lm' where lm': "commit S (mc_map m) top_seq u e = Inr lm'" "store_ok S VU VE C (mc_next m) lm'"
    "lm_immutable lm' = lm_immutable (mc_map m)"
    and vers: "\<And>k. lm_versions VU (user_keys S) C lm' k = added us k \<union> lm_versions VU (user_keys S) C (mc_map m) k"
      "\<And>k. lm_versions VE (expire_keys S) C lm' k = added es k \<union> lm_versions VE (expire_keys S) C (mc_map m) k"
    using commit_store [OF libs st us es new(1-4)] by metis
  have eq: "lm = lm'" using lm'(1) run by simp
  show "machine_ok S VU VE C (m\<lparr>mc_map := lm\<rparr>)" by (rule machine_ok_same [OF ok]) (simp_all add: eq lm'(2,3))
  note U = overwrites_shown [OF T(5) store_okD(2) [OF st] store_okD(2) [OF lm'(2)] store_okD(3) [OF st] store_okD(3) [OF lm'(2)] vers(1)]
    and E = overwrites_shown [OF T(6) store_okD(4) [OF st] store_okD(4) [OF lm'(2)] store_okD(5) [OF st] store_okD(5) [OF lm'(2)] vers(2)]
  show "overwrites us (seen (user_keys S) C (mc_map m)) (seen (user_keys S) C lm)"
    using U new(1) by (simp add: overwrites_def changes_ok_def eq)
  show "overwrites es (seen (expire_keys S) C (mc_map m)) (seen (expire_keys S) C lm)"
    using E new(2) by (simp add: overwrites_def changes_ok_def eq)
qed

lemma sys_data_keeps:
  assumes "store_ok S VU VE C n lm" "\<And>sd. curr_seq (g sd) = curr_seq sd" "libs_ok S VU VE C"
  shows "store_ok S VU VE C n (lm_with_sys_data lm g)" "seen (user_keys S) C (lm_with_sys_data lm g) = seen (user_keys S) C lm"
    "seen (expire_keys S) C (lm_with_sys_data lm g) = seen (expire_keys S) C lm"
    "lm_immutable (lm_with_sys_data lm g) = lm_immutable lm"
proof -
  let ?lm = "lm_with_sys_data lm g"
  have parts: "lm_immutable ?lm = lm_immutable lm" "lv_kv (lm_writable ?lm) = lv_kv (lm_writable lm)"
    "lv_expire (lm_writable ?lm) = lv_expire (lm_writable lm)" "lm_curr_seq ?lm = lm_curr_seq lm" "lm_persisted ?lm = lm_persisted lm"
    using assms(2) by (simp_all add: lm_with_sys_data_def lm_curr_seq_def lm_persisted_def)
  then show "lm_immutable ?lm = lm_immutable lm" by simp
  have same: "lm_versions VU (user_keys S) C ?lm k = lm_versions VU (user_keys S) C lm k"
    "lm_versions VE (expire_keys S) C ?lm e = lm_versions VE (expire_keys S) C lm e"
    "lm_inv VU (user_keys S) C ?lm k = lm_inv VU (user_keys S) C lm k"
    "lm_inv VE (expire_keys S) C ?lm e = lm_inv VE (expire_keys S) C lm e" for k e
    by (simp_all add: lm_versions_def lm_inv_def parts)
  show "store_ok S VU VE C n ?lm"
    using assms(1) by (simp add: store_ok_def indexes_ok_def space_ok_def texts_ok_def same parts)
  show "seen (user_keys S) C ?lm = seen (user_keys S) C lm" "seen (expire_keys S) C ?lm = seen (expire_keys S) C lm"
    by (simp_all add: seen_def lm_shown_def parts fun_eq_iff Let_def)
qed

lemma other_step_keeps:
  assumes libs: "libs_ok S VU VE C" and ok: "machine_ok S VU VE C m" and ev: "event_ok S VU VE C m ev"
    and step: "store_step S C m ev m'" and other: "\<forall>top_seq u e. ev \<noteq> Committed top_seq u e"
  shows "machine_ok S VU VE C m' \<and> seen (user_keys S) C (mc_map m') = seen (user_keys S) C (mc_map m) \<and>
    seen (expire_keys S) C (mc_map m') = seen (expire_keys S) C (mc_map m)"
proof -
  have st: "store_ok S VU VE C (mc_next m) (mc_map m)" and n: "mc_next m \<noteq> u64_max"
    using ok ev by (simp_all add: machine_ok_def event_ok_def)
  from step show ?thesis
  proof cases
    case (committed top_seq u e lm)
    with other show ?thesis by blast
  next
    case (sys_data g)
    note keep = sys_data_keeps [OF st sys_data(3) libs]
    have "machine_ok S VU VE C m'" by (rule machine_ok_same [OF ok]) (simp_all add: sys_data keep)
    then show ?thesis using keep(2,3) by (simp add: sys_data)
  next
    case (froze lm n')
    obtain lm' where "do_freeze_writable S (mc_next m) (mc_map m) = Inr (lm', mc_next m + 1)"
      "store_ok S VU VE C (mc_next m + 1) lm'" "lm_curr_seq lm' = lm_curr_seq (mc_map m)"
      "\<And>k s. lm_shown (user_keys S) C lm' k s = lm_shown (user_keys S) C (mc_map m) k s"
      "\<And>k s. lm_shown (expire_keys S) C lm' k s = lm_shown (expire_keys S) C (mc_map m) k s"
      using freeze_store [OF libs st n] by metis
    with froze show ?thesis by (simp add: machine_ok_idle seen_def fun_eq_iff)
  next
    case (compacted q lm)
    obtain lm' where lm': "immutable_compactor_compact S (mc_map m) q = Inr lm'" "store_ok S VU VE C (mc_next m) lm'"
      "lm_writable lm' = lm_writable (mc_map m)"
      "\<And>k s. q \<le> s \<or> lm_curr_seq (mc_map m) \<le> s \<Longrightarrow> lm_shown (user_keys S) C lm' k s = lm_shown (user_keys S) C (mc_map m) k s"
      "\<And>k s. q \<le> s \<or> lm_curr_seq (mc_map m) \<le> s \<Longrightarrow> lm_shown (expire_keys S) C lm' k s = lm_shown (expire_keys S) C (mc_map m) k s"
      using mem_compact_store [OF libs st, where m = q] by metis
    moreover from lm'(3) have "lm_curr_seq lm' = lm_curr_seq (mc_map m)" by (simp add: lm_curr_seq_def)
    ultimately show ?thesis using compacted by (simp add: machine_ok_idle seen_def fun_eq_iff)
  next
    case (build_started t lm n' cp i sd strm)
    note b = build_start_props [OF libs st n build_started(4)]
    show ?thesis using b(1,2,3,4,5,9,10) build_started by (auto simp: machine_ok_def seen_def fun_eq_iff)
  next
    case (build_finished cp strm db lm)
    obtain sd where d: "cp_immutable_data cp = lm_immutable (mc_map m)" "compact_into_stream S (lm_immutable (mc_map m)) = Inr (sd, strm)"
      using ok build_finished(3) by (auto simp: machine_ok_def)
    have part: "older_part (lm_immutable (mc_map m)) [] (lm_immutable (mc_map m))"
      using store_okD(1) [OF st] by (simp add: older_part_def indexes_ok_def)
    have sub: "upto (data_versions VU (user_keys S) C (lm_immutable (mc_map m)) k) (lm_curr_seq (mc_map m))"
      "upto (data_versions VE (expire_keys S) C (lm_immutable (mc_map m)) e) (lm_curr_seq (mc_map m))" for k e
      using store_okD(3) [OF st, of k] store_okD(5) [OF st, of e] by (auto simp: lm_versions_def upto_def)
    obtain lm' where lm': "replace_with_compacted (mc_map m) cp db = Inr lm'" "store_ok S VU VE C (mc_next m) lm'"
      "lm_writable lm' = lm_writable (mc_map m)"
      "\<And>k s. upto (data_versions VU (user_keys S) C (lm_immutable (mc_map m)) k) s \<Longrightarrow>
        value_of (lm_shown (user_keys S) C lm' k s) = value_of (lm_shown (user_keys S) C (mc_map m) k s)"
      "\<And>k s. upto (data_versions VE (expire_keys S) C (lm_immutable (mc_map m)) k) s \<Longrightarrow>
        value_of (lm_shown (expire_keys S) C lm' k s) = value_of (lm_shown (expire_keys S) C (mc_map m) k s)"
      using replace_store [OF libs st part d(2) build_finished(4,5) d(1)] by metis
    have eq: "mc_map m' = lm'" "mc_next m' = mc_next m" "mc_build m' = None" using build_finished lm'(1) by simp_all
    have "lm_curr_seq lm' = lm_curr_seq (mc_map m)" using lm'(3) by (simp add: lm_curr_seq_def)
    with lm'(2,4,5) sub show ?thesis by (simp add: machine_ok_idle eq seen_def fun_eq_iff)
  qed
qed

lemma run_refines:
  assumes "store_run S VU VE C m evs m'" "libs_ok S VU VE C" "machine_ok S VU VE C m"
  shows "machine_ok S VU VE C m' \<and>
    spec_run evs (seen (user_keys S) C (mc_map m)) (seen (expire_keys S) C (mc_map m))
      (seen (user_keys S) C (mc_map m')) (seen (expire_keys S) C (mc_map m'))"
  using assms
proof (induction rule: store_run.induct)
  case (run_nil m)
  then show ?case by (simp add: spec_nil)
next
  case (run_snoc m evs m1 ev m2)
  then have IH: "machine_ok S VU VE C m1" "spec_run evs (seen (user_keys S) C (mc_map m)) (seen (expire_keys S) C (mc_map m))
      (seen (user_keys S) C (mc_map m1)) (seen (expire_keys S) C (mc_map m1))" by simp_all
  show ?case
  proof (cases "\<exists>top_seq u e. ev = Committed top_seq u e")
    case True
    then obtain top_seq u e where ev: "ev = Committed top_seq u e" by blast
    obtain lm where lm: "commit S (mc_map m1) top_seq u e = Inr lm" "m2 = m1\<lparr>mc_map := lm\<rparr>"
      using run_snoc.hyps(3) ev by (auto elim: store_step_committed)
    obtain us es where cs: "changes_of key_into_user value_into_user u = Inr us" "changes_of key_into_expire value_into_expire e = Inr es"
      using run_snoc.hyps(2) ev by (auto simp: event_ok_def)
    note keep = commit_keeps [OF run_snoc.prems(1) IH(1) run_snoc.hyps(2) [unfolded ev] lm(1) cs]
    show ?thesis using keep(1) spec_commit [OF IH(2) cs keep(2,3)] by (simp add: ev lm(2))
  next
    case False
    then show ?thesis
      using other_step_keeps [OF run_snoc.prems(1) IH(1) run_snoc.hyps(2,3)] spec_other [OF IH(2), of ev] by auto
  qed
qed

end
