(* ===== verification/Store_Run.thy ===== *)
theory Store_Run
  imports Store_Machine
begin

text \<open>
  The properties of the leveled store as a whole, each with a run of a small store in memory.
\<close>

section \<open>The empty store\<close>

lemma default_store_ok:
  assumes "libs_ok S VU VE C"
  shows "store_ok S VU VE C n (leveled_map_default S)"
proof -
  note T = libs_okD [OF assms]
  have "lm_versions VU (user_keys S) C (leveled_map_default S) k = {}" "lm_versions VE (expire_keys S) C (leveled_map_default S) e = {}" for k e
    by (simp_all add: lm_versions_def data_versions_def levels_versions_def db_versions_def leveled_map_default_def
        table_okD(3) [OF T(1)] table_okD(3) [OF T(2)])
  then show ?thesis
    by (simp add: store_ok_def space_ok_def indexes_ok_def texts_ok_def db_wf_def lm_persisted_def lm_inv_def data_inv_def
        data_versions_def levels_versions_def db_versions_def leveled_map_default_def newest_level_index_def good_def upto_def
        table_okD(3) [OF T(1)] table_okD(3) [OF T(2)])
qed

section \<open>A run\<close>

definition sdemo_value :: "nat \<Rightarrow> meta_value" where
  "sdemo_value n = (None, [word_of_nat n])"

definition sdemo_set :: "u64 \<Rightarrow> nat \<Rightarrow> change_table option" where
  "sdemo_set s n = Some (s, [((KeyUser [97], SeqMarked s (Normal ())), Some (ValueUser (sdemo_value n)))])"

type_synonym mem_machine =
  "((rstring, meta_value) vtable, (expire_key, rstring) vtable, disk_table) machine"

definition sdemo_start :: mem_machine where
  "sdemo_start = \<lparr>mc_map = leveled_map_default mem_lib, mc_next = 1, mc_build = None\<rparr>"

definition sdemo_level :: "(rstring, meta_value) vtable \<Rightarrow> u64 \<Rightarrow> u64 option \<Rightarrow> ((rstring, meta_value) vtable, (expire_key, rstring) vtable) level" where
  "sdemo_level t s d = \<lparr>lv_sys_data = sys_data_default\<lparr>sequence := s, data_seq := d\<rparr>, lv_kv = t, lv_expire = []\<rparr>"

definition sdemo_frozen :: "u64 \<Rightarrow> ((rstring, meta_value) vtable, (expire_key, rstring) vtable) level \<Rightarrow>
    level_index \<times> ((rstring, meta_value) vtable, (expire_key, rstring) vtable) immutable" where
  "sdemo_frozen n l = (LevelIndex 1 n, \<lparr>im_index = LevelIndex 1 n, im_level = l\<rparr>)"

definition sdemo_entry :: "u64 \<Rightarrow> nat \<Rightarrow> rstring \<times> meta_value seq_marked" where
  "sdemo_entry s n = ([97], SeqMarked s (Normal (sdemo_value n)))"

definition sdemo_stored :: "rstring \<times> bytes seq_marked" where
  "sdemo_stored = (encode_key user_key_prefix user_key_encode [97], SeqMarked 1 (Normal [1, 2, 5]))"

definition sdemo_db :: "disk_table db" where
  "sdemo_db = \<lparr>db_storage_path = [], db_rel_path = [],
    db_meta = \<lparr>meta_last_log_id = None, meta_last_membership = last_membership sys_data_default, meta_snapshot_id = []\<rparr>,
    db_sys_data = sys_data_default\<lparr>sequence := 1\<rparr>, db_rotbl = ([sdemo_stored], [])\<rparr>"

definition sdemo_levels where
  "sdemo_levels = [sdemo_frozen 1 (sdemo_level [sdemo_entry 1 5] 1 None), sdemo_frozen 2 (sdemo_level [] 1 (Some 1))]"

definition sdemo1 :: mem_machine where
  "sdemo1 = sdemo_start\<lparr>mc_map := \<lparr>lm_writable = sdemo_level [sdemo_entry 1 5] 1 None, lm_immutable = immutable_data_new [] None\<rparr>\<rparr>"

definition sdemo2 :: mem_machine where
  "sdemo2 = sdemo_start\<lparr>mc_map := \<lparr>lm_writable = sdemo_level [] 1 (Some 1),
    lm_immutable = immutable_data_new [sdemo_frozen 1 (sdemo_level [sdemo_entry 1 5] 1 None)] None\<rparr>, mc_next := 2\<rparr>"

definition sdemo3 :: mem_machine where
  "sdemo3 = \<lparr>mc_map = \<lparr>lm_writable = sdemo_level [] 1 (Some 2), lm_immutable = immutable_data_new sdemo_levels None\<rparr>,
    mc_next = 3, mc_build = Some (\<lparr>cp_immutable_data = immutable_data_new sdemo_levels None\<rparr>, [Inr sdemo_stored])\<rparr>"

definition sdemo4 :: mem_machine where
  "sdemo4 = sdemo3\<lparr>mc_map := \<lparr>lm_writable = sdemo_level [sdemo_entry 2 7] 2 (Some 2), lm_immutable = immutable_data_new sdemo_levels None\<rparr>\<rparr>"

definition sdemo5 :: mem_machine where
  "sdemo5 = \<lparr>mc_map = \<lparr>lm_writable = sdemo_level [sdemo_entry 2 7] 2 (Some 2), lm_immutable = immutable_data_new [] (Some sdemo_db)\<rparr>,
    mc_next = 3, mc_build = None\<rparr>"

lemmas sdemo_defs = sdemo_start_def sdemo_level_def sdemo_frozen_def sdemo_entry_def sdemo_levels_def sdemo1_def sdemo2_def sdemo3_def
  sdemo4_def sdemo5_def sdemo_set_def sdemo_value_def

lemma mem_lib_simps [simp]:
  "sl_user mem_lib = vt_lib" "sl_expire mem_lib = vt_lib" "sl_rotbl mem_lib = at_lib" "sl_value mem_lib = small_values"
  by (simp_all add: mem_lib_def)

lemma sdemo_step1: "commit mem_lib (mc_map sdemo_start) 1 (sdemo_set 1 5) None = Inr (mc_map sdemo1)"
  by (simp add: sdemo_defs commit_def leveled_map_default_def level_default_def change_entry_def Let_def update_seq_def sys_data_default_def)

lemma sdemo_step2: "do_freeze_writable mem_lib 1 (mc_map sdemo1) = Inr (mc_map sdemo2, 2)"
  by (simp add: sdemo_defs do_freeze_writable_def new_level_def immutable_new_def levels_insert_def newest_level_index_def
      level_index_default_def less_level_index_def curr_seq_def incr_data_seq_def level_default_def sys_data_default_def immutable_data_new_def Let_def)

lemma sdemo_step4: "commit mem_lib (mc_map sdemo3) 2 (sdemo_set 2 7) None = Inr (mc_map sdemo4)"
  by (simp add: sdemo_defs commit_def leveled_map_default_def level_default_def change_entry_def Let_def update_seq_def sys_data_default_def)

lemma sdemo_freeze: "do_freeze_writable mem_lib 2 (mc_map sdemo2) = Inr (mc_map sdemo3, 3)"
  by (simp add: sdemo_defs do_freeze_writable_def new_level_def immutable_new_def levels_insert_def newest_level_index_def newest_def newest_to_oldest_def
      level_index_default_def less_level_index_def curr_seq_def incr_data_seq_def level_default_def sys_data_default_def immutable_data_new_def Let_def)

lemma sdemo_user_range: "levels_range vt_lib lv_kv sdemo_levels (Included [], Unbounded) u64_max = [Inr (sdemo_entry 1 5)]"
  by (simp add: levels_range_def sdemo_levels_def sdemo_frozen_def sdemo_level_def newest_to_oldest_def immutable_range_def
      vt_range_def mem_keys_def sdemo_entry_def vt_coalesce_def in_range_def vt_get_def vt_seen_def)

lemma sdemo_expire_range: "levels_range vt_lib lv_expire sdemo_levels (Included (ExpireKey 0 0), Unbounded) u64_max = []"
  by (simp add: levels_range_def sdemo_levels_def sdemo_frozen_def sdemo_level_def newest_to_oldest_def immutable_range_def
      vt_range_def mem_keys_def vt_coalesce_def)

lemma sdemo_encode: "encode_items (sp_key (user_keys mem_lib)) [Inr (sdemo_entry 1 5)] = [Inr sdemo_stored]"
  by (simp add: encode_items_def sdemo_entry_def encode_key_seq_marked_def seq_marked_encode_def meta_value_encode_def
      sdemo_value_def small_values_def meta_text_def pack_def unary_def sdemo_stored_def)

lemma encode_items_Nil [simp]: "encode_items K [] = []"
  by (simp add: encode_items_def)

lemma sdemo_stream: "compact_into_stream mem_lib (immutable_data_new sdemo_levels None) = Inr (sys_data_default\<lparr>sequence := 1, data_seq := Some 1\<rparr>, [Inr sdemo_stored])"
proof -
  have "newest sdemo_levels = Some (snd (sdemo_frozen 2 (sdemo_level [] 1 (Some 1))))"
    by (simp add: sdemo_levels_def newest_def newest_to_oldest_def)
  then show ?thesis
    by (simp add: compact_into_stream_def Let_def sdemo_user_range sdemo_expire_range sdemo_encode at_lib_def sdemo_stored_def)
      (simp add: sdemo_frozen_def sdemo_level_def)
qed

lemma sdemo_step3: "build_snapshot_start mem_lib 2 (mc_map sdemo2) t =
    Inr (mc_map sdemo3, 3, \<lparr>cp_immutable_data = immutable_data_new sdemo_levels None\<rparr>,
      snapshot_id_new None t, sys_data_default\<lparr>sequence := 1, data_seq := Some 1\<rparr>, [Inr sdemo_stored])"
proof -
  have "lm_immutable (mc_map sdemo3) = immutable_data_new sdemo_levels None" by (simp add: sdemo3_def)
  moreover have "last_applied (sys_data_default\<lparr>sequence := 1, data_seq := Some 1\<rparr>) = None" by (simp add: sys_data_default_def)
  ultimately show ?thesis
    by (simp add: build_snapshot_start_def sdemo_freeze new_compactor_def sdemo_stream)
qed

lemma sdemo_step5: "replace_with_compacted (mc_map sdemo4) \<lparr>cp_immutable_data = immutable_data_new sdemo_levels None\<rparr> sdemo_db = Inr (mc_map sdemo5)"
  by (simp add: sdemo_defs replace_with_compacted_def newest_level_index_def newest_def newest_to_oldest_def remove_levels_upto_def
      less_level_index_def)

lemma added_set: "added [((k', m), v)] k = (if k = k' then {version_of m v} else {})"
  by (auto simp: added_def)

lemma sdemo_changes: "changes_of key_into_user value_into_user (sdemo_set s n) = Inr [(([97], SeqMarked s (Normal ())), Some (sdemo_value n))]"
  "changes_of key_into_expire value_into_expire None = Inr []"
  by (simp_all add: changes_of_def sdemo_set_def change_entry_def)

lemma sdemo_versions:
  "lm_versions vt_versions (user_keys mem_lib) at_content (mc_map sdemo_start) k = {}"
  "lm_versions vt_versions (expire_keys mem_lib) at_content (mc_map sdemo_start) e = {}"
  "lm_versions vt_versions (user_keys mem_lib) at_content (mc_map sdemo3) k = (if k = [97] then {snd (sdemo_entry 1 5)} else {})"
  "lm_versions vt_versions (expire_keys mem_lib) at_content (mc_map sdemo3) e = {}"
  by (auto simp: sdemo_defs lm_versions_def data_versions_def levels_versions_def newest_to_oldest_def vers_def db_versions_def
      vt_versions_def leveled_map_default_def)

lemma sdemo_event_ok:
  "event_ok mem_lib vt_versions vt_versions at_content sdemo_start (Committed 1 (sdemo_set 1 5) None)"
  "event_ok mem_lib vt_versions vt_versions at_content sdemo3 (Committed 2 (sdemo_set 2 7) None)"
  "event_ok mem_lib vt_versions vt_versions at_content sdemo1 Froze"
  "event_ok mem_lib vt_versions vt_versions at_content sdemo2 BuildStarted"
  "event_ok mem_lib vt_versions vt_versions at_content sdemo4 (BuildFinished sdemo_db)"
  by (auto simp: event_ok_def sdemo_changes changes_ok_def sdemo_versions added_set over_def good_def upto_def added_def
      u64_max_numeral lm_curr_seq_def curr_seq_def)
    (simp_all add: sdemo_defs leveled_map_default_def level_default_def sys_data_default_def sm_le_def)

definition sdemo_events :: "disk_table event list" where
  "sdemo_events = [Committed 1 (sdemo_set 1 5) None, Froze, BuildStarted, Committed 2 (sdemo_set 2 7) None, BuildFinished sdemo_db]"

lemma sdemo_run: "store_run mem_lib vt_versions vt_versions at_content sdemo_start sdemo_events sdemo5"
proof -
  let ?run = "store_run mem_lib vt_versions vt_versions at_content sdemo_start"
  have "?run ([] @ [Committed 1 (sdemo_set 1 5) None]) sdemo1"
    using store_step.committed [where S = mem_lib and C = at_content and m = sdemo_start, OF sdemo_step1]
    by (intro run_snoc [OF run_nil sdemo_event_ok(1)]) (simp add: sdemo1_def)
  moreover have "store_step mem_lib at_content sdemo1 Froze sdemo2"
    using store_step.froze [where S = mem_lib and C = at_content and m = sdemo1] sdemo_step2 by (simp add: sdemo1_def sdemo2_def sdemo_start_def)
  ultimately have "?run [Committed 1 (sdemo_set 1 5) None, Froze] sdemo2" using run_snoc [OF _ sdemo_event_ok(3)] by fastforce
  moreover have "store_step mem_lib at_content sdemo2 BuildStarted sdemo3"
    using store_step.build_started [where S = mem_lib and C = at_content and m = sdemo2] sdemo_step3 by (simp add: sdemo2_def sdemo3_def sdemo_start_def)
  ultimately have "?run [Committed 1 (sdemo_set 1 5) None, Froze, BuildStarted] sdemo3" using run_snoc [OF _ sdemo_event_ok(4)] by fastforce
  moreover have "store_step mem_lib at_content sdemo3 (Committed 2 (sdemo_set 2 7) None) sdemo4"
    using store_step.committed [where S = mem_lib and C = at_content and m = sdemo3, OF sdemo_step4] by (simp add: sdemo4_def sdemo3_def)
  ultimately have "?run [Committed 1 (sdemo_set 1 5) None, Froze, BuildStarted, Committed 2 (sdemo_set 2 7) None] sdemo4"
    using run_snoc [OF _ sdemo_event_ok(2)] by fastforce
  moreover have "store_step mem_lib at_content sdemo4 (BuildFinished sdemo_db) sdemo5"
  proof -
    have "db_holds at_content sdemo_db [Inr sdemo_stored]" by (auto simp: db_holds_def sdemo_db_def sdemo_stored_def at_content_def)
    then show ?thesis
      using store_step.build_finished [where S = mem_lib and C = at_content and m = sdemo4] sdemo_step5
      by (simp add: sdemo4_def sdemo3_def sdemo5_def no_error_def)
  qed
  ultimately show ?thesis using run_snoc [OF _ sdemo_event_ok(5)] unfolding sdemo_events_def by fastforce
qed

lemma sdemo_machine_ok: "machine_ok mem_lib vt_versions vt_versions at_content sdemo_start"
  using default_store_ok [OF mem_lib_ok] by (intro machine_ok_idle) (simp_all add: sdemo_start_def)

section \<open>Reads of the code\<close>

lemma db_wf_keys:
  assumes "db_wf S C d"
  shows "db_keys_ok (user_keys S) C d" "db_keys_ok (expire_keys S) C d"
proof -
  have "\<not> prefix (user_key_prefix @ ascii ''/'') (encode_key expire_key_prefix expire_key_encode e)"
    "\<not> prefix (expire_key_prefix @ ascii ''/'') (encode_key user_key_prefix user_key_encode k)" for e k
    by (simp_all add: user_key_prefix_def expire_key_prefix_def encode_key_def)
  with assms show "db_keys_ok (user_keys S) C d" "db_keys_ok (expire_keys S) C d"
    unfolding db_keys_ok_def db_wf_def by (simp_all, metis+)
qed

lemma range_agrees:
  assumes "range_shows r (\<lambda>k. lm_shown P C lm k s) xs" "table_ok (sp_table P) V" "rotbl_ok (sl_rotbl S) C"
  shows "sorted_wrt (<) (map fst xs) \<and>
    (\<forall>k m x. (k, m) \<in> set xs \<and> lm_get S P lm k s = Inr x \<longrightarrow> in_range r k \<and> x = m) \<and>
    (\<forall>k x. in_range r k \<and> lm_get S P lm k s = Inr x \<and> x \<noteq> not_found \<longrightarrow> (k, x) \<in> set xs)"
proof -
  have get: "x = lm_shown P C lm k s" if "lm_get S P lm k s = Inr x" for k x
    using that by (rule lm_get_shown [OF assms(2,3)])
  show ?thesis
  proof (intro conjI allI impI; (elim conjE)?)
    show "sorted_wrt (<) (map fst xs)" using assms(1) by (simp add: range_shows_def)
    fix k m x
    assume "(k, m) \<in> set xs" "lm_get S P lm k s = Inr x"
    then show "in_range r k" "x = m" using assms(1) get unfolding range_shows_def by blast+
  next
    fix k x
    assume "in_range r k" "lm_get S P lm k s = Inr x" "x \<noteq> not_found"
    then show "(k, x) \<in> set xs" using assms(1) get unfolding range_shows_def by blast
  qed
qed

lemma user_range_shows:
  assumes "libs_ok S VU VE C" "store_ok S VU VE C n lm" "no_error (lm_range S (user_keys S) lm r s)"
  shows "range_shows r (\<lambda>k. lm_shown (user_keys S) C lm k s) (ok_items (lm_range S (user_keys S) lm r s))"
proof -
  note T = libs_okD [OF assms(1)] and st = store_okD [OF assms(2)]
  show ?thesis
    by (rule user_store.lm_range_shows [OF T(5) T(3) db_wf_keys(1) [OF st(7)] st(2) assms(3)])
qed

lemma get_seen:
  assumes "libs_ok S VU VE C" "lm_get S P lm k (lm_curr_seq lm) = Inr x" "table_ok (sp_table P) V"
  shows "value_of x = seen P C lm k"
  using lm_get_shown [OF assms(3) libs_okD(3) [OF assms(1)] assms(2)] by (simp add: seen_def)

section \<open>Properties\<close>

text \<open>
  C5: Every run of commits, changes of the system data, freezing, compaction in memory and building of
  snapshots, interleaved as the permits allow, keeps the invariant of the store and refines a map
  of keys to values that only commits change.  A read at the current sequence number that does not
  fail returns what this map holds: the greatest version of the last commit that changed the key.
\<close>

theorem store_refines_map:
  assumes "libs_ok S VU VE C" "machine_ok S VU VE C m" "store_run S VU VE C m evs m'"
  shows "machine_ok S VU VE C m' \<and>
    spec_run evs (seen (user_keys S) C (mc_map m)) (seen (expire_keys S) C (mc_map m))
      (seen (user_keys S) C (mc_map m')) (seen (expire_keys S) C (mc_map m')) \<and>
    (\<forall>k x. lm_get S (user_keys S) (mc_map m') k (lm_curr_seq (mc_map m')) = Inr x \<longrightarrow>
      value_of x = seen (user_keys S) C (mc_map m') k) \<and>
    (\<forall>k x. lm_get S (expire_keys S) (mc_map m') k (lm_curr_seq (mc_map m')) = Inr x \<longrightarrow>
      value_of x = seen (expire_keys S) C (mc_map m') k)"
  using run_refines [OF assms(3,1,2)] get_seen [OF assms(1) _ libs_okD(5) [OF assms(1)]]
    get_seen [OF assms(1) _ libs_okD(6) [OF assms(1)]] by blast

theorem store_refines_map_witness:
  "libs_ok mem_lib vt_versions vt_versions at_content \<and> machine_ok mem_lib vt_versions vt_versions at_content sdemo_start \<and>
   store_run mem_lib vt_versions vt_versions at_content sdemo_start sdemo_events sdemo5 \<and>
   spec_run sdemo_events (seen (user_keys mem_lib) at_content (mc_map sdemo_start)) (seen (expire_keys mem_lib) at_content (mc_map sdemo_start))
      (seen (user_keys mem_lib) at_content (mc_map sdemo5)) (seen (expire_keys mem_lib) at_content (mc_map sdemo5)) \<and>
   seen (user_keys mem_lib) at_content (mc_map sdemo5) [97] = Some (2, sdemo_value 7)"
proof -
  have "lm_get mem_lib (user_keys mem_lib) (mc_map sdemo5) [97] (lm_curr_seq (mc_map sdemo5)) = Inr (SeqMarked 2 (Normal (sdemo_value 7)))"
    by (simp add: sdemo_defs lm_get_def lm_curr_seq_def curr_seq_def vt_get_def vt_seen_def not_found_def)
  with store_refines_map [OF mem_lib_ok sdemo_machine_ok sdemo_run] mem_lib_ok sdemo_machine_ok sdemo_run show ?thesis
    by fastforce
qed

text \<open>
  C21: A range over the store at any sequence number, when no part of it fails, lists keys in strictly ascending order; a
  single read of a listed key gives the listed version, and every key of the range of which a
  single read finds a version is listed.  It holds of user keys and of expiration keys.
\<close>

theorem range_agrees_with_get:
  assumes "libs_ok S VU VE C" "store_ok S VU VE C n lm"
    and "no_error (lm_range S (user_keys S) lm r s)" "no_error (lm_range S (expire_keys S) lm re s)"
  shows "sorted_wrt (<) (map fst (ok_items (lm_range S (user_keys S) lm r s))) \<and>
    (\<forall>k m x. (k, m) \<in> set (ok_items (lm_range S (user_keys S) lm r s)) \<and> lm_get S (user_keys S) lm k s = Inr x \<longrightarrow> in_range r k \<and> x = m) \<and>
    (\<forall>k x. in_range r k \<and> lm_get S (user_keys S) lm k s = Inr x \<and> x \<noteq> not_found \<longrightarrow> (k, x) \<in> set (ok_items (lm_range S (user_keys S) lm r s))) \<and>
    sorted_wrt (<) (map fst (ok_items (lm_range S (expire_keys S) lm re s))) \<and>
    (\<forall>k m x. (k, m) \<in> set (ok_items (lm_range S (expire_keys S) lm re s)) \<and> lm_get S (expire_keys S) lm k s = Inr x \<longrightarrow> in_range re k \<and> x = m) \<and>
    (\<forall>k x. in_range re k \<and> lm_get S (expire_keys S) lm k s = Inr x \<and> x \<noteq> not_found \<longrightarrow> (k, x) \<in> set (ok_items (lm_range S (expire_keys S) lm re s)))"
proof -
  note T = libs_okD [OF assms(1)] and st = store_okD [OF assms(2)]
  note u = user_range_shows [OF assms(1,2,3)]
  have e: "range_shows re (\<lambda>k. lm_shown (expire_keys S) C lm k s) (ok_items (lm_range S (expire_keys S) lm re s))"
    by (rule expire_store.lm_range_shows [OF T(6) T(3) db_wf_keys(2) [OF st(7)] st(4) assms(4)])
  show ?thesis
    using range_agrees [OF u T(5) T(3)] range_agrees [OF e T(6) T(3)] by (elim conjE) (intro conjI; assumption)
qed


lemma sdemo_db_range:
  "db_range mem_lib (user_keys mem_lib) sdemo_db (Unbounded, Unbounded) 2 = [Inr (sdemo_entry 1 5)]"
  "db_range mem_lib (expire_keys mem_lib) sdemo_db (Unbounded, Unbounded) 2 = []"
  by (simp_all add: db_range_def sdemo_db_def at_lib_def mem_keys_def sdemo_stored_def encode_range_def in_range_def
      encode_key_def decode_key_def user_key_prefix_def user_key_encode_def user_key_decode_def expire_key_prefix_def
      seq_marked_decode_def meta_value_decode_def small_values_def unpack_def sdemo_entry_def sdemo_value_def)

lemma sdemo_range:
  "lm_range mem_lib (user_keys mem_lib) (mc_map sdemo5) (Unbounded, Unbounded) 2 = [Inr (sdemo_entry 2 7)]"
  "lm_range mem_lib (expire_keys mem_lib) (mc_map sdemo5) (Unbounded, Unbounded) 2 = []"
proof -
  have "immutable_data_range mem_lib (user_keys mem_lib) (immutable_data_new [] (Some sdemo_db)) (Unbounded, Unbounded) 2 = [Inr (sdemo_entry 1 5)]"
    by (simp add: immutable_data_range_def sdemo_db_range newest_to_oldest_def vt_coalesce_def vt_range_def mem_keys_def
        sdemo_entry_def in_range_def vt_get_def vt_seen_def)
  then show "lm_range mem_lib (user_keys mem_lib) (mc_map sdemo5) (Unbounded, Unbounded) 2 = [Inr (sdemo_entry 2 7)]"
    by (simp add: lm_range_def sdemo5_def sdemo_level_def sdemo_entry_def vt_coalesce_def vt_range_def mem_keys_def in_range_def
        vt_get_def vt_seen_def vt_max_def sm_le_def)
  have "immutable_data_range mem_lib (expire_keys mem_lib) (immutable_data_new [] (Some sdemo_db)) (Unbounded, Unbounded) 2 = []"
    by (simp add: immutable_data_range_def sdemo_db_range newest_to_oldest_def vt_coalesce_def vt_range_def mem_keys_def)
  then show "lm_range mem_lib (expire_keys mem_lib) (mc_map sdemo5) (Unbounded, Unbounded) 2 = []"
    by (simp add: lm_range_def sdemo5_def sdemo_level_def vt_coalesce_def vt_range_def mem_keys_def)
qed

lemma sdemo5_ok: "machine_ok mem_lib vt_versions vt_versions at_content sdemo5"
  using run_refines [OF sdemo_run mem_lib_ok sdemo_machine_ok] by simp

theorem range_agrees_with_get_witness:
  "libs_ok mem_lib vt_versions vt_versions at_content \<and> store_ok mem_lib vt_versions vt_versions at_content (mc_next sdemo5) (mc_map sdemo5) \<and>
   lm_range mem_lib (user_keys mem_lib) (mc_map sdemo5) (Unbounded, Unbounded) 2 = [Inr (sdemo_entry 2 7)] \<and>
   (\<exists>x. lm_get mem_lib (user_keys mem_lib) (mc_map sdemo5) [97] 2 = Inr x \<and> x \<noteq> not_found \<and>
     ([97], x) \<in> set (ok_items (lm_range mem_lib (user_keys mem_lib) (mc_map sdemo5) (Unbounded, Unbounded) 2)))"
proof -
  have st: "store_ok mem_lib vt_versions vt_versions at_content (mc_next sdemo5) (mc_map sdemo5)"
    using sdemo5_ok by (simp add: machine_ok_def)
  have "no_error (lm_range mem_lib (user_keys mem_lib) (mc_map sdemo5) (Unbounded, Unbounded) 2)"
    "no_error (lm_range mem_lib (expire_keys mem_lib) (mc_map sdemo5) (Unbounded, Unbounded) 2)"
    by (simp_all add: sdemo_range no_error_def)
  note range_agrees_with_get [OF mem_lib_ok st this]
  moreover have get: "lm_get mem_lib (user_keys mem_lib) (mc_map sdemo5) [97] 2 = Inr (SeqMarked 2 (Normal (sdemo_value 7)))"
    by (simp add: sdemo_defs lm_get_def vt_get_def vt_seen_def not_found_def)
  moreover have "SeqMarked 2 (Normal (sdemo_value 7)) \<noteq> not_found" by (simp add: not_found_def)
  ultimately show ?thesis
    using mem_lib_ok st sdemo_range(1) by (auto simp: in_range_def)
qed

section \<open>Panics and the number of levels\<close>





text \<open>
  C20: No panic of the store is reachable: freezing finds an index above all others, the search for the
  compacted level does not underflow, a snapshot always has a level to start from, and the levels
  that a finished compaction replaces are still there.
\<close>

theorem store_never_panics:
  assumes "libs_ok S VU VE C" "machine_ok S VU VE C m" "mc_next m \<noteq> u64_max"
  shows "(\<exists>r. do_freeze_writable S (mc_next m) (mc_map m) = Inr r) \<and>
    (\<forall>q. \<exists>lm. immutable_compactor_compact S (mc_map m) q = Inr lm) \<and>
    (\<forall>t. \<exists>r. build_snapshot_start S (mc_next m) (mc_map m) t = Inr r) \<and>
    (\<forall>cp strm db. mc_build m = Some (cp, strm) \<and> no_error strm \<and> db_holds C db strm \<longrightarrow>
      (\<exists>lm. replace_with_compacted (mc_map m) cp db = Inr lm))"
proof (intro conjI allI impI; (elim conjE)?)
  have st: "store_ok S VU VE C (mc_next m) (mc_map m)" using assms(2) by (simp add: machine_ok_def)
  obtain lm1 where f: "do_freeze_writable S (mc_next m) (mc_map m) = Inr (lm1, mc_next m + 1)"
    "id_levels (lm_immutable lm1) = id_levels (lm_immutable (mc_map m)) @
      [(LevelIndex (lm_curr_seq (mc_map m)) (mc_next m), \<lparr>im_index = LevelIndex (lm_curr_seq (mc_map m)) (mc_next m), im_level = lm_writable (mc_map m)\<rparr>)]"
    using freeze_store [OF assms(1) st assms(3)] by metis
  show "\<exists>r. do_freeze_writable S (mc_next m) (mc_map m) = Inr r" using f(1) by blast
  show "\<exists>lm. immutable_compactor_compact S (mc_map m) q = Inr lm" for q
    by (rule mem_compact_store [OF assms(1) st]) blast
  show "\<exists>r. build_snapshot_start S (mc_next m) (mc_map m) t = Inr r" for t
    using f by (simp add: build_snapshot_start_def compact_into_stream_def new_compactor_def Let_def)
  show "\<exists>lm. replace_with_compacted (mc_map m) cp db = Inr lm"
    if p: "mc_build m = Some (cp, strm)" "no_error strm" "db_holds C db strm" for cp strm db
  proof -
    obtain sd where d: "cp_immutable_data cp = lm_immutable (mc_map m)" "compact_into_stream S (lm_immutable (mc_map m)) = Inr (sd, strm)"
      using assms(2) p(1) by (auto simp: machine_ok_def)
    have "older_part (lm_immutable (mc_map m)) [] (lm_immutable (mc_map m))"
      using store_okD(1) [OF st] by (simp add: older_part_def indexes_ok_def)
    then show ?thesis by (rule replace_store [OF assms(1) st _ d(2) p(2,3) d(1)]) blast
  qed
qed

theorem store_never_panics_witness:
  "libs_ok mem_lib vt_versions vt_versions at_content \<and> machine_ok mem_lib vt_versions vt_versions at_content sdemo5 \<and>
   mc_next sdemo5 \<noteq> u64_max \<and> (\<exists>r. do_freeze_writable mem_lib (mc_next sdemo5) (mc_map sdemo5) = Inr r)"
proof -
  have "mc_next sdemo5 \<noteq> u64_max" by (simp add: sdemo5_def u64_max_numeral)
  with store_never_panics [OF mem_lib_ok sdemo5_ok this] show ?thesis using mem_lib_ok sdemo5_ok by simp
qed

section \<open>Snapshots of readers\<close>

text \<open>
  C22: Freezing keeps the result of every read at every sequence number.  Compaction in memory keeps the
  result of every read at a sequence number not below its minimal snapshot sequence number.
\<close>

theorem reads_of_open_snapshots:
  assumes "libs_ok S VU VE C" "store_ok S VU VE C n lm" "n \<noteq> u64_max"
  shows "\<exists>lm1 lm2. do_freeze_writable S n lm = Inr (lm1, n + 1) \<and> immutable_compactor_compact S lm q = Inr lm2 \<and>
    (\<forall>k s. lm_get S (user_keys S) lm1 k s = lm_get S (user_keys S) lm k s) \<and>
    (\<forall>k s. lm_get S (expire_keys S) lm1 k s = lm_get S (expire_keys S) lm k s) \<and>
    (\<forall>k. \<forall>s \<ge> q. lm_get S (user_keys S) lm2 k s = lm_get S (user_keys S) lm k s) \<and>
    (\<forall>k. \<forall>s \<ge> q. lm_get S (expire_keys S) lm2 k s = lm_get S (expire_keys S) lm k s)"
proof -
  obtain lm1 where "do_freeze_writable S n lm = Inr (lm1, n + 1)"
    "\<And>k s. lm_get S (user_keys S) lm1 k s = lm_get S (user_keys S) lm k s"
    "\<And>k s. lm_get S (expire_keys S) lm1 k s = lm_get S (expire_keys S) lm k s"
    using freeze_store [OF assms] by metis
  moreover obtain lm2 where "immutable_compactor_compact S lm q = Inr lm2"
    "\<And>k s. q \<le> s \<or> lm_curr_seq lm \<le> s \<Longrightarrow> lm_get S (user_keys S) lm2 k s = lm_get S (user_keys S) lm k s"
    "\<And>k s. q \<le> s \<or> lm_curr_seq lm \<le> s \<Longrightarrow> lm_get S (expire_keys S) lm2 k s = lm_get S (expire_keys S) lm k s"
    using mem_compact_store [OF assms(1,2), where m = q] by metis
  ultimately show ?thesis by auto
qed

theorem reads_of_open_snapshots_witness:
  "libs_ok mem_lib vt_versions vt_versions at_content \<and>
   store_ok mem_lib vt_versions vt_versions at_content 3 (mc_map sdemo5) \<and> (3 :: u64) \<noteq> u64_max \<and>
   (\<exists>lm1. do_freeze_writable mem_lib 3 (mc_map sdemo5) = Inr (lm1, 4) \<and>
     lm_get mem_lib (user_keys mem_lib) lm1 [97] 2 = lm_get mem_lib (user_keys mem_lib) (mc_map sdemo5) [97] 2)"
proof -
  have st: "store_ok mem_lib vt_versions vt_versions at_content 3 (mc_map sdemo5)"
    using sdemo5_ok by (simp add: machine_ok_def sdemo5_def)
  have n: "(3 :: u64) \<noteq> u64_max" by (simp add: u64_max_numeral)
  from reads_of_open_snapshots [OF mem_lib_ok st n, of 0] show ?thesis using mem_lib_ok st n by auto
qed

text \<open>
  The compactor that runs in the background passes the largest sequence number as the minimal one, so
  a snapshot that was taken before can lose a key: here the first version of a key is no longer
  found at its sequence number.
\<close>

definition sdemo_old :: "u64 \<Rightarrow> rstring \<Rightarrow> u64 list \<Rightarrow> level_index \<times> ((rstring, meta_value) vtable, (expire_key, rstring) vtable) immutable" where
  "sdemo_old n k seqs =
    (LevelIndex n 1, \<lparr>im_index = LevelIndex n 1, im_level = sdemo_level (map (\<lambda>s. (k, SeqMarked s (Normal (sdemo_value 5)))) seqs) n None\<rparr>)"

definition sdemo_many :: "((rstring, meta_value) vtable, (expire_key, rstring) vtable, disk_table) leveled_map" where
  "sdemo_many = \<lparr>lm_writable = sdemo_level [] 9 None,
    lm_immutable = immutable_data_new [sdemo_old 1 [97] [1], sdemo_old 2 [97] [2], sdemo_old 4 [98] [3, 4],
      sdemo_old 6 [98] [5, 6], sdemo_old 9 [98] [7, 8, 9]] None\<rparr>"

definition sdemo_top :: "level_index \<times> ((rstring, meta_value) vtable, (expire_key, rstring) vtable) immutable" where
  "sdemo_top = (LevelIndex 9 2, \<lparr>im_index = LevelIndex 9 2, im_level = sdemo_level [] 9 None\<rparr>)"

lemma sdemo_many_frozen:
  "do_freeze_writable mem_lib 2 sdemo_many = Inr (\<lparr>lm_writable = new_level vt_lib vt_lib (lm_writable sdemo_many),
    lm_immutable = immutable_data_new (id_levels (lm_immutable sdemo_many) @ [sdemo_top]) None\<rparr>, 3)"
proof -
  have "indexes_ok 2 sdemo_many"
    by (simp add: indexes_ok_def sdemo_many_def sdemo_old_def levels_wf_def less_level_index_def lm_curr_seq_def curr_seq_def sdemo_level_def)
  from freeze_shape(1) [OF this, of mem_lib] show ?thesis
    by (simp add: u64_max_numeral sdemo_top_def sdemo_many_def curr_seq_def sdemo_level_def)
qed

lemma sdemo_many_sizes:
  "map (size_of vt_lib vt_lib) (newest_to_oldest (id_levels (lm_immutable sdemo_many) @ [sdemo_top])) = [0, 3, 2, 2, 1, 1]"
  by (simp add: sdemo_many_def sdemo_top_def sdemo_old_def newest_to_oldest_def size_of_def vt_lib_def sdemo_level_def)

lemma sdemo_many_index:
  "min_adjacent (map (size_of vt_lib vt_lib) (newest_to_oldest (id_levels (lm_immutable sdemo_many) @ [sdemo_top]))) 0 u64_max 0 = 4"
  unfolding sdemo_many_sizes by (simp add: u64_max_numeral)

lemma sdemo_many_merge:
  "immutable_compact vt_lib vt_lib (snd (sdemo_old 2 [97] [2])) (snd (sdemo_old 1 [97] [1])) u64_max = snd (sdemo_old 2 [97] [2])"
  by (simp add: sdemo_old_def sdemo_level_def immutable_compact_def new_with_index_def level_compact_def less_level_index_def curr_seq_def
      vt_lib_def vt_compact_def sm_le_def)

lemma sdemo_many_compacted:
  "compact_min_adjacent vt_lib vt_lib (id_levels (lm_immutable sdemo_many) @ [sdemo_top]) u64_max =
    [sdemo_old 2 [97] [2], sdemo_old 4 [98] [3, 4], sdemo_old 6 [98] [5, 6], sdemo_old 9 [98] [7, 8, 9], sdemo_top]"
proof -
  have fst: "fst (sdemo_old n k xs) = LevelIndex n 1" "im_index (snd (sdemo_old n k xs)) = LevelIndex n 1" for n k xs
    by (simp_all add: sdemo_old_def)
  have top: "fst sdemo_top = LevelIndex 9 2" "im_index (snd sdemo_top) = LevelIndex 9 2" by (simp_all add: sdemo_top_def)
  have L: "id_levels (lm_immutable sdemo_many) @ [sdemo_top] = [sdemo_old 1 [97] [1], sdemo_old 2 [97] [2], sdemo_old 4 [98] [3, 4],
      sdemo_old 6 [98] [5, 6], sdemo_old 9 [98] [7, 8, 9], sdemo_top]"
    by (simp add: sdemo_many_def)
  have pair: "(LevelIndex n 1, snd (sdemo_old n k xs)) = sdemo_old n k xs" for n k xs by (simp add: sdemo_old_def)
  have pair': "(LevelIndex 9 2, snd sdemo_top) = sdemo_top" by (simp add: sdemo_top_def)
  have wf: "levels_wf [sdemo_old 2 [97] [2], sdemo_old 4 [98] [3, 4], sdemo_old 6 [98] [5, 6], sdemo_old 9 [98] [7, 8, 9], sdemo_top]"
    by (simp add: levels_wf_def fst top less_level_index_def)
  have ins: "bt_insert (LevelIndex 2 1) (snd (sdemo_old 2 [97] [2]))
      [sdemo_old 4 [98] [3, 4], sdemo_old 6 [98] [5, 6], sdemo_old 9 [98] [7, 8, 9], sdemo_top] =
    [sdemo_old 2 [97] [2], sdemo_old 4 [98] [3, 4], sdemo_old 6 [98] [5, 6], sdemo_old 9 [98] [7, 8, 9], sdemo_top]"
    using bt_insert_between [of "[]" "LevelIndex 2 1" "[sdemo_old 4 [98] [3, 4], sdemo_old 6 [98] [5, 6], sdemo_old 9 [98] [7, 8, 9], sdemo_top]"]
    by (simp add: fst top less_level_index_def pair)
  show ?thesis
    using sdemo_many_index new_form_iter_values [OF wf]
    by (simp add: compact_min_adjacent_def L newest_to_oldest_def sdemo_many_merge fst top bt_remove_def ins Let_def)
qed

lemma background_compaction_forgets:
  "lm_get mem_lib (user_keys mem_lib) sdemo_many [97] 1 = Inr (SeqMarked 1 (Normal (sdemo_value 5)))"
  "\<exists>lm. in_memory_compact_once mem_lib 2 sdemo_many = Inr (lm, 3) \<and> lm_get mem_lib (user_keys mem_lib) lm [97] 1 = Inr not_found"
proof -
  show "lm_get mem_lib (user_keys mem_lib) sdemo_many [97] 1 = Inr (SeqMarked 1 (Normal (sdemo_value 5)))"
    by (simp add: sdemo_many_def sdemo_old_def sdemo_level_def lm_get_def immutable_data_get_def levels_get_def newest_to_oldest_def
        immutable_get_def vt_get_def vt_seen_def not_found_def word_le_nat_alt Let_def)
  let ?L = "id_levels (lm_immutable sdemo_many) @ [sdemo_top]"
  let ?L' = "[sdemo_old 2 [97] [2], sdemo_old 4 [98] [3, 4], sdemo_old 6 [98] [5, 6], sdemo_old 9 [98] [7, 8, 9], sdemo_top]"
  define lm1 where "lm1 = \<lparr>lm_writable = new_level vt_lib vt_lib (lm_writable sdemo_many),
    lm_immutable = immutable_data_new ?L None :: ((rstring, meta_value) vtable, (expire_key, rstring) vtable, disk_table) immutable_data\<rparr>"
  have len: "length ?L = 6" by (simp add: sdemo_many_def)
  have "need_compact vt_lib vt_lib ?L = Inr ()"
    unfolding need_compact_def sdemo_many_sizes len by simp
  moreover have "levels_stat vt_lib vt_lib ?L \<noteq> levels_stat vt_lib vt_lib ?L'"
  proof -
    have "length (levels_stat vt_lib vt_lib ?L) \<noteq> length (levels_stat vt_lib vt_lib ?L')" by (simp add: levels_stat_def sdemo_many_def)
    then show ?thesis by metis
  qed
  moreover have "diff_index (levels_stat vt_lib vt_lib ?L) (levels_stat vt_lib vt_lib ?L') 0 \<noteq> Some 0"
    by (simp add: levels_stat_def sdemo_many_def newest_to_oldest_def stat_with_index_def sdemo_top_def)
  ultimately have "immutable_compactor_compact mem_lib lm1 u64_max = Inr (replace_immutable_levels lm1 ?L')"
    by (simp add: immutable_compactor_compact_def lm1_def sdemo_many_compacted Let_def)
  then have "in_memory_compact_once mem_lib 2 sdemo_many = Inr (replace_immutable_levels lm1 ?L', 3)"
    by (simp add: in_memory_compact_once_def sdemo_many_frozen lm1_def)
  moreover have "lm_get mem_lib (user_keys mem_lib) (replace_immutable_levels lm1 ?L') [97] 1 = Inr not_found"
    by (simp add: lm1_def replace_immutable_levels_def sdemo_old_def sdemo_level_def sdemo_top_def lm_get_def immutable_data_get_def
        levels_get_def newest_to_oldest_def immutable_get_def vt_get_def vt_seen_def new_level_def level_default_def word_le_nat_alt)
  ultimately show "\<exists>lm. in_memory_compact_once mem_lib 2 sdemo_many = Inr (lm, 3) \<and> lm_get mem_lib (user_keys mem_lib) lm [97] 1 = Inr not_found"
    by blast
qed

end
