(* ===== verification/Snapshot_Run.thy ===== *)
theory Snapshot_Run
  imports Store_Run
begin

text \<open>
  The properties of building, installing and cleaning snapshots, with a file system in memory for
  the examples.
\<close>

section \<open>A file system in memory\<close>

type_synonym mem_files = "(rstring \<times> disk_table) list"
type_synonym mem_builder = "rstring \<times> rstring \<times> (rstring \<times> bytes seq_marked) list"

definition small_sys :: "u64 \<Rightarrow> u64 option \<Rightarrow> log_id option \<Rightarrow> u64 option \<Rightarrow> u64 option \<Rightarrow> sys_data" where
  "small_sys s d l a b = sys_data_default\<lparr>last_applied := l, sequence := s, data_seq := d,
    key_counts := (\<lambda>p. if p = user_key_prefix then a else if p = expire_key_prefix then b else None)\<rparr>"

definition sys_text :: "sys_data \<Rightarrow> rstring option" where
  "sys_text sd =
    (if sd = small_sys (sequence sd) (data_seq sd) (last_applied sd) (key_counts sd user_key_prefix) (key_counts sd expire_key_prefix)
     then Some (opt_text (Some (sequence sd)) @ opt_text (data_seq sd) @ opt_text (key_counts sd user_key_prefix) @
       opt_text (key_counts sd expire_key_prefix) @ opt_text (map_option li_term (last_applied sd)) @
       opt_text (map_option li_node_id (last_applied sd)) @ opt_text (map_option li_index (last_applied sd)))
     else None)"

fun text_sys :: "rstring \<Rightarrow> sys_data option" where
  "text_sys [s0, s, d0, d, a0, a, b0, b, t0, t, n0, n, i0, i] =
    Some (small_sys (word_of_nat s) (text_opt d0 d)
      (if t0 = 0 then None else Some (new_log_id (word_of_nat t) (word_of_nat n) (word_of_nat i))) (text_opt a0 a) (text_opt b0 b))"
| "text_sys _ = None"

definition mem_path :: "rstring \<Rightarrow> rstring \<Rightarrow> rstring" where
  "mem_path d p = d @ ascii ''/'' @ p"

definition mem_snapshots :: "(mem_files, mem_builder, disk_table) snapshot_lib" where
  "mem_snapshots =
    \<lparr>json_of_sys = sys_text, sys_of_json = text_sys,
     builder_new = (\<lambda>f d p. Inr ((d, p, []), f)), builder_storage_path = fst, builder_rel_path = (\<lambda>w. fst (snd w)),
     builder_append = (\<lambda>w k v. Inr (fst w, fst (snd w), snd (snd w) @ [(k, v)])),
     builder_commit = (\<lambda>f w meta. Inr ((snd (snd w), meta), (mem_path (fst w) (fst (snd w)), (snd (snd w), meta)) # f)),
     rotbl_open = (\<lambda>f d p. ok_or OtherError (map_of f (mem_path d p))),
     rotbl_user_data = snd,
     fs_create_dir_all = (\<lambda>f d. Inr f),
     fs_rename = (\<lambda>f a b. case map_of f a of None \<Rightarrow> Inl OtherError
       | Some t \<Rightarrow> Inr ((b, t) # filter (\<lambda>e. fst e \<noteq> a \<and> fst e \<noteq> b) f)),
     fs_read_dir = (\<lambda>f d. Inr (map Some (concat (map (\<lambda>e. case strip_prefix (mem_path d []) (fst e) of None \<Rightarrow> [] | Some p \<Rightarrow> [p]) f)))),
     fs_remove_file = (\<lambda>f p. Inr (filter (\<lambda>e. fst e \<noteq> p) f))\<rparr>"

definition mem_tables :: "mem_files \<Rightarrow> rstring \<Rightarrow> ((rstring \<Rightarrow> bytes seq_marked option) \<times> rstring) option" where
  "mem_tables f p = map_option (\<lambda>t. (at_content t, snd t)) (map_of f p)"

lemma text_sys_text: "sys_text sd = Some j \<Longrightarrow> text_sys j = Some sd"
proof -
  assume j: "sys_text sd = Some j"
  then have sd: "small_sys (sequence sd) (data_seq sd) (last_applied sd) (key_counts sd user_key_prefix) (key_counts sd expire_key_prefix) = sd"
    by (auto simp: sys_text_def split: if_splits)
  have o: "\<exists>x y. opt_text p = [x, y] \<and> text_opt x y = p" for p by (cases p) auto
  obtain d0 d a0 a b0 b where c: "opt_text (data_seq sd) = [d0, d]" "text_opt d0 d = data_seq sd"
    "opt_text (key_counts sd user_key_prefix) = [a0, a]" "text_opt a0 a = key_counts sd user_key_prefix"
    "opt_text (key_counts sd expire_key_prefix) = [b0, b]" "text_opt b0 b = key_counts sd expire_key_prefix"
    using o by metis
  show "text_sys j = Some sd"
  proof (cases "last_applied sd")
    case None
    with j sd c show ?thesis by (auto simp: sys_text_def split: if_splits)
  next
    case (Some l)
    then have "new_log_id (li_term l) (li_node_id l) (li_index l) = l" by (simp add: new_log_id_def)
    with j sd c Some show ?thesis by (auto simp: sys_text_def split: if_splits)
  qed
qed

lemma map_of_without: "map_of (filter (\<lambda>e. fst e \<noteq> a) f) p = (if p = a then None else map_of f p)"
  by (induction f) auto

lemma map_of_without2: "map_of (filter (\<lambda>e. fst e \<noteq> a \<and> fst e \<noteq> b) f) p = (if p = a \<or> p = b then None else map_of f p)"
  by (induction f) auto

lemma mem_snapshots_ok: "snapshot_ok mem_snapshots at_content (\<lambda>w. snd (snd w)) mem_tables"
proof -
  have "builder_law mem_snapshots (\<lambda>w. snd (snd w)) mem_tables"
    by (auto simp: builder_law_def mem_snapshots_def mem_tables_def mem_path_def at_content_def fun_eq_iff)
  moreover have "files_law mem_snapshots at_content mem_tables"
    unfolding files_law_def
    by (auto simp: mem_snapshots_def mem_tables_def mem_path_def ok_or_def fun_eq_iff map_of_without map_of_without2 split: option.splits)
  moreover have "\<forall>sd j. json_of_sys mem_snapshots sd = Some j \<longrightarrow> sys_of_json mem_snapshots j = Some sd"
    using text_sys_text by (simp add: mem_snapshots_def)
  ultimately show ?thesis by (simp add: snapshot_ok_def)
qed

section \<open>Cleaning\<close>

lemma scan_names_invalid:
  "name \<in> set (snd (scan_names names)) \<Longrightarrow>
    \<exists>s. extract_snapshot_id_from_fn name = Some s \<and> snapshot_id_from_str s = None"
  by (induction names rule: scan_names.induct) (auto split: option.splits prod.splits)

lemma extract_snapshot_fn [simp]: "extract_snapshot_id_from_fn (snapshot_fn s) = Some s"
  by (simp add: extract_snapshot_id_from_fn_def snapshot_fn_def)

lemma extract_temp [simp]: "extract_snapshot_id_from_fn (temp_snapshot_id ts) = None"
proof -
  obtain d ds where d: "rev (show_nat ts) = d # ds" by (cases "rev (show_nat ts)") auto
  then have "is_digit d" using show_nat_mem [of d ts] by (metis list.set_intros(1) set_rev)
  with d show ?thesis
    by (auto simp: extract_snapshot_id_from_fn_def temp_snapshot_id_def strip_prefix_None_iff is_digit_def)
qed

lemma temp_not_final: "temp_snapshot_id ts \<noteq> snapshot_fn s"
  using extract_snapshot_fn [of s] extract_temp [of ts] by (metis option.distinct(1))

lemma remove_files_tables:
  assumes "snapshot_ok L C B F"
  shows "remove_files L f ps = Inr f' \<Longrightarrow> F f' = (\<lambda>p. if p \<in> set ps then None else F f p)"
proof (induction ps arbitrary: f)
  case (Cons p ps)
  then obtain f1 where "fs_remove_file L f p = Inr f1" "remove_files L f1 ps = Inr f'" by auto
  with Cons.IH snapshot_okD(8) [OF assms] show ?case by (auto simp: fun_eq_iff)
qed simp

lemma snapshot_path_eq [simp]: "snapshot_path c a = snapshot_path c b \<longleftrightarrow> a = b"
  by (simp add: snapshot_path_def snapshot_fn_def)

lemma snapshot_id_display_eq [simp]: "snapshot_id_display i = snapshot_id_display j \<longleftrightarrow> i = j"
  using snapshot_id_roundtrip by (metis option.inject)

lemma load_ids_props:
  assumes "snapshot_ok L C B F" "load_snapshot_ids L c f = Inr ((ids, invalid), f1)"
  shows "F f1 = F f" "sorted (map snapshot_id_key ids)"
    "name \<in> set invalid \<Longrightarrow> \<exists>s. extract_snapshot_id_from_fn name = Some s \<and> snapshot_id_from_str s = None"
proof -
  obtain dir f0 names where r: "ensure_snapshot_dir L c f = Inr (dir, f0)" "fs_read_dir L f0 dir = Inr names"
    "ids = sort_key snapshot_id_key (fst (scan_names names))" "invalid = sort (snd (scan_names names))" "f1 = f0"
    using assms(2) by (auto simp: load_snapshot_ids_def case_prod_beta Let_def)
  with snapshot_okD(6) [OF assms(1)] show "F f1 = F f" by (auto simp: ensure_snapshot_dir_def)
  show "sorted (map snapshot_id_key ids)" using r(3) by simp
  show "\<exists>s. extract_snapshot_id_from_fn name = Some s \<and> snapshot_id_from_str s = None" if "name \<in> set invalid"
    using that r(4) scan_names_invalid by simp
qed

lemma clean_tables:
  assumes snap: "snapshot_ok L C B F" and dir: "ensure_snapshot_dir L c f = Inr (d, f1)"
    and ids: "load_snapshot_ids L c f1 = Inr ((ids, invalid), f2)" and run: "clean_old_snapshots L c f = Inr f'"
  shows "F f' = (\<lambda>p. if p \<in> (\<lambda>name. snapshot_dir c @ ascii ''/'' @ name) ` set (take (length invalid - 2) invalid) \<or>
    p \<in> (\<lambda>i. snapshot_path c (snapshot_id_display i)) ` set (take (length ids - 3) ids) then None else F f p)"
proof -
  have d: "d = snapshot_dir c" "F f1 = F f" using dir snapshot_okD(6) [OF snap] by (auto simp: ensure_snapshot_dir_def)
  have "(if 2 < length invalid then take (length invalid - 2) invalid else []) = take (length invalid - 2) invalid" by simp
  with run dir ids obtain f3 where f3: "remove_files L f2 (map (\<lambda>name. d @ ascii ''/'' @ name) (take (length invalid - 2) invalid)) = Inr f3"
    "(if length ids \<le> 3 then Inr f3 else remove_files L f3
        (map (\<lambda>i. snapshot_path c (snapshot_id_display i)) (take (length ids - 3) ids))) = Inr f'"
    by (auto simp: clean_old_snapshots_def Let_def simp del: if_split split del: if_split)
  then have "remove_files L f3 (map (\<lambda>i. snapshot_path c (snapshot_id_display i)) (take (length ids - 3) ids)) = Inr f'"
    by (auto split: if_splits)
  from remove_files_tables [OF snap this] remove_files_tables [OF snap f3(1)] load_ids_props(1) [OF snap ids] d
  show ?thesis by (auto simp: fun_eq_iff)
qed

lemma log_id_key_eq [simp]: "log_id_key a = log_id_key b \<longleftrightarrow> a = b"
  by (cases a; cases b) (auto simp: log_id_key_def)

lemma snapshot_id_key_eq [simp]: "snapshot_id_key i = snapshot_id_key j \<longleftrightarrow> i = j"
proof -
  have "map_option log_id_key a = map_option log_id_key b \<longleftrightarrow> a = b" for a b
    by (cases a; cases b) auto
  then show ?thesis by (cases i; cases j) (auto simp: snapshot_id_key_def)
qed

text \<open>
  C24: Cleaning the snapshot directory removes every snapshot but the three with the greatest ids, and
  these are kept with their content.  The file of a snapshot that is still being written is never
  touched.  No two files of the directory have the same id.
\<close>

theorem clean_keeps_latest:
  assumes "snapshot_ok L C B F" "ensure_snapshot_dir L c f = Inr (d, f1)"
    and "load_snapshot_ids L c f1 = Inr ((ids, invalid), f2)" "distinct ids"
    and "clean_old_snapshots L c f = Inr f'"
  shows "(\<forall>i \<in> set (drop (length ids - 3) ids). F f' (snapshot_path c (snapshot_id_display i)) = F f (snapshot_path c (snapshot_id_display i))) \<and>
    (\<forall>i \<in> set (take (length ids - 3) ids). F f' (snapshot_path c (snapshot_id_display i)) = None \<and>
      (\<forall>j \<in> set (drop (length ids - 3) ids). snapshot_id_key i < snapshot_id_key j)) \<and>
    (\<forall>ts. F f' (d @ ascii ''/'' @ temp_snapshot_id ts) = F f (d @ ascii ''/'' @ temp_snapshot_id ts))"
proof (intro conjI ballI allI)
  let ?m = "length ids - 3"
  have d: "d = snapshot_dir c" using assms(2) by (auto simp: ensure_snapshot_dir_def)
  note F = clean_tables [OF assms(1,2,3,5)] and l = load_ids_props [OF assms(1,3)]
  have id: "snapshot_path c (snapshot_id_display i) \<noteq> snapshot_dir c @ ascii ''/'' @ name" if n: "name \<in> set invalid" for i name
    using l(3) [OF n] by (auto simp: snapshot_path_def snapshot_id_roundtrip)
  have parts: "set (take ?m ids) \<inter> set (drop ?m ids) = {}"
    using assms(4) by (metis append_take_drop_id distinct_append)
  show "F f' (snapshot_path c (snapshot_id_display i)) = F f (snapshot_path c (snapshot_id_display i))"
    if i: "i \<in> set (drop ?m ids)" for i
    using id [of _ i] parts i unfolding F by (auto dest: in_set_takeD)
  show "F f' (snapshot_path c (snapshot_id_display i)) = None" if "i \<in> set (take ?m ids)" for i
    using that unfolding F by auto
  have "sorted (map snapshot_id_key (take ?m ids @ drop ?m ids))" using l(2) by simp
  then show "snapshot_id_key i < snapshot_id_key j" if "i \<in> set (take ?m ids)" "j \<in> set (drop ?m ids)" for i j
    using that parts unfolding map_append sorted_append
    by (auto simp: order_less_le snapshot_id_key_eq)
  show "F f' (d @ ascii ''/'' @ temp_snapshot_id ts) = F f (d @ ascii ''/'' @ temp_snapshot_id ts)" for ts
    using l(3) [of "temp_snapshot_id ts"] temp_not_final [of ts] extract_temp [of ts] unfolding F d
    by (auto simp: snapshot_path_def dest!: in_set_takeD)
qed

definition cdemo_config :: snapshot_config where
  "cdemo_config = \<lparr>sc_data_version = ascii ''V004'', sc_raft_dir = ascii ''raft''\<rparr>"

definition cdemo_id :: "u64 \<Rightarrow> meta_snapshot_id" where
  "cdemo_id i = snapshot_id_new (Some (new_log_id 1 2 i)) 9"

definition cdemo_files :: mem_files where
  "cdemo_files = map (\<lambda>p. (snapshot_dir cdemo_config @ ascii ''/'' @ p, ([], [])))
    [snapshot_fn (snapshot_id_display (cdemo_id 4)), snapshot_fn (snapshot_id_display (cdemo_id 1)), temp_snapshot_id 7,
     snapshot_fn (snapshot_id_display (cdemo_id 3)), snapshot_fn (snapshot_id_display (cdemo_id 2))]"

lemma cdemo_clean:
  "ensure_snapshot_dir mem_snapshots cdemo_config cdemo_files = Inr (snapshot_dir cdemo_config, cdemo_files)"
  "load_snapshot_ids mem_snapshots cdemo_config cdemo_files = Inr (([cdemo_id 1, cdemo_id 2, cdemo_id 3, cdemo_id 4], []), cdemo_files)"
  "clean_old_snapshots mem_snapshots cdemo_config cdemo_files =
    Inr (filter (\<lambda>e. fst e \<noteq> snapshot_path cdemo_config (snapshot_id_display (cdemo_id 1))) cdemo_files)"
proof -
  show d: "ensure_snapshot_dir mem_snapshots cdemo_config cdemo_files = Inr (snapshot_dir cdemo_config, cdemo_files)"
    by (simp add: ensure_snapshot_dir_def mem_snapshots_def)
  have strip: "strip_prefix (a @ [c]) (a @ c # p) = Some p" for a p :: rstring and c
    using strip_prefix_append [of "a @ [c]" p] by simp
  have "fs_read_dir mem_snapshots cdemo_files (snapshot_dir cdemo_config) = Inr (map Some
    [snapshot_fn (snapshot_id_display (cdemo_id 4)), snapshot_fn (snapshot_id_display (cdemo_id 1)), temp_snapshot_id 7,
     snapshot_fn (snapshot_id_display (cdemo_id 3)), snapshot_fn (snapshot_id_display (cdemo_id 2))])"
    by (simp add: mem_snapshots_def cdemo_files_def mem_path_def strip)
  moreover have "snapshot_id_key (cdemo_id a) \<le> snapshot_id_key (cdemo_id b) \<longleftrightarrow> a \<le> b" for a b
    by (auto simp: cdemo_id_def snapshot_id_new_def snapshot_id_key_def log_id_key_def new_log_id_def)
  ultimately show ids: "load_snapshot_ids mem_snapshots cdemo_config cdemo_files = Inr (([cdemo_id 1, cdemo_id 2, cdemo_id 3, cdemo_id 4], []), cdemo_files)"
    by (simp add: load_snapshot_ids_def d snapshot_id_roundtrip word_le_nat_alt)
  show "clean_old_snapshots mem_snapshots cdemo_config cdemo_files =
    Inr (filter (\<lambda>e. fst e \<noteq> snapshot_path cdemo_config (snapshot_id_display (cdemo_id 1))) cdemo_files)"
    by (simp add: clean_old_snapshots_def d ids Let_def) (simp add: mem_snapshots_def)
qed

theorem clean_keeps_latest_witness:
  "snapshot_ok mem_snapshots at_content (\<lambda>w. snd (snd w)) mem_tables \<and>
   load_snapshot_ids mem_snapshots cdemo_config cdemo_files = Inr (([cdemo_id 1, cdemo_id 2, cdemo_id 3, cdemo_id 4], []), cdemo_files) \<and>
   (\<exists>f'. clean_old_snapshots mem_snapshots cdemo_config cdemo_files = Inr f' \<and>
     mem_tables f' (snapshot_path cdemo_config (snapshot_id_display (cdemo_id 1))) = None \<and>
     mem_tables f' (snapshot_path cdemo_config (snapshot_id_display (cdemo_id 2))) \<noteq> None \<and>
     mem_tables f' (snapshot_dir cdemo_config @ ascii ''/'' @ temp_snapshot_id 7) \<noteq> None)"
proof -
  have "distinct [cdemo_id 1, cdemo_id 2, cdemo_id 3, cdemo_id 4]"
    by (simp add: cdemo_id_def snapshot_id_new_def new_log_id_def)
  note clean_keeps_latest [OF mem_snapshots_ok cdemo_clean(1,2) this cdemo_clean(3)]
  moreover have "mem_tables cdemo_files (snapshot_path cdemo_config (snapshot_id_display (cdemo_id 2))) \<noteq> None"
    "mem_tables cdemo_files (snapshot_dir cdemo_config @ ascii ''/'' @ temp_snapshot_id 7) \<noteq> None"
    by (simp_all add: mem_tables_def cdemo_files_def snapshot_path_def)
  ultimately show ?thesis using mem_snapshots_ok cdemo_clean by simp
qed

section \<open>Building and installing\<close>

lemma build_snapshot_props:
  assumes libs: "libs_ok S VU VE C" and snap: "snapshot_ok L C B F"
    and ok: "store_ok S VU VE C n lm" and n: "n \<noteq> u64_max"
    and run: "do_build_snapshot S L c f n lm t ts = Inr ((meta, db), lm', n', f')"
  obtains counts where "n' = n + 1" "store_ok S VU VE C n' lm'" "lm_persisted lm' = Some db" "id_levels (lm_immutable lm') = []"
    "lm_curr_seq lm' = lm_curr_seq lm" "seen (user_keys S) C lm' = seen (user_keys S) C lm" "seen (expire_keys S) C lm' = seen (expire_keys S) C lm"
    "db_sys_data db = (lv_sys_data (lm_writable lm))\<lparr>key_counts := counts\<rparr>"
    "meta_last_log_id meta = last_applied (lv_sys_data (lm_writable lm))"
    "\<And>db2 p. C (db_rotbl db2) = C (db_rotbl db) \<Longrightarrow> db_sys_data db2 = db_sys_data db \<Longrightarrow>
      store_ok S VU VE C p (install_snapshot_v003 S db2) \<and> lm_curr_seq (install_snapshot_v003 S db2) = lm_curr_seq lm \<and>
      seen (user_keys S) C (install_snapshot_v003 S db2) = seen (user_keys S) C lm \<and>
      seen (expire_keys S) C (install_snapshot_v003 S db2) = seen (expire_keys S) C lm"
proof -
  obtain lm1 cp i sd strm f1 where r: "build_snapshot_start S n lm t = Inr (lm1, n', cp, i, sd, strm)"
    "build_snapshot_write L c f ts i sd strm = Inr (db, f1)" "replace_with_compacted lm1 cp db = Inr lm'"
    "meta_last_log_id meta = last_applied sd"
    using run by (auto simp: do_build_snapshot_def Let_def)
  note b = build_start_props [OF libs ok n r(1)]
  obtain counts where w: "no_error strm" "db_holds C db strm" "db_sys_data db = sd\<lparr>key_counts := counts\<rparr>"
    by (rule build_shows [OF libs snap ok n r(1,2)])
  obtain lm2 where rep: "replace_with_compacted lm1 cp db = Inr lm2" "store_ok S VU VE C n' lm2"
    "lm_writable lm2 = lm_writable lm1" "lm_persisted lm2 = Some db" "id_levels (lm_immutable lm2) = []"
    "\<And>k s. upto (data_versions VU (user_keys S) C (lm_immutable lm1) k) s \<Longrightarrow>
      value_of (lm_shown (user_keys S) C lm2 k s) = value_of (lm_shown (user_keys S) C lm1 k s)"
    "\<And>k s. upto (data_versions VE (expire_keys S) C (lm_immutable lm1) k) s \<Longrightarrow>
      value_of (lm_shown (expire_keys S) C lm2 k s) = value_of (lm_shown (expire_keys S) C lm1 k s)"
    using replace_store [OF libs b(2,6,4) w(1,2) b(5)] by metis
  have eq: "lm2 = lm'" using rep(1) r(3) by simp
  have seq: "lm_curr_seq lm' = lm_curr_seq lm" using rep(3) eq b(3) by (simp add: lm_curr_seq_def)
  have up: "upto (data_versions VU (user_keys S) C (lm_immutable lm1) k) (lm_curr_seq lm)"
    "upto (data_versions VE (expire_keys S) C (lm_immutable lm1) e) (lm_curr_seq lm)" for k e
    using upto_mono [OF store_okD(3) [OF b(2), of k]] upto_mono [OF store_okD(5) [OF b(2), of e]]
    by (simp_all add: lm_versions_def b(3))
  have seen: "seen (user_keys S) C lm' = seen (user_keys S) C lm" "seen (expire_keys S) C lm' = seen (expire_keys S) C lm"
    using rep(6) [OF up(1)] rep(7) [OF up(2)] by (simp_all add: seen_def fun_eq_iff seq eq b(9,10))
  have install: "store_ok S VU VE C p (install_snapshot_v003 S db2) \<and> lm_curr_seq (install_snapshot_v003 S db2) = lm_curr_seq lm \<and>
      seen (user_keys S) C (install_snapshot_v003 S db2) = seen (user_keys S) C lm \<and>
      seen (expire_keys S) C (install_snapshot_v003 S db2) = seen (expire_keys S) C lm"
    if p: "C (db_rotbl db2) = C (db_rotbl db)" "db_sys_data db2 = db_sys_data db" for db2 p
  proof -
    have "db_holds C db2 strm" "db_sys_data db2 = sd\<lparr>key_counts := counts\<rparr>" using w p by (simp_all add: db_holds_def)
    note s = content_shows [OF libs ok n r(1) w(1) this]
    have iseq: "lm_curr_seq (install_snapshot_v003 S db2) = lm_curr_seq lm" using s(4) by (simp add: lm_curr_seq_def curr_seq_def)
    have "seen (user_keys S) C (install_snapshot_v003 S db2) = seen (user_keys S) C lm"
      "seen (expire_keys S) C (install_snapshot_v003 S db2) = seen (expire_keys S) C lm"
      using s(1,2) by (simp_all add: seen_def fun_eq_iff iseq)
    with s(3) iseq show ?thesis by blast
  qed
  have "db_sys_data db = (lv_sys_data (lm_writable lm))\<lparr>key_counts := counts\<rparr>"
    "meta_last_log_id meta = last_applied (lv_sys_data (lm_writable lm))"
    using w(3) r(4) b(7) by simp_all
  then show thesis using that [OF b(1) rep(2,4,5) [unfolded eq] seq seen _ _ install] by blast
qed

lemma install_opens:
  assumes "snapshot_ok L C B F" "F g (db_path received) = Some (content, j)" "sys_of_json L j = Some sd"
    and "install_snapshot S L c g peer meta received = Inr (peer', g')"
  obtains db2 where "C (db_rotbl db2) = content" "db_sys_data db2 = sd" "peer' = do_install_snapshot S peer db2"
    "meta_snapshot_id (db_meta db2) = meta_snapshot_id meta" "F g' (snapshot_path c (meta_snapshot_id meta)) = Some (content, j)"
proof -
  let ?p = "snapshot_path c (meta_snapshot_id meta)"
  obtain db2 where r: "fs_rename L g (db_path received) ?p = Inr g'" "peer' = do_install_snapshot S peer db2"
    "open_snapshot L g' (snapshot_dir c) (snapshot_fn (meta_snapshot_id meta)) (meta_snapshot_id meta) = Inr db2"
    using assms(4) by (auto simp: install_snapshot_def move_to_final_path_def snapshot_path_def Let_def)
  have F: "F g' ?p = Some (content, j)" using snapshot_okD(7) [OF assms(1) r(1)] assms(2) by simp
  note o = open_snapshot_props [OF assms(1) r(3) F [unfolded snapshot_path_def] assms(3)]
  show thesis using that [OF o(1,2) r(2) _ F] o(5) by simp
qed

text \<open>
  C6: A snapshot carries the whole state.  The store that built it shows the same values as before.  A
  node that is behind, and that received a file with the content of the snapshot, moves it to its
  place and installs it; it then shows, for every key, what the builder showed, with the same last
  applied log id, membership, nodes and sequence number.  Reads of the installed store that do not
  fail return these values.
\<close>

theorem snapshot_installs_same:
  assumes "libs_ok S VU VE C" "snapshot_ok L C B F" "store_ok S VU VE C n lm" "n \<noteq> u64_max"
    and "do_build_snapshot S L c f n lm t ts = Inr ((meta, db), lm', n', f')"
    and "map_option log_id_key (last_applied (lv_sys_data (lm_writable peer))) < map_option log_id_key (last_applied (lv_sys_data (lm_writable lm)))"
    and "F g (db_path received) = Some (C (db_rotbl db), j)" "sys_of_json L j = Some (db_sys_data db)"
    and "install_snapshot S L c' g peer meta received = Inr (peer', g')"
  shows "store_ok S VU VE C n' lm' \<and> seen (user_keys S) C lm' = seen (user_keys S) C lm \<and>
    seen (expire_keys S) C lm' = seen (expire_keys S) C lm \<and>
    store_ok S VU VE C p peer' \<and> seen (user_keys S) C peer' = seen (user_keys S) C lm \<and>
    seen (expire_keys S) C peer' = seen (expire_keys S) C lm \<and>
    (\<exists>counts. lv_sys_data (lm_writable peer') = (lv_sys_data (lm_writable lm))\<lparr>key_counts := counts\<rparr>) \<and>
    (\<forall>k x. lm_get S (user_keys S) peer' k (lm_curr_seq peer') = Inr x \<longrightarrow> value_of x = seen (user_keys S) C lm k)"
proof -
  obtain counts where b: "store_ok S VU VE C n' lm'" "seen (user_keys S) C lm' = seen (user_keys S) C lm"
    "seen (expire_keys S) C lm' = seen (expire_keys S) C lm"
    "db_sys_data db = (lv_sys_data (lm_writable lm))\<lparr>key_counts := counts\<rparr>"
    "\<And>db2 p. C (db_rotbl db2) = C (db_rotbl db) \<Longrightarrow> db_sys_data db2 = db_sys_data db \<Longrightarrow>
      store_ok S VU VE C p (install_snapshot_v003 S db2) \<and> lm_curr_seq (install_snapshot_v003 S db2) = lm_curr_seq lm \<and>
      seen (user_keys S) C (install_snapshot_v003 S db2) = seen (user_keys S) C lm \<and>
      seen (expire_keys S) C (install_snapshot_v003 S db2) = seen (expire_keys S) C lm"
    by (rule build_snapshot_props [OF assms(1-5)]) blast
  obtain db2 where db2: "C (db_rotbl db2) = C (db_rotbl db)" "db_sys_data db2 = db_sys_data db"
    "peer' = do_install_snapshot S peer db2"
    by (rule install_opens [OF assms(2,7,8,9)]) blast
  have "peer' = install_snapshot_v003 S db2"
    using assms(6) b(4) db2(2,3) by (auto simp: do_install_snapshot_def Let_def)
  with b(4) db2(2) have p: "peer' = install_snapshot_v003 S db2"
    "lv_sys_data (lm_writable peer') = (lv_sys_data (lm_writable lm))\<lparr>key_counts := counts\<rparr>" by simp_all
  note i = b(5) [OF db2(1,2), of p, folded p(1)]
  have "value_of x = seen (user_keys S) C lm k" if "lm_get S (user_keys S) peer' k (lm_curr_seq peer') = Inr x" for k x
    using get_seen [OF assms(1) that] libs_okD(5) [OF assms(1)] i by simp
  with b(1-3) i p(2) show ?thesis by blast
qed

definition idemo_sys :: sys_data where
  "idemo_sys = sys_data_default\<lparr>last_applied := Some (new_log_id 1 2 5), sequence := 1\<rparr>"

definition idemo_level :: "((rstring, meta_value) vtable, (expire_key, rstring) vtable) level" where
  "idemo_level = \<lparr>lv_sys_data = idemo_sys, lv_kv = [sdemo_entry 1 5], lv_expire = []\<rparr>"

type_synonym mem_map = "((rstring, meta_value) vtable, (expire_key, rstring) vtable, disk_table) leveled_map"

definition idemo_map :: mem_map where
  "idemo_map = \<lparr>lm_writable = idemo_level, lm_immutable = immutable_data_new [] None\<rparr>"

definition idemo_levels where
  "idemo_levels = [sdemo_frozen 1 idemo_level]"

definition idemo_frozen :: mem_map where
  "idemo_frozen = \<lparr>lm_writable = \<lparr>lv_sys_data = idemo_sys\<lparr>data_seq := Some 1\<rparr>, lv_kv = [], lv_expire = []\<rparr>,
    lm_immutable = immutable_data_new idemo_levels None\<rparr>"

definition idemo_id :: meta_snapshot_id where
  "idemo_id = snapshot_id_new (Some (new_log_id 1 2 5)) 9"

definition idemo_text :: rstring where
  "idemo_text = [1, 1, 0, 0, 1, 1, 0, 0, 1, 1, 1, 2, 1, 5]"

definition idemo_db :: "disk_table db" where
  "idemo_db = \<lparr>db_storage_path = snapshot_dir cdemo_config, db_rel_path = snapshot_fn (snapshot_id_display idemo_id),
    db_meta = \<lparr>meta_last_log_id = Some (new_log_id 1 2 5), meta_last_membership = last_membership sys_data_default,
      meta_snapshot_id = snapshot_id_display idemo_id\<rparr>,
    db_sys_data = small_sys 1 None (Some (new_log_id 1 2 5)) (Some 1) None, db_rotbl = ([sdemo_stored], idemo_text)\<rparr>"

lemma idemo_store_ok: "store_ok mem_lib vt_versions vt_versions at_content 1 idemo_map"
proof -
  have "machine_ok mem_lib vt_versions vt_versions at_content sdemo1"
  proof -
    have "store_run mem_lib vt_versions vt_versions at_content sdemo_start ([] @ [Committed 1 (sdemo_set 1 5) None]) sdemo1"
      using store_step.committed [where S = mem_lib and C = at_content and m = sdemo_start, OF sdemo_step1]
      by (intro run_snoc [OF run_nil sdemo_event_ok(1)]) (simp add: sdemo1_def)
    from run_refines [OF this mem_lib_ok sdemo_machine_ok] show ?thesis by simp
  qed
  then have "store_ok mem_lib vt_versions vt_versions at_content 1 (mc_map sdemo1)"
    by (simp add: machine_ok_def sdemo1_def sdemo_start_def)
  then have "store_ok mem_lib vt_versions vt_versions at_content 1
    (lm_with_sys_data (mc_map sdemo1) (\<lambda>sd. sd\<lparr>last_applied := Some (new_log_id 1 2 5)\<rparr>))"
    by (rule sys_data_keeps(1) [OF _ _ mem_lib_ok]) (simp add: curr_seq_def)
  moreover have "lm_with_sys_data (mc_map sdemo1) (\<lambda>sd. sd\<lparr>last_applied := Some (new_log_id 1 2 5)\<rparr>) = idemo_map"
    by (simp add: lm_with_sys_data_def sdemo1_def sdemo_level_def idemo_map_def idemo_level_def idemo_sys_def sys_data_default_def)
  ultimately show ?thesis by simp
qed

lemma idemo_start: "build_snapshot_start mem_lib 1 idemo_map 9 =
    Inr (idemo_frozen, 2, \<lparr>cp_immutable_data = immutable_data_new idemo_levels None\<rparr>, idemo_id, idemo_sys, [Inr sdemo_stored])"
proof -
  have f: "do_freeze_writable mem_lib 1 idemo_map = Inr (idemo_frozen, 2)"
    by (simp add: idemo_map_def idemo_level_def idemo_frozen_def idemo_levels_def idemo_sys_def sdemo_frozen_def do_freeze_writable_def
        new_level_def immutable_new_def levels_insert_def newest_level_index_def
        level_index_default_def less_level_index_def curr_seq_def incr_data_seq_def level_default_def sys_data_default_def
        immutable_data_new_def Let_def)
  have u: "levels_range vt_lib lv_kv idemo_levels (Included [], Unbounded) u64_max = [Inr (sdemo_entry 1 5)]"
    by (simp add: levels_range_def idemo_levels_def sdemo_frozen_def idemo_level_def newest_to_oldest_def immutable_range_def
        vt_range_def mem_keys_def sdemo_entry_def vt_coalesce_def in_range_def vt_get_def vt_seen_def)
  have e: "levels_range vt_lib lv_expire idemo_levels (Included (ExpireKey 0 0), Unbounded) u64_max = []"
    by (simp add: levels_range_def idemo_levels_def sdemo_frozen_def idemo_level_def newest_to_oldest_def immutable_range_def
        vt_range_def mem_keys_def vt_coalesce_def)
  have "newest idemo_levels = Some (snd (sdemo_frozen 1 idemo_level))"
    by (simp add: idemo_levels_def newest_def newest_to_oldest_def)
  then have "compact_into_stream mem_lib (immutable_data_new idemo_levels None) = Inr (idemo_sys, [Inr sdemo_stored])"
    by (simp add: compact_into_stream_def Let_def u e sdemo_encode at_lib_def sdemo_stored_def)
      (simp add: sdemo_frozen_def idemo_level_def)
  moreover have "lm_immutable idemo_frozen = immutable_data_new idemo_levels None" by (simp add: idemo_frozen_def)
  moreover have "last_applied idemo_sys = Some (new_log_id 1 2 5)" by (simp add: idemo_sys_def)
  ultimately show ?thesis by (simp add: build_snapshot_start_def f new_compactor_def idemo_id_def)
qed

definition idemo_table :: disk_table where
  "idemo_table = ([sdemo_stored], idemo_text)"

definition idemo_files :: mem_files where
  "idemo_files = [(snapshot_path cdemo_config (snapshot_id_display idemo_id), idemo_table)]"

lemma idemo_sys_small:
  "idemo_sys\<lparr>key_counts := Map.empty(user_key_prefix \<mapsto> 1)\<rparr> = small_sys 1 None (Some (new_log_id 1 2 5)) (Some 1) None"
proof -
  have "user_key_prefix \<noteq> expire_key_prefix" by (simp add: user_key_prefix_def expire_key_prefix_def)
  then show ?thesis by (auto simp: idemo_sys_def small_sys_def fun_eq_iff sys_data_default_def)
qed

lemma idemo_json: "sys_text (db_sys_data idemo_db) = Some idemo_text" "text_sys idemo_text = Some (db_sys_data idemo_db)"
proof -
  have "user_key_prefix \<noteq> expire_key_prefix" by (simp add: user_key_prefix_def expire_key_prefix_def)
  then have "sequence (db_sys_data idemo_db) = 1" "data_seq (db_sys_data idemo_db) = None"
    "last_applied (db_sys_data idemo_db) = Some (new_log_id 1 2 5)" "key_counts (db_sys_data idemo_db) user_key_prefix = Some 1"
    "key_counts (db_sys_data idemo_db) expire_key_prefix = None"
    "db_sys_data idemo_db = small_sys 1 None (Some (new_log_id 1 2 5)) (Some 1) None"
    by (simp_all add: idemo_db_def) (simp_all add: small_sys_def sys_data_default_def)
  then show "sys_text (db_sys_data idemo_db) = Some idemo_text"
    unfolding sys_text_def by (simp only: if_True) (simp add: idemo_text_def new_log_id_def)
  show "text_sys idemo_text = Some (db_sys_data idemo_db)" by (simp add: idemo_text_def idemo_db_def)
qed

lemma idemo_open: "open_snapshot mem_snapshots idemo_files (snapshot_dir cdemo_config) (snapshot_fn (snapshot_id_display idemo_id))
    (snapshot_id_display idemo_id) = Inr idemo_db"
proof -
  have "last_applied (db_sys_data idemo_db) = Some (new_log_id 1 2 5)" "last_membership (db_sys_data idemo_db) = last_membership sys_data_default"
    by (simp_all add: idemo_db_def small_sys_def)
  then show ?thesis
    by (simp add: open_snapshot_def mem_snapshots_def mem_path_def idemo_files_def snapshot_path_def db_new_def ok_or_def
        idemo_table_def idemo_json) (simp add: idemo_db_def)
qed

lemma idemo_writes:
  "write_kv mem_snapshots cdemo_config [] (snapshot_dir cdemo_config, temp_snapshot_id 7, [])
    [Data sdemo_stored, Finish (idemo_id, db_sys_data idemo_db)] = Inr (idemo_db, idemo_files)"
proof -
  let ?sd = "db_sys_data idemo_db"
  have "write_kv mem_snapshots cdemo_config [] (snapshot_dir cdemo_config, temp_snapshot_id 7, []) [Data sdemo_stored, Finish (idemo_id, ?sd)] =
    commit_to_snapshot_store mem_snapshots cdemo_config [] (snapshot_dir cdemo_config, temp_snapshot_id 7, [sdemo_stored]) idemo_id ?sd"
    by (simp add: sdemo_stored_def) (simp add: mem_snapshots_def)
  moreover have "db_builder_commit mem_snapshots [] (snapshot_dir cdemo_config, temp_snapshot_id 7, [sdemo_stored]) ?sd =
    Inr ((temp_snapshot_id 7, idemo_table), [(mem_path (snapshot_dir cdemo_config) (temp_snapshot_id 7), idemo_table)])"
    by (simp add: db_builder_commit_def mem_snapshots_def idemo_json ok_or_def idemo_table_def)
  moreover have "move_to_final_path mem_snapshots cdemo_config [(mem_path (snapshot_dir cdemo_config) (temp_snapshot_id 7), idemo_table)]
      (snapshot_dir cdemo_config @ ascii ''/'' @ temp_snapshot_id 7) (snapshot_id_display idemo_id) =
    Inr ((snapshot_dir cdemo_config, snapshot_fn (snapshot_id_display idemo_id)), idemo_files)"
    by (simp add: move_to_final_path_def mem_snapshots_def mem_path_def Let_def idemo_files_def snapshot_path_def)
  moreover have "builder_storage_path mem_snapshots = fst" by (simp add: mem_snapshots_def)
  ultimately show ?thesis by (simp add: commit_to_snapshot_store_def Let_def idemo_open)
qed

lemma idemo_write: "build_snapshot_write mem_snapshots cdemo_config [] 7 idemo_id idemo_sys [Inr sdemo_stored] = Inr (idemo_db, idemo_files)"
proof -
  have send: "send_entries [Inr sdemo_stored] Map.empty = Inr ([Data sdemo_stored], Map.empty(user_key_prefix \<mapsto> 1))"
    using key_space_prefix [of user_key_prefix user_key_encode "[97]"] by (simp add: sdemo_stored_def count_key_def user_key_prefix_def)
  have ens: "ensure_snapshot_dir mem_snapshots cdemo_config [] = Inr (snapshot_dir cdemo_config, [])"
    by (simp add: ensure_snapshot_dir_def mem_snapshots_def)
  have w: "writer_new mem_snapshots cdemo_config [] 7 = Inr ((snapshot_dir cdemo_config, temp_snapshot_id 7, []), [])"
    by (simp add: writer_new_def mem_snapshots_def)
  have sd: "idemo_sys\<lparr>key_counts := Map.empty(user_key_prefix \<mapsto> 1)\<rparr> = db_sys_data idemo_db"
    using idemo_sys_small by (simp add: idemo_db_def)
  show ?thesis by (simp add: build_snapshot_write_def ens w send sd idemo_writes)
qed

definition idemo_meta :: snapshot_meta where
  "idemo_meta = \<lparr>meta_last_log_id = Some (new_log_id 1 2 5), meta_last_membership = last_membership sys_data_default,
    meta_snapshot_id = snapshot_id_display idemo_id\<rparr>"

lemma idemo_build:
  "\<exists>lm'. do_build_snapshot mem_lib mem_snapshots cdemo_config [] 1 idemo_map 9 7 = Inr ((idemo_meta, idemo_db), lm', 2, idemo_files)"
proof -
  have sys: "last_applied idemo_sys = Some (new_log_id 1 2 5)" "last_membership idemo_sys = last_membership sys_data_default"
    by (simp_all add: idemo_sys_def)
  have rep: "\<exists>lm'. replace_with_compacted idemo_frozen \<lparr>cp_immutable_data = immutable_data_new idemo_levels None\<rparr> idemo_db = Inr lm'"
    by (simp add: replace_with_compacted_def idemo_frozen_def idemo_levels_def newest_level_index_def newest_def newest_to_oldest_def
        remove_levels_upto_def less_level_index_def sdemo_frozen_def)
  have strip: "strip_prefix (a @ [c]) (a @ c # p) = Some p" for a p :: rstring and c
    using strip_prefix_append [of "a @ [c]" p] by simp
  have d: "ensure_snapshot_dir mem_snapshots cdemo_config idemo_files = Inr (snapshot_dir cdemo_config, idemo_files)"
    by (simp add: ensure_snapshot_dir_def mem_snapshots_def)
  have "fs_read_dir mem_snapshots idemo_files (snapshot_dir cdemo_config) = Inr [Some (snapshot_fn (snapshot_id_display idemo_id))]"
    by (simp add: mem_snapshots_def idemo_files_def mem_path_def snapshot_path_def strip)
  then have "load_snapshot_ids mem_snapshots cdemo_config idemo_files = Inr (([idemo_id], []), idemo_files)"
    by (simp add: load_snapshot_ids_def d snapshot_id_roundtrip)
  then have "clean_old_snapshots mem_snapshots cdemo_config idemo_files = Inr idemo_files"
    by (simp add: clean_old_snapshots_def d)
  with rep show ?thesis
    by (auto simp: do_build_snapshot_def idemo_start idemo_write Let_def idemo_meta_def sys)
qed

definition idemo_received :: "disk_table db" where
  "idemo_received = idemo_db\<lparr>db_storage_path := snapshot_dir cdemo_config, db_rel_path := temp_snapshot_id 3\<rparr>"

definition idemo_peer_files :: mem_files where
  "idemo_peer_files = [(db_path idemo_received, idemo_table)]"

lemma idemo_install:
  "install_snapshot mem_lib mem_snapshots cdemo_config idemo_peer_files (leveled_map_default mem_lib) idemo_meta idemo_received =
    Inr (do_install_snapshot mem_lib (leveled_map_default mem_lib) idemo_db, idemo_files)"
proof -
  have "move_to_final_path mem_snapshots cdemo_config idemo_peer_files (db_path idemo_received) (snapshot_id_display idemo_id) =
    Inr ((snapshot_dir cdemo_config, snapshot_fn (snapshot_id_display idemo_id)), idemo_files)"
    by (simp add: move_to_final_path_def mem_snapshots_def Let_def idemo_files_def snapshot_path_def idemo_peer_files_def)
  then show ?thesis by (simp add: install_snapshot_def idemo_meta_def idemo_open)
qed

theorem snapshot_installs_same_witness:
  "libs_ok mem_lib vt_versions vt_versions at_content \<and> snapshot_ok mem_snapshots at_content (\<lambda>w. snd (snd w)) mem_tables \<and>
   store_ok mem_lib vt_versions vt_versions at_content 1 idemo_map \<and>
   (\<exists>lm'. do_build_snapshot mem_lib mem_snapshots cdemo_config [] 1 idemo_map 9 7 = Inr ((idemo_meta, idemo_db), lm', 2, idemo_files) \<and>
     seen (user_keys mem_lib) at_content lm' = seen (user_keys mem_lib) at_content idemo_map) \<and>
   (\<exists>peer'. install_snapshot mem_lib mem_snapshots cdemo_config idemo_peer_files (leveled_map_default mem_lib) idemo_meta idemo_received =
       Inr (peer', idemo_files) \<and>
     seen (user_keys mem_lib) at_content peer' = seen (user_keys mem_lib) at_content idemo_map)"
proof -
  obtain lm' where b: "do_build_snapshot mem_lib mem_snapshots cdemo_config [] 1 idemo_map 9 7 = Inr ((idemo_meta, idemo_db), lm', 2, idemo_files)"
    using idemo_build by blast
  have n: "(1 :: u64) \<noteq> u64_max" by (simp add: u64_max_numeral)
  have less: "map_option log_id_key (last_applied (lv_sys_data (lm_writable (leveled_map_default mem_lib)))) <
      map_option log_id_key (last_applied (lv_sys_data (lm_writable idemo_map)))"
    by (simp add: leveled_map_default_def level_default_def sys_data_default_def idemo_map_def idemo_level_def idemo_sys_def)
  have content: "mem_tables idemo_peer_files (db_path idemo_received) = Some (at_content (db_rotbl idemo_db), idemo_text)"
    "sys_of_json mem_snapshots idemo_text = Some (db_sys_data idemo_db)"
    by (simp_all add: mem_tables_def idemo_peer_files_def idemo_table_def idemo_db_def mem_snapshots_def idemo_json)
  note snapshot_installs_same [OF mem_lib_ok mem_snapshots_ok idemo_store_ok n b less content idemo_install]
  with mem_lib_ok mem_snapshots_ok idemo_store_ok b idemo_install show ?thesis by blast
qed

end
