(* ===== verification/Snapshot_Transfer.thy ===== *)
theory Snapshot_Transfer
  imports Snapshot
begin

text \<open>
  Sending a snapshot to another node and receiving it (\<open>network.rs\<close>, \<open>raft_service_impl.rs\<close>,
  \<open>receiver_v003.rs\<close>, \<open>snapshot_store_v003.rs\<close>, \<open>snapshot_chunk_request_ext.rs\<close>).  The third protocol
  sends the bytes of the file in chunks, the fourth one sends the entries.

  Files, JSON and the conversions of the crate \<open>seq_marked\<close> are library code: \<open>transfer_lib\<close>, over the
  state \<open>'f\<close> of the file system, files open for reading \<open>'h\<close> and files open for writing \<open>'o\<close>.  A
  replication can be cancelled and the other side can close its end at any time: \<open>cancel i\<close> holds when
  the \<open>i\<close>-th message is not sent because of the first, \<open>accept i\<close> holds when it is taken by the channel.
\<close>

record ('f, 'h, 'o) transfer_lib =
  open_file :: "'f \<Rightarrow> rstring \<Rightarrow> 'h io_result"
  file_read :: "'h \<Rightarrow> nat \<Rightarrow> (bytes \<times> 'h) io_result"
  file_create_new :: "'f \<Rightarrow> rstring \<Rightarrow> ('o \<times> 'f) io_result"
  file_write_all :: "'o \<Rightarrow> bytes \<Rightarrow> 'o io_result"
  file_sync_all :: "'f \<Rightarrow> 'o \<Rightarrow> 'f io_result"
  json_of_end :: "rstring \<times> vote \<times> snapshot_meta \<Rightarrow> rstring option"
  end_of_json :: "rstring \<Rightarrow> (rstring \<times> vote \<times> snapshot_meta) option"
  data_of_marked :: "bytes seq_marked \<Rightarrow> bytes seq_data option"
  seqv_of_data :: "meta_value seq_data \<Rightarrow> bytes seqv"
  marked_of_seqv :: "bytes seqv \<Rightarrow> meta_value seq_marked"

section \<open>Chunks of a file\<close>

record snapshot_chunk_request =
  rpc_meta :: "rstring option"
  chunk :: bytes

text \<open>\<open>None\<close> is the panic of \<open>unwrap\<close>.\<close>

definition new_end_chunk ::
  "('f, 'h, 'o) transfer_lib \<Rightarrow> vote \<Rightarrow> snapshot_meta \<Rightarrow> snapshot_chunk_request option" where
  "new_end_chunk T v snapshot_meta =
    map_option (\<lambda>j. \<lparr>rpc_meta = Some j, chunk = []\<rparr>) (json_of_end T (ascii ''rotbl::v001'', v, snapshot_meta))"

definition new_chunk :: "bytes \<Rightarrow> snapshot_chunk_request" where
  "new_chunk b = \<lparr>rpc_meta = None, chunk = b\<rparr>"

datatype streaming_error = ReplicationClosed | ReadSnapshot io_error | StreamUnreachable | StreamPanicked

text \<open>The inner loop: read until the buffer of \<open>n\<close> bytes is full or the file ends.\<close>

function fill_buf :: "('f, 'h, 'o) transfer_lib \<Rightarrow> nat \<Rightarrow> 'h \<Rightarrow> bytes \<Rightarrow> (bytes \<times> 'h) io_result" where
  "fill_buf T n h buf =
    (if length buf < n then
       rbind (file_read T h (n - length buf)) (\<lambda>(b, h').
         if b = [] then Inr (buf, h') else fill_buf T n h' (buf @ b))
     else Inr (buf, h))"
  by pat_completeness auto
termination
  by (relation "measure (\<lambda>(T, n, h, buf). n - length buf)") (auto intro!: diff_less_mono2)

declare fill_buf.simps [simp del]

text \<open>
  The outer loop, with the chunks sent so far; \<open>True\<close> when the whole file was sent, \<open>False\<close> when the
  other side closed its end.  The value \<open>None\<close> is a loop that does not end.
\<close>

partial_function (option) chunk_loop ::
  "('f, 'h, 'o) transfer_lib \<Rightarrow> (nat \<Rightarrow> bool) \<Rightarrow> (nat \<Rightarrow> bool) \<Rightarrow> nat \<Rightarrow> nat \<Rightarrow> 'h \<Rightarrow> snapshot_chunk_request list \<Rightarrow>
   (snapshot_chunk_request list \<times> (streaming_error + bool)) option" where
  "chunk_loop T cancel accept n i h out =
    (if cancel i then Some (out, Inl ReplicationClosed)
     else
       case fill_buf T n h [] of
         Inl e \<Rightarrow> Some (out, Inl (ReadSnapshot e))
       | Inr (b, h') \<Rightarrow>
           if b = [] then Some (out, Inr True)
           else if \<not> accept i then Some (out, Inr False)
           else chunk_loop T cancel accept n (Suc i) h' (out @ [new_chunk b]))"

definition snapshot_chunk_stream_v003 ::
  "('f, 'h, 'o) transfer_lib \<Rightarrow> 'f \<Rightarrow> (nat \<Rightarrow> bool) \<Rightarrow> (nat \<Rightarrow> bool) \<Rightarrow> nat option \<Rightarrow> vote \<Rightarrow> snapshot_meta \<Rightarrow> 'r db \<Rightarrow>
   (snapshot_chunk_request list \<times> (streaming_error + unit)) option" where
  "snapshot_chunk_stream_v003 T f cancel accept chunk_size v meta db =
    (let n = (case chunk_size of Some c \<Rightarrow> c | None \<Rightarrow> 1024 * 1024) in
     case open_file T f (db_path db) of
       Inl e \<Rightarrow> Some ([], Inl (ReadSnapshot e))
     | Inr h \<Rightarrow>
         (case chunk_loop T cancel accept n 0 h [] of
            None \<Rightarrow> None
          | Some (out, Inl e) \<Rightarrow> Some (out, Inl e)
          | Some (out, Inr False) \<Rightarrow> Some (out, Inr ())
          | Some (out, Inr True) \<Rightarrow>
              (case new_end_chunk T v meta of
                 None \<Rightarrow> Some (out, Inl StreamPanicked)
               | Some c \<Rightarrow> Some (if accept (length out) then out @ [c] else out, Inr ()))))"

section \<open>Receiving chunks\<close>

record received =
  rc_format :: rstring
  rc_vote :: vote
  rc_snapshot_meta :: snapshot_meta
  rc_storage_path :: rstring
  rc_temp_rel_path :: rstring
  rc_n_received :: nat
  rc_size_received :: nat

record 'o receiver =
  rv_storage_path :: rstring
  rv_temp_rel_path :: rstring
  rv_temp_file :: "'o option"
  rv_n_received :: nat
  rv_size_received :: nat

definition receiver_new :: "rstring \<Rightarrow> rstring \<Rightarrow> 'o \<Rightarrow> 'o receiver" where
  "receiver_new storage_path temp_rel_path temp_f =
    \<lparr>rv_storage_path = storage_path, rv_temp_rel_path = temp_rel_path, rv_temp_file = Some temp_f,
     rv_n_received = 0, rv_size_received = 0\<rparr>"

definition new_receiver ::
  "('f, 'w, 'r) snapshot_lib \<Rightarrow> ('f, 'h, 'o) transfer_lib \<Rightarrow> snapshot_config \<Rightarrow> 'f \<Rightarrow> nat \<Rightarrow> ('o receiver \<times> 'f) io_result" where
  "new_receiver L T c f ts =
    rbind (ensure_snapshot_dir L c f) (\<lambda>(d, f1).
      let storage_path = snapshot_dir c; temp_rel_path = temp_snapshot_id ts in
      rbind (file_create_new T f1 (storage_path @ ascii ''/'' @ temp_rel_path)) (\<lambda>(o', f2).
        Inr (receiver_new storage_path temp_rel_path o', f2)))"

definition update_stat :: "snapshot_chunk_request \<Rightarrow> 'o receiver \<Rightarrow> 'o receiver" where
  "update_stat ch r =
    r\<lparr>rv_n_received := rv_n_received r + 1, rv_size_received := rv_size_received r + length (chunk ch)\<rparr>"

text \<open>\<open>Inl\<close> is text that cannot be read.\<close>

definition load_finish_chunk ::
  "('f, 'h, 'o) transfer_lib \<Rightarrow> snapshot_chunk_request \<Rightarrow> (rstring \<times> vote \<times> snapshot_meta) option io_result" where
  "load_finish_chunk T ch =
    (case rpc_meta ch of
       None \<Rightarrow> Inr None
     | Some meta \<Rightarrow> rmap Some (ok_or InvalidInput (end_of_json T meta)))"

definition receive ::
  "('f, 'h, 'o) transfer_lib \<Rightarrow> 'f \<Rightarrow> 'o receiver \<Rightarrow> snapshot_chunk_request \<Rightarrow> (received option \<times> 'o receiver \<times> 'f) io_result" where
  "receive T f r ch =
    (let r1 = update_stat ch r in
     rbind (ok_or InvalidInput (rv_temp_file r1)) (\<lambda>temp.
     rbind (file_write_all T temp (chunk ch)) (\<lambda>temp1.
     rbind (load_finish_chunk T ch) (\<lambda>fin.
       case fin of
         None \<Rightarrow> Inr (None, r1\<lparr>rv_temp_file := Some temp1\<rparr>, f)
       | Some (fmt, v, snapshot_meta) \<Rightarrow>
           if fmt \<noteq> ascii ''rotbl::v001'' then Inl InvalidInput
           else
             rbind (file_sync_all T f temp1) (\<lambda>f1.
               Inr (Some \<lparr>rc_format = fmt, rc_vote = v, rc_snapshot_meta = snapshot_meta,
                      rc_storage_path = rv_storage_path r1, rc_temp_rel_path = rv_temp_rel_path r1,
                      rc_n_received = rv_n_received r1, rc_size_received = rv_size_received r1\<rparr>,
                    r1\<lparr>rv_temp_file := None\<rparr>, f1))))))"

text \<open>
  The receiving thread on the chunks that its channel delivers until it is closed.  The inner error
  is a stream that ended before it was complete.
\<close>

fun receiving_thread ::
  "('f, 'h, 'o) transfer_lib \<Rightarrow> 'f \<Rightarrow> 'o receiver \<Rightarrow> snapshot_chunk_request list \<Rightarrow> ((io_error + received) \<times> 'f) io_result" where
  "receiving_thread T f r [] = Inr (Inl UnexpectedEof, f)"
| "receiving_thread T f r (ch # rest) =
    rbind (receive T f r ch) (\<lambda>(res, r', f').
      case res of
        Some x \<Rightarrow> Inr (Inr x, f')
      | None \<Rightarrow> receiving_thread T f' r' rest)"

datatype grpc_status = StatusInternal | StatusInvalidArgument | StatusIo

definition receive_binary_snapshot ::
  "('f, 'w, 'r) snapshot_lib \<Rightarrow> ('f, 'h, 'o) transfer_lib \<Rightarrow> snapshot_config \<Rightarrow> 'f \<Rightarrow> nat \<Rightarrow> snapshot_chunk_request list \<Rightarrow>
   grpc_status + (received \<times> 'f)" where
  "receive_binary_snapshot L T c f ts chunks =
    (case new_receiver L T c f ts of
       Inl e \<Rightarrow> Inl StatusIo
     | Inr (r, f1) \<Rightarrow>
         (case receiving_thread T f1 r chunks of
            Inl e \<Rightarrow> Inl StatusIo
          | Inr (Inl e, f2) \<Rightarrow> Inl StatusInvalidArgument
          | Inr (Inr x, f2) \<Rightarrow> Inr (x, f2)))"

text \<open>\<open>do_install_snapshot_v003\<close> up to the call of \<open>install_full_snapshot\<close> of openraft.\<close>

definition do_install_snapshot_v003 ::
  "('f, 'w, 'r) snapshot_lib \<Rightarrow> ('f, 'h, 'o) transfer_lib \<Rightarrow> snapshot_config \<Rightarrow> 'f \<Rightarrow> nat \<Rightarrow> snapshot_chunk_request list \<Rightarrow>
   grpc_status + ((vote \<times> snapshot_meta \<times> 'r db) \<times> 'f)" where
  "do_install_snapshot_v003 L T c f ts chunks =
    rbind (receive_binary_snapshot L T c f ts chunks) (\<lambda>(x, f1).
      case open_snapshot L f1 (rc_storage_path x) (rc_temp_rel_path x) (meta_snapshot_id (rc_snapshot_meta x)) of
        Inl e \<Rightarrow> Inl StatusInternal
      | Inr db \<Rightarrow> Inr ((rc_vote x, rc_snapshot_meta x, db), f1))"

section \<open>Entries\<close>

record pb_commit =
  cm_snapshot_id :: rstring
  cm_sys_data :: rstring
  cm_vote :: "pb_vote option"

record install_entry =
  ie_version :: nat
  ie_key_values :: "stream_item list"
  ie_commit :: "pb_commit option"

text \<open>One entry of the table as an item of the stream; tombstones are left out.\<close>

definition entry_item ::
  "('f, 'h, 'o) transfer_lib \<Rightarrow> value_lib \<Rightarrow> rstring \<times> bytes seq_marked \<Rightarrow> stream_item option io_result" where
  "entry_item T V kv =
    (case data_of_marked T (snd kv) of
       None \<Rightarrow> Inr None
     | Some d \<Rightarrow>
         rmap (\<lambda>d'. Some (stream_item_new (fst kv) (Some (seqv_to_pb (seqv_of_data T d')))))
           (seq_data_decode V d))"

text \<open>\<open>try_filter_map\<close> and \<open>try_chunks\<close>: an error ends the stream and drops the unfinished chunk.\<close>

fun entry_chunks ::
  "('f, 'h, 'o) transfer_lib \<Rightarrow> value_lib \<Rightarrow> nat \<Rightarrow> rotbl_item list \<Rightarrow> stream_item list \<Rightarrow> stream_item list list \<times> io_error option" where
  "entry_chunks T V n [] buf = (if buf = [] then [] else [buf], None)"
| "entry_chunks T V n (Inl e # rest) buf = ([], Some e)"
| "entry_chunks T V n (Inr kv # rest) buf =
    (case entry_item T V kv of
       Inl e \<Rightarrow> ([], Some e)
     | Inr None \<Rightarrow> entry_chunks T V n rest buf
     | Inr (Some item) \<Rightarrow>
         let buf' = buf @ [item] in
         if length buf' < n then entry_chunks T V n rest buf'
         else (let (cs, e) = entry_chunks T V n rest [] in (buf' # cs, e)))"

fun send_chunks ::
  "(nat \<Rightarrow> bool) \<Rightarrow> (nat \<Rightarrow> bool) \<Rightarrow> nat \<Rightarrow> stream_item list list \<Rightarrow> install_entry list \<times> (streaming_error + bool)" where
  "send_chunks cancel accept i [] = ([], Inr True)"
| "send_chunks cancel accept i (c # cs) =
    (if cancel i then ([], Inl ReplicationClosed)
     else if \<not> accept i then ([], Inr False)
     else (let (out, r) = send_chunks cancel accept (Suc i) cs
           in (\<lparr>ie_version = 4, ie_key_values = c, ie_commit = None\<rparr> # out, r)))"

definition send_snapshot_in_stream_v004 ::
  "('f, 'w, 'r) snapshot_lib \<Rightarrow> ('f, 'h, 'o) transfer_lib \<Rightarrow> ('a, 'b, 'r) store_lib \<Rightarrow> (nat \<Rightarrow> bool) \<Rightarrow> (nat \<Rightarrow> bool) \<Rightarrow>
   vote \<Rightarrow> snapshot_meta \<Rightarrow> 'r db \<Rightarrow> install_entry list \<times> (streaming_error + unit)" where
  "send_snapshot_in_stream_v004 L T S cancel accept v meta db =
    (let (chunks, failed) = entry_chunks T (sl_value S) 64 (db_inner_range (sl_rotbl S) db) [];
         (out, r) = send_chunks cancel accept 0 chunks in
     case r of
       Inl e \<Rightarrow> (out, Inl e)
     | Inr False \<Rightarrow> (out, Inr ())
     | Inr True \<Rightarrow>
         (case failed of
            Some e \<Rightarrow> (out, Inl (ReadSnapshot e))
          | None \<Rightarrow>
              (case json_of_sys L (db_sys_data db) of
                 None \<Rightarrow> (out, Inl (ReadSnapshot InvalidData))
               | Some sys_data_json \<Rightarrow>
                   let fin = \<lparr>ie_version = 4, ie_key_values = [],
                     ie_commit = Some \<lparr>cm_snapshot_id = meta_snapshot_id meta, cm_sys_data = sys_data_json,
                       cm_vote = Some (vote_to_pb v)\<rparr>\<rparr>
                   in (if accept (length out) then out @ [fin] else out, Inr ()))))"

text \<open>What is sent to the writer for the items of one message.\<close>

fun receive_items ::
  "('f, 'h, 'o) transfer_lib \<Rightarrow> value_lib \<Rightarrow> stream_item list \<Rightarrow> grpc_status + write_entry list" where
  "receive_items T V [] = Inr []"
| "receive_items T V (kv # rest) =
    (case si_value kv of
       None \<Rightarrow> receive_items T V rest
     | Some pb_seq_v \<Rightarrow>
         (case seq_marked_encode V (marked_of_seqv T (seqv_from_pb pb_seq_v)) of
            Inl e \<Rightarrow> Inl StatusInternal
          | Inr m \<Rightarrow> rmap ((#) (Data (si_key kv, m))) (receive_items T V rest)))"

text \<open>The loop over the messages, until one carries a commit; \<open>Inl\<close> is an error of the transport.\<close>

fun receive_messages ::
  "('f, 'h, 'o) transfer_lib \<Rightarrow> value_lib \<Rightarrow> (unit + install_entry) list \<Rightarrow> grpc_status + (write_entry list \<times> pb_commit option)" where
  "receive_messages T V [] = Inr ([], None)"
| "receive_messages T V (Inl e # rest) = Inl StatusInternal"
| "receive_messages T V (Inr ent # rest) =
    rbind (receive_items T V (ie_key_values ent)) (\<lambda>es.
      case ie_commit ent of
        Some c \<Rightarrow> Inr (es, Some c)
      | None \<Rightarrow> rmap (\<lambda>(es', c). (es @ es', c)) (receive_messages T V rest))"

text \<open>\<open>do_install_snapshot_v004\<close> up to the call of \<open>install_full_snapshot\<close> of openraft.\<close>

definition do_install_snapshot_v004 ::
  "('f, 'w, 'r) snapshot_lib \<Rightarrow> ('f, 'h, 'o) transfer_lib \<Rightarrow> value_lib \<Rightarrow> snapshot_config \<Rightarrow> 'f \<Rightarrow> nat \<Rightarrow> (unit + install_entry) list \<Rightarrow>
   grpc_status + ((vote \<times> snapshot_meta \<times> 'r db) \<times> 'f)" where
  "do_install_snapshot_v004 L T V c f ts msgs =
    (case writer_new L c f ts of
       Inl e \<Rightarrow> Inl StatusInternal
     | Inr (w, f1) \<Rightarrow>
         rbind (receive_messages T V msgs) (\<lambda>(es, commit).
         rbind (ok_or StatusInvalidArgument commit) (\<lambda>cm.
         rbind (ok_or StatusInvalidArgument (cm_vote cm)) (\<lambda>pb_vote.
         rbind (ok_or StatusInvalidArgument (sys_of_json L (cm_sys_data cm))) (\<lambda>sys_data.
         rbind (ok_or StatusInvalidArgument (snapshot_id_from_str (cm_snapshot_id cm))) (\<lambda>snapshot_id.
           case write_kv L c f1 w (es @ [Finish (snapshot_id, sys_data)]) of
             Inl e \<Rightarrow> Inl StatusInternal
           | Inr (db, f2) \<Rightarrow>
               Inr ((vote_from_pb pb_vote,
                     \<lparr>meta_last_log_id = last_applied sys_data, meta_last_membership = last_membership sys_data,
                      meta_snapshot_id = snapshot_id_display snapshot_id\<rparr>, db), f2)))))))"

section \<open>Choosing the protocol\<close>

text \<open>
  \<open>full_snapshot\<close>: the fourth protocol first, and the third one only when the peer was unreachable.
  The arguments are the results of sending with each of them.
\<close>

definition full_snapshot :: "streaming_error + 'v \<Rightarrow> streaming_error + 'v \<Rightarrow> streaming_error + 'v" where
  "full_snapshot v004 v003 =
    (case v004 of
       Inr resp \<Rightarrow> Inr resp
     | Inl err \<Rightarrow> if err = StreamUnreachable then v003 else Inl err)"

end
