(* ===== verification/Transfer_Run.thy ===== *)
theory Transfer_Run
  imports Snapshot_Run Snapshot_Transfer
begin

text \<open>
  What arrives when a snapshot is sent to another node.  \<open>transfer_ok T H W Y\<close> is the documented
  behaviour of files: \<open>H h\<close> are the bytes that are left to be read, \<open>W h\<close> is the path of a file that is
  being written and what was written so far, \<open>Y f p\<close> are the bytes of the file with path \<open>p\<close>.
  \<open>entries_ok T\<close> says what the conversions between marked values and values with a sequence number do.
\<close>

definition transfer_ok ::
  "('f, 'h, 'o) transfer_lib \<Rightarrow> ('h \<Rightarrow> bytes) \<Rightarrow> ('o \<Rightarrow> rstring \<times> bytes) \<Rightarrow> ('f \<Rightarrow> rstring \<Rightarrow> bytes option) \<Rightarrow> bool" where
  "transfer_ok T H W Y \<longleftrightarrow>
    (\<forall>f p h. open_file T f p = Inr h \<longrightarrow> Y f p = Some (H h)) \<and>
    (\<forall>h n b h'. file_read T h n = Inr (b, h') \<longrightarrow> H h = b @ H h' \<and> length b \<le> n \<and> (b = [] \<longrightarrow> n = 0 \<or> H h = [])) \<and>
    (\<forall>f p h f'. file_create_new T f p = Inr (h, f') \<longrightarrow> W h = (p, [])) \<and>
    (\<forall>h b h'. file_write_all T h b = Inr h' \<longrightarrow> W h' = (fst (W h), snd (W h) @ b)) \<and>
    (\<forall>f h f'. file_sync_all T f h = Inr f' \<longrightarrow> Y f' (fst (W h)) = Some (snd (W h))) \<and>
    (\<forall>e j. json_of_end T e = Some j \<longrightarrow> end_of_json T j = Some e)"

definition entries_ok :: "('f, 'h, 'o) transfer_lib \<Rightarrow> bool" where
  "entries_ok T \<longleftrightarrow>
    (\<forall>m. data_of_marked T m = (case marked m of TombStone \<Rightarrow> None | Normal b \<Rightarrow> Some (SeqData (internal_seq m) b))) \<and>
    (\<forall>d. seqv_of_data T d = \<lparr>sv_seq = sd_seq d, sv_meta = fst (sd_data d), sv_data = snd (sd_data d)\<rparr>) \<and>
    (\<forall>v. marked_of_seqv T v = SeqMarked (sv_seq v) (Normal (sv_meta v, sv_data v)))"

lemma transfer_okD:
  assumes "transfer_ok T H W Y"
  shows "open_file T f p = Inr h \<Longrightarrow> Y f p = Some (H h)"
    "file_read T h n = Inr (b, h') \<Longrightarrow> H h = b @ H h' \<and> length b \<le> n \<and> (b = [] \<longrightarrow> n = 0 \<or> H h = [])"
    "file_create_new T f p = Inr (w, f') \<Longrightarrow> W w = (p, [])"
    "file_write_all T w b = Inr w' \<Longrightarrow> W w' = (fst (W w), snd (W w) @ b)"
    "file_sync_all T f w = Inr f' \<Longrightarrow> Y f' (fst (W w)) = Some (snd (W w))"
    "json_of_end T e = Some j \<Longrightarrow> end_of_json T j = Some e"
proof -
  note laws = assms [unfolded transfer_ok_def]
  show "open_file T f p = Inr h \<Longrightarrow> Y f p = Some (H h)" using laws by (elim conjE) blast
  show "file_read T h n = Inr (b, h') \<Longrightarrow> H h = b @ H h' \<and> length b \<le> n \<and> (b = [] \<longrightarrow> n = 0 \<or> H h = [])"
    using laws by (elim conjE) blast
  show "file_create_new T f p = Inr (w, f') \<Longrightarrow> W w = (p, [])" using laws by (elim conjE) blast
  show "file_write_all T w b = Inr w' \<Longrightarrow> W w' = (fst (W w), snd (W w) @ b)" using laws by (elim conjE) blast
  show "file_sync_all T f w = Inr f' \<Longrightarrow> Y f' (fst (W w)) = Some (snd (W w))" using laws by (elim conjE) blast
  show "json_of_end T e = Some j \<Longrightarrow> end_of_json T j = Some e" using laws by (elim conjE) blast
qed

section \<open>Chunks\<close>

lemma fill_buf_props:
  assumes ok: "transfer_ok T H W Y"
  shows "fill_buf T n h buf = Inr (b, h') \<Longrightarrow> length buf \<le> n \<Longrightarrow>
    b @ H h' = buf @ H h \<and> length b \<le> n \<and> (length b < n \<longrightarrow> H h' = [])"
proof (induction "n - length buf" arbitrary: h buf rule: less_induct)
  case less
  show ?case
  proof (cases "length buf < n")
    case True
    with less.prems(1) obtain r h1 where r: "file_read T h (n - length buf) = Inr (r, h1)"
      "(if r = [] then Inr (buf, h1) else fill_buf T n h1 (buf @ r)) = Inr (b, h')"
      by (subst (asm) fill_buf.simps) auto
    note rd = transfer_okD(2) [OF ok r(1)]
    show ?thesis
    proof (cases "r = []")
      case True
      with r(2) rd \<open>length buf < n\<close> show ?thesis by auto
    next
      case False
      with r(2) have "fill_buf T n h1 (buf @ r) = Inr (b, h')" by simp
      moreover have "n - length (buf @ r) < n - length buf" "length (buf @ r) \<le> n"
        using False True rd by (auto intro: diff_less_mono2)
      ultimately show ?thesis using less.hyps [of "buf @ r" h1] rd by simp
    qed
  next
    case False
    with less.prems show ?thesis by (simp add: fill_buf.simps)
  qed
qed

lemma chunk_loop_returns:
  assumes ok: "transfer_ok T H W Y"
  shows "\<exists>r. chunk_loop T cancel accept n i h out = Some r"
proof (induction "length (H h)" arbitrary: i h out rule: less_induct)
  case less
  show ?case
  proof (cases "fill_buf T n h []")
    case (Inr p)
    obtain b h' where p: "p = (b, h')" by (cases p)
    have "b @ H h' = H h" using fill_buf_props [OF ok, of n h "[]" b h'] Inr p by simp
    then have "length (H h) = length b + length (H h')" by (metis length_append)
    then have "length (H h') < length (H h)" if "b \<noteq> []" using that by simp
    then show ?thesis using less.hyps [of h'] Inr p by (subst chunk_loop.simps) auto
  qed (subst chunk_loop.simps, simp)
qed

lemma chunk_loop_sends:
  assumes ok: "transfer_ok T H W Y"
  shows "chunk_loop T cancel accept n i h out = Some (out', r) \<Longrightarrow>
    \<exists>cs rest. out' = out @ map new_chunk cs \<and> H h = concat cs @ rest \<and>
      (\<forall>c \<in> set cs. c \<noteq> [] \<and> length c \<le> n) \<and> (r = Inr True \<and> 0 < n \<longrightarrow> rest = [])"
proof (induction "length (H h)" arbitrary: i h out rule: less_induct)
  case less
  have stop: ?case if "out' = out" "r = Inr True \<and> 0 < n \<longrightarrow> H h = []"
    using that by (intro exI [of _ "[]"] exI [of _ "H h"]) simp
  show ?case
  proof (cases "cancel i \<or> isl (fill_buf T n h [])")
    case True
    then show ?thesis using less.prems stop by (subst (asm) chunk_loop.simps) (auto simp: isl_def split: if_splits)
  next
    case False
    then obtain b h' where f: "fill_buf T n h [] = Inr (b, h')" by (cases "fill_buf T n h []") auto
    have b: "b @ H h' = H h" "length b \<le> n" "length b < n \<Longrightarrow> H h' = []" using fill_buf_props [OF ok f] by simp_all
    show ?thesis
    proof (cases "b \<noteq> [] \<and> accept i")
      case True
      have "length (H h) = length b + length (H h')" using b(1) by (metis length_append)
      then have shorter: "length (H h') < length (H h)" using True by simp
      have "chunk_loop T cancel accept n (Suc i) h' (out @ [new_chunk b]) = Some (out', r)"
        using less.prems f False True by (subst (asm) chunk_loop.simps) auto
      from less.hyps [OF shorter this] obtain cs rest where "out' = (out @ [new_chunk b]) @ map new_chunk cs" "H h' = concat cs @ rest"
        "\<forall>c \<in> set cs. c \<noteq> [] \<and> length c \<le> n" "r = Inr True \<and> 0 < n \<longrightarrow> rest = []"
        by blast
      with b True show ?thesis by (intro exI [of _ "b # cs"] exI [of _ rest]) auto
    next
      case False
      then show ?thesis using less.prems f \<open>\<not> (cancel i \<or> _)\<close> b stop
        by (subst (asm) chunk_loop.simps) (auto split: if_splits)
    qed
  qed
qed

lemma receive_data:
  assumes ok: "transfer_ok T H W Y" and temp: "rv_temp_file r = Some w" and run: "receive T f r (new_chunk b) = Inr (res, r', f')"
  obtains w' where "res = None" "f' = f" "rv_temp_file r' = Some w'" "W w' = (fst (W w), snd (W w) @ b)"
    "rv_storage_path r' = rv_storage_path r" "rv_temp_rel_path r' = rv_temp_rel_path r" "rv_size_received r' = rv_size_received r + length b"
proof -
  obtain w' where "file_write_all T w b = Inr w'" "res = None" "f' = f" "r' = (update_stat (new_chunk b) r)\<lparr>rv_temp_file := Some w'\<rparr>"
    using run temp by (auto simp: receive_def Let_def ok_or_def load_finish_chunk_def new_chunk_def update_stat_def)
  with transfer_okD(4) [OF ok] that [of w'] show thesis by (simp add: update_stat_def new_chunk_def)
qed

lemma receive_incomplete:
  assumes ok: "transfer_ok T H W Y"
  shows "rv_temp_file r = Some w \<Longrightarrow> receiving_thread T f r (map new_chunk cs) = Inr (x, f') \<Longrightarrow> x = Inl UnexpectedEof"
proof (induction cs arbitrary: r w)
  case (Cons c cs)
  then obtain res r' f1 where s: "receive T f r (new_chunk c) = Inr (res, r', f1)"
    "(case res of Some x \<Rightarrow> Inr (Inr x, f1) | None \<Rightarrow> receiving_thread T f1 r' (map new_chunk cs)) = Inr (x, f')"
    by auto
  show ?case
    by (rule receive_data [OF ok Cons.prems(1) s(1)]) (use s(2) Cons.IH in auto)
qed simp

lemma receive_complete:
  assumes ok: "transfer_ok T H W Y" and fin: "json_of_end T (fmt, v, meta) = Some j"
  shows "rv_temp_file r = Some w \<Longrightarrow>
    receiving_thread T f r (map new_chunk cs @ \<lparr>rpc_meta = Some j, chunk = []\<rparr> # rest) = Inr (Inr x, f') \<Longrightarrow>
    rc_vote x = v \<and> rc_snapshot_meta x = meta \<and> rc_storage_path x = rv_storage_path r \<and> rc_temp_rel_path x = rv_temp_rel_path r \<and>
    rc_size_received x = rv_size_received r + length (concat cs) \<and> Y f' (fst (W w)) = Some (snd (W w) @ concat cs)"
proof (induction cs arbitrary: r w)
  case Nil
  have "end_of_json T j = Some (fmt, v, meta)" by (rule transfer_okD(6) [OF ok fin])
  then obtain w' where w: "file_write_all T w [] = Inr w'" "file_sync_all T f w' = Inr f'"
    "x = \<lparr>rc_format = fmt, rc_vote = v, rc_snapshot_meta = meta, rc_storage_path = rv_storage_path r,
      rc_temp_rel_path = rv_temp_rel_path r, rc_n_received = rv_n_received r + 1, rc_size_received = rv_size_received r\<rparr>"
    using Nil by (auto simp: receive_def Let_def ok_or_def load_finish_chunk_def rmap_def update_stat_def split: if_splits)
  have "W w' = W w" using transfer_okD(4) [OF ok w(1)] by simp
  with transfer_okD(5) [OF ok w(2)] w(3) show ?case by simp
next
  case (Cons c cs)
  then obtain res r' f1 where s: "receive T f r (new_chunk c) = Inr (res, r', f1)"
    "(case res of Some x \<Rightarrow> Inr (Inr x, f1)
      | None \<Rightarrow> receiving_thread T f1 r' (map new_chunk cs @ \<lparr>rpc_meta = Some j, chunk = []\<rparr> # rest)) = Inr (Inr x, f')"
    by auto
  obtain w' where d: "res = None" "f1 = f" "rv_temp_file r' = Some w'" "W w' = (fst (W w), snd (W w) @ c)"
    "rv_storage_path r' = rv_storage_path r" "rv_temp_rel_path r' = rv_temp_rel_path r" "rv_size_received r' = rv_size_received r + length c"
    by (rule receive_data [OF ok Cons.prems(1) s(1)])
  with s(2) Cons.IH [OF d(3)] show ?case by simp
qed

lemma stream_v003_cases:
  assumes ok: "transfer_ok T H W Y" and n: "csize \<noteq> Some 0"
    and run: "snapshot_chunk_stream_v003 T f cancel accept csize v meta db = Some (out, r)"
  obtains (broken) cs where "out = map new_chunk cs"
  | (whole) cs j where "out = map new_chunk cs @ [\<lparr>rpc_meta = Some j, chunk = []\<rparr>]"
      "json_of_end T (ascii ''rotbl::v001'', v, meta) = Some j" "Y f (db_path db) = Some (concat cs)"
proof (cases "open_file T f (db_path db)")
  case (Inl e)
  then show thesis using run broken [of "[]"] by (simp add: snapshot_chunk_stream_v003_def)
next
  case (Inr h)
  define m where "m = (case csize of Some c \<Rightarrow> c | None \<Rightarrow> 1024 * 1024)"
  have m: "0 < m" using n by (cases csize) (auto simp: m_def)
  obtain sent' res where l: "chunk_loop T cancel accept m 0 h [] = Some (sent', res)"
    using chunk_loop_returns [OF ok, of cancel accept m 0 h "[]"] by auto
  from chunk_loop_sends [OF ok l] obtain cs rest where cs: "sent' = map new_chunk cs" "H h = concat cs @ rest" "res = Inr True \<Longrightarrow> rest = []"
    using m by auto
  have y: "Y f (db_path db) = Some (concat cs @ rest)" using transfer_okD(1) [OF ok Inr] cs(2) by simp
  show thesis
  proof (cases "res = Inr True \<and> out \<noteq> sent'")
    case True
    then obtain j where "json_of_end T (ascii ''rotbl::v001'', v, meta) = Some j" "out = sent' @ [\<lparr>rpc_meta = Some j, chunk = []\<rparr>]"
      using run Inr l by (auto simp: snapshot_chunk_stream_v003_def Let_def m_def [symmetric] new_end_chunk_def split: option.splits if_splits)
    with True cs y show thesis using whole by simp
  next
    case False
    then have "out = sent'"
      using run Inr l by (auto simp: snapshot_chunk_stream_v003_def Let_def m_def [symmetric] split: option.splits if_splits sum.splits bool.splits)
    then show thesis using cs(1) broken by simp
  qed
qed

text \<open>
  C18: Sending a snapshot file in chunks always ends, whenever it is cancelled or the peer closes its
  end and however short the single reads of the file are.
\<close>

theorem chunk_stream_returns:
  assumes "transfer_ok T H W Y"
  shows "\<exists>r. snapshot_chunk_stream_v003 T f cancel accept csize v meta db = Some r"
proof (cases "open_file T f (db_path db)")
  case (Inr h)
  obtain out r where "chunk_loop T cancel accept (case csize of None \<Rightarrow> 1024 * 1024 | Some c \<Rightarrow> c) 0 h [] = Some (out, r)"
    using chunk_loop_returns [OF assms] by (metis surj_pair)
  with Inr show ?thesis
    by (cases r) (auto simp: snapshot_chunk_stream_v003_def Let_def split: option.splits bool.splits)
qed (simp add: snapshot_chunk_stream_v003_def)

text \<open>
  C15: A node that receives a snapshot in chunks takes it only when it is complete.  Whatever part of
  the stream arrives, when the receiver reports a snapshot then its file holds exactly the bytes of
  the sender's file, and the vote and the metadata are the ones that were sent.  The chunk size is
  not 0.
\<close>

theorem received_is_complete:
  assumes "transfer_ok T H W Y" "csize \<noteq> Some 0"
    and "snapshot_chunk_stream_v003 T f cancel accept csize v meta db = Some (out, r)" "prefix part out"
    and "receive_binary_snapshot L T c g ts part = Inr (x, g')"
  shows "rc_vote x = v \<and> rc_snapshot_meta x = meta \<and> part = out \<and>
    Y g' (rc_storage_path x @ ascii ''/'' @ rc_temp_rel_path x) = Y f (db_path db) \<and>
    (\<exists>b. Y f (db_path db) = Some b \<and> rc_size_received x = length b)"
proof -
  obtain rv g1 where rv: "new_receiver L T c g ts = Inr (rv, g1)" "receiving_thread T g1 rv part = Inr (Inr x, g')"
    using assms(5) by (auto simp: receive_binary_snapshot_def split: sum.splits)
  obtain w where w: "rv_temp_file rv = Some w" "W w = (rv_storage_path rv @ ascii ''/'' @ rv_temp_rel_path rv, [])" "rv_size_received rv = 0"
    using rv(1) transfer_okD(3) [OF assms(1)] by (auto simp: new_receiver_def receiver_new_def Let_def)
  have short: False if "part = map new_chunk cs" for cs
    using receive_incomplete [OF assms(1) w(1)] rv(2) that by fastforce
  from assms(1-3) show ?thesis
  proof (cases rule: stream_v003_cases)
    case (broken cs)
    then have "\<exists>ds. part = map new_chunk ds" using assms(4) by (auto simp: prefix_map_rightE prefix_def map_eq_append_conv)
    then show ?thesis using short by blast
  next
    case (whole cs j)
    have "part = out"
    proof (rule ccontr)
      assume "part \<noteq> out"
      then have "prefix part (map new_chunk cs)" using assms(4) whole(1) by (metis prefix_snoc)
      then have "\<exists>ds. part = map new_chunk ds" by (auto simp: prefix_def map_eq_append_conv)
      then show False using short by blast
    qed
    with rv(2) whole(1) have "receiving_thread T g1 rv (map new_chunk cs @ \<lparr>rpc_meta = Some j, chunk = []\<rparr> # []) = Inr (Inr x, g')" by simp
    from receive_complete [OF assms(1) whole(2) w(1) this] show ?thesis
      using w(2,3) whole(3) \<open>part = out\<close> by simp
  qed
qed

section \<open>Entries\<close>

text \<open>A stored value as it is stored again by the receiver.\<close>

definition reencode :: "value_lib \<Rightarrow> bytes seq_marked \<Rightarrow> bytes seq_marked io_result" where
  "reencode V raw = rbind (seq_marked_decode V raw) (seq_marked_encode V)"

fun reencoded :: "value_lib \<Rightarrow> (rstring \<times> bytes seq_marked) list \<Rightarrow> (rstring \<times> bytes seq_marked) list io_result" where
  "reencoded V [] = Inr []"
| "reencoded V ((k, raw) # rest) =
    (if marked raw = TombStone then reencoded V rest
     else rbind (reencode V raw) (\<lambda>m. rmap ((#) (k, m)) (reencoded V rest)))"

abbreviation ok_of :: "'e + 'a \<Rightarrow> 'a option" where
  "ok_of r \<equiv> (case r of Inl e \<Rightarrow> None | Inr a \<Rightarrow> Some a)"

lemma receive_items_append:
  "receive_items T V (xs @ ys) = rbind (receive_items T V xs) (\<lambda>es. rmap ((@) es) (receive_items T V ys))"
proof (induction xs)
  case Nil
  show ?case by (cases "receive_items T V ys") (simp_all add: rmap_def)
next
  case (Cons x xs)
  show ?case
    by (cases "receive_items T V xs"; cases "receive_items T V ys")
      (simp_all add: Cons.IH rmap_def split: option.splits sum.splits)
qed

lemma entry_item_cases:
  assumes "entries_ok T"
  shows "marked raw = TombStone \<Longrightarrow> entry_item T V (k, raw) = Inr None"
    "marked raw \<noteq> TombStone \<Longrightarrow> entry_item T V (k, raw) = Inr x \<Longrightarrow>
      \<exists>item m. x = Some item \<and> seq_marked_decode V raw = Inr m \<and>
        ok_of (receive_items T V [item]) = map_option (\<lambda>m'. [Data (k, m')]) (ok_of (seq_marked_encode V m))"
proof -
  have laws: "data_of_marked T raw = (case marked raw of TombStone \<Rightarrow> None | Normal b \<Rightarrow> Some (SeqData (internal_seq raw) b))"
    "seqv_of_data T d = \<lparr>sv_seq = sd_seq d, sv_meta = fst (sd_data d), sv_data = snd (sd_data d)\<rparr>"
    "marked_of_seqv T v = SeqMarked (sv_seq v) (Normal (sv_meta v, sv_data v))" for d v
    using assms by (simp_all add: entries_ok_def)
  show "marked raw = TombStone \<Longrightarrow> entry_item T V (k, raw) = Inr None"
    by (simp add: entry_item_def laws(1))
  show "\<exists>item m. x = Some item \<and> seq_marked_decode V raw = Inr m \<and>
      ok_of (receive_items T V [item]) = map_option (\<lambda>m'. [Data (k, m')]) (ok_of (seq_marked_encode V m))"
    if n: "marked raw \<noteq> TombStone" and x: "entry_item T V (k, raw) = Inr x"
  proof -
    obtain b where b: "marked raw = Normal b" using n by (cases "marked raw") auto
    with x obtain meta val where d: "meta_value_decode V b = Inr (meta, val)"
      "x = Some (stream_item_new k (Some (seqv_to_pb \<lparr>sv_seq = internal_seq raw, sv_meta = meta, sv_data = val\<rparr>)))"
      by (auto simp: entry_item_def laws seq_data_decode_def rmap_def)
    moreover have "seq_marked_decode V raw = Inr (SeqMarked (internal_seq raw) (Normal (meta, val)))"
      using b d(1) by (simp add: seq_marked_decode_def)
    ultimately show ?thesis
      by (auto simp: stream_item_new_def laws seqv_roundtrip rmap_def split: sum.splits)
  qed
qed

lemma entry_chunks_received:
  assumes T: "entries_ok T"
  shows "entry_chunks T V n items buf = (cs, None) \<Longrightarrow> receive_items T V (concat cs) = Inr es \<Longrightarrow>
    no_error items \<and> (\<exists>eb es'. receive_items T V buf = Inr eb \<and> reencoded V (ok_items items) = Inr es' \<and> es = eb @ map Data es')"
proof (induction items arbitrary: buf cs es)
  case Nil
  then show ?case by (auto simp: no_error_def split: if_splits)
next
  case (Cons i items)
  then obtain k raw where i: "i = Inr (k, raw)" by (cases i) auto
  have items: "no_error (i # items) = no_error items" "ok_items (i # items) = (k, raw) # ok_items items"
    by (simp_all add: i no_error_def)
  obtain x where x: "entry_item T V (k, raw) = Inr x" using Cons.prems(1) i by (auto split: sum.splits)
  show ?case
  proof (cases "marked raw = TombStone")
    case True
    then have "entry_chunks T V n items buf = (cs, None)" using Cons.prems(1) i entry_item_cases(1) [OF T] by simp
    from Cons.IH [OF this Cons.prems(2)] True show ?thesis by (simp add: items)
  next
    case False
    from entry_item_cases(2) [OF T this x] obtain item m where item: "x = Some item" "seq_marked_decode V raw = Inr m"
      "ok_of (receive_items T V [item]) = map_option (\<lambda>m'. [Data (k, m')]) (ok_of (seq_marked_encode V m))" by blast
    have one: "\<exists>m'. reencode V raw = Inr m' \<and> e = [Data (k, m')]" if "receive_items T V [item] = Inr e" for e
      using item(2,3) that by (auto simp: reencode_def split: sum.splits)
    show ?thesis
    proof (cases "length (buf @ [item]) < n")
      case less: True
      then have "entry_chunks T V n items (buf @ [item]) = (cs, None)" using Cons.prems(1) i x item(1) by simp
      from Cons.IH [OF this Cons.prems(2)] obtain eb es' where r: "no_error items" "receive_items T V (buf @ [item]) = Inr eb"
        "reencoded V (ok_items items) = Inr es'" "es = eb @ map Data es'" by blast
      then obtain e1 e2 where "receive_items T V buf = Inr e1" "receive_items T V [item] = Inr e2" "eb = e1 @ e2"
        unfolding receive_items_append by (auto simp: rmap_def)
      with r one False show ?thesis by (fastforce simp: items rmap_def)
    next
      case full: False
      then obtain cs' where c: "entry_chunks T V n items [] = (cs', None)" "cs = (buf @ [item]) # cs'"
        using Cons.prems(1) i x item(1) by (auto simp: Let_def split: prod.splits)
      then have all: "receive_items T V (buf @ ([item] @ concat cs')) = Inr es" using Cons.prems(2) by simp
      obtain e1 e2 e3 where e: "receive_items T V buf = Inr e1" "receive_items T V [item] = Inr e2"
        "receive_items T V (concat cs') = Inr e3" "es = e1 @ e2 @ e3"
        using all unfolding receive_items_append by (auto simp: rmap_def simp del: receive_items.simps)
      from Cons.IH [OF c(1) e(3)] obtain es' where "no_error items" "reencoded V (ok_items items) = Inr es'" "e3 = map Data es'" by auto
      with e one False show ?thesis by (fastforce simp: items rmap_def)
    qed
  qed
qed

lemma reencoded_props:
  assumes "reencoded V kvs = Inr es" "sorted_wrt (<) (map fst kvs)"
  shows "sorted_wrt (<) (map fst es)" "set (map fst es) \<subseteq> set (map fst kvs)"
    "map_of es k = (case map_of kvs k of None \<Rightarrow> None | Some raw \<Rightarrow> if marked raw = TombStone then None else ok_of (reencode V raw))"
    "(k, raw) \<in> set kvs \<Longrightarrow> marked raw \<noteq> TombStone \<Longrightarrow> \<exists>m. reencode V raw = Inr m"
proof -
  have "sorted_wrt (<) (map fst es) \<and> set (map fst es) \<subseteq> set (map fst kvs) \<and>
    map_of es k = (case map_of kvs k of None \<Rightarrow> None | Some raw \<Rightarrow> if marked raw = TombStone then None else ok_of (reencode V raw)) \<and>
    (\<forall>raw. (k, raw) \<in> set kvs \<and> marked raw \<noteq> TombStone \<longrightarrow> (\<exists>m. reencode V raw = Inr m))"
    using assms
  proof (induction V kvs arbitrary: es rule: reencoded.induct)
    case (2 V k' raw rest)
    have fresh: "map_of rest k' = None" using 2(4) by (auto simp: map_of_eq_None_iff)
    show ?case
    proof (cases "marked raw = TombStone")
      case True
      with 2(1) [OF True, of es] 2(3,4) fresh show ?thesis by (auto split: option.splits)
    next
      case False
      with 2(3) obtain m es' where e: "reencode V raw = Inr m" "reencoded V rest = Inr es'" "es = (k', m) # es'" by (auto simp: rmap_def)
      from 2(2) [OF False e(1,2)] 2(4) have IH: "sorted_wrt (<) (map fst es')" "set (map fst es') \<subseteq> set (map fst rest)"
        "map_of es' k = (case map_of rest k of None \<Rightarrow> None | Some raw \<Rightarrow> if marked raw = TombStone then None else ok_of (reencode V raw))"
        "\<forall>raw. (k, raw) \<in> set rest \<and> marked raw \<noteq> TombStone \<longrightarrow> (\<exists>m. reencode V raw = Inr m)" by auto
      have "k' < x" if "x \<in> set (map fst es')" for x using subsetD [OF IH(2) that] 2(4) by auto
      with IH 2(4) e False show ?thesis by (auto split: option.splits)
    qed
  qed simp
  then show "sorted_wrt (<) (map fst es)" "set (map fst es) \<subseteq> set (map fst kvs)"
    "map_of es k = (case map_of kvs k of None \<Rightarrow> None | Some raw \<Rightarrow> if marked raw = TombStone then None else ok_of (reencode V raw))"
    "(k, raw) \<in> set kvs \<Longrightarrow> marked raw \<noteq> TombStone \<Longrightarrow> \<exists>m. reencode V raw = Inr m"
    by blast+
qed

definition kv_message :: "stream_item list \<Rightarrow> install_entry" where
  "kv_message c = \<lparr>ie_version = 4, ie_key_values = c, ie_commit = None\<rparr>"

lemma kv_message_simps [simp]: "ie_key_values (kv_message c) = c" "ie_commit (kv_message c) = None"
  by (simp_all add: kv_message_def)

lemma send_chunks_sends:
  "send_chunks cancel accept i cs = (out, r) \<Longrightarrow> \<exists>j. out = map kv_message (take j cs) \<and> (r = Inr True \<longrightarrow> out = map kv_message cs)"
proof (induction cs arbitrary: i out r)
  case (Cons c cs)
  show ?case
  proof (cases "cancel i \<or> \<not> accept i")
    case True
    then show ?thesis using Cons.prems by (intro exI [of _ 0]) (auto split: if_splits)
  next
    case False
    then obtain out' where o: "send_chunks cancel accept (Suc i) cs = (out', r)" "out = kv_message c # out'"
      using Cons.prems by (auto simp: kv_message_def split: prod.splits)
    from Cons.IH [OF o(1)] obtain j where "out' = map kv_message (take j cs)" "r = Inr True \<longrightarrow> out' = map kv_message cs" by blast
    with o(2) show ?thesis by (intro exI [of _ "Suc j"]) simp
  qed
qed simp

lemma receive_messages_open:
  "set tail \<subseteq> {Inl ()} \<Longrightarrow> receive_messages T V (map Inr (map kv_message cs) @ tail) = Inr (es, com) \<Longrightarrow> com = None"
proof (induction cs arbitrary: es com)
  case Nil
  then show ?case by (cases tail) auto
next
  case (Cons c cs)
  then show ?case by (auto simp: rmap_def)
qed

lemma receive_messages_closed:
  assumes "ie_key_values fin = []" "ie_commit fin = Some cm"
  shows "receive_messages T V (map Inr (map kv_message cs @ [fin]) @ tail) = Inr (es, com) \<Longrightarrow>
    receive_items T V (concat cs) = Inr es \<and> com = Some cm"
proof (induction cs arbitrary: es com)
  case Nil
  then show ?case using assms by auto
next
  case (Cons c cs)
  then obtain e1 e2 where "receive_items T V c = Inr e1" "receive_messages T V (map Inr (map kv_message cs @ [fin]) @ tail) = Inr (e2, com)"
    "es = e1 @ e2"
    by (auto simp: rmap_def)
  with Cons.IH [of e2 com] show ?case by (simp add: receive_items_append rmap_def)
qed

lemma reencode_decodes:
  assumes "value_lib_ok V" "reencode V raw = Inr m"
  shows "seq_marked_decode V m = seq_marked_decode V raw" "seq_marked_string_decode V m = seq_marked_string_decode V raw"
proof -
  obtain d where d: "seq_marked_decode V raw = Inr d" "seq_marked_encode V d = Inr m" using assms(2) by (auto simp: reencode_def)
  have "seq_marked_decode V m = Inr d" by (rule seq_marked_roundtrip [OF assms(1) d(2)])
  with d(1) show "seq_marked_decode V m = seq_marked_decode V raw" "seq_marked_string_decode V m = seq_marked_string_decode V raw"
    by (simp_all add: seq_marked_string_decode_def)
qed

lemma ok_or_Inr_iff: "ok_or e x = Inr a \<longleftrightarrow> x = Some a"
  by (cases x) auto

lemma case_sum_Inr_iff:
  "(case r of Inl e \<Rightarrow> Inl s | Inr (a, b) \<Rightarrow> Inr (h a b)) = Inr y \<longleftrightarrow> (\<exists>a b. r = Inr (a, b) \<and> y = h a b)"
  by (cases r) auto

lemma v004_received:
  assumes T: "entries_ok T" and R: "rotbl_ok (sl_rotbl S) C" and snap: "snapshot_ok L C B F"
    and send: "send_snapshot_in_stream_v004 L T S cancel accept v meta db = (out, r)"
    and tail: "set tail \<subseteq> {Inl ()}"
    and recv: "do_install_snapshot_v004 L T (sl_value S) c g ts (map Inr (take j out) @ tail) = Inr ((v', meta', db'), g')"
  shows "v' = v" "db_sys_data db' = db_sys_data db" "take j out = out"
    "C (db_rotbl db') k = (case C (db_rotbl db) k of None \<Rightarrow> None
      | Some raw \<Rightarrow> if marked raw = TombStone then None else ok_of (reencode (sl_value S) raw))"
    "C (db_rotbl db) k = Some raw \<Longrightarrow> marked raw \<noteq> TombStone \<Longrightarrow> \<exists>m. reencode (sl_value S) raw = Inr m"
    "\<exists>i. snapshot_id_from_str (meta_snapshot_id meta) = Some i \<and> db_path db' = snapshot_path c (snapshot_id_display i) \<and>
      meta' = \<lparr>meta_last_log_id = last_applied (db_sys_data db), meta_last_membership = last_membership (db_sys_data db),
        meta_snapshot_id = snapshot_id_display i\<rparr>"
    "\<exists>jn. F g' (db_path db') = Some (C (db_rotbl db'), jn) \<and> sys_of_json L jn = Some (db_sys_data db)"
proof -
  obtain chunks failed where ch: "entry_chunks T (sl_value S) 64 (db_inner_range (sl_rotbl S) db) [] = (chunks, failed)" by fastforce
  obtain out1 r1 where s1: "send_chunks cancel accept 0 chunks = (out1, r1)" by fastforce
  obtain w g1 es cm pv sd i where rc: "writer_new L c g ts = Inr (w, g1)"
    "receive_messages T (sl_value S) (map Inr (take j out) @ tail) = Inr (es, Some cm)" "cm_vote cm = Some pv"
    "sys_of_json L (cm_sys_data cm) = Some sd" "snapshot_id_from_str (cm_snapshot_id cm) = Some i"
    "write_kv L c g1 w (es @ [Finish (i, sd)]) = Inr (db', g')" "v' = vote_from_pb pv"
    "meta' = \<lparr>meta_last_log_id = last_applied sd, meta_last_membership = last_membership sd, meta_snapshot_id = snapshot_id_display i\<rparr>"
    using recv unfolding do_install_snapshot_v004_def
    by (cases "writer_new L c g ts") (auto simp: ok_or_Inr_iff case_sum_Inr_iff)
  have open_: False if "take j out = map kv_message cs" for cs
    using receive_messages_open [OF tail, of T "sl_value S" cs es "Some cm"] rc(2) that by simp
  have not1: False if "take j out = take j out1"
    using send_chunks_sends [OF s1] open_ that by (metis take_map)
  then have "out \<noteq> out1" by blast
  then obtain jn fin where fin: "r1 = Inr True" "failed = None" "json_of_sys L (db_sys_data db) = Some jn" "out = out1 @ [fin]"
    "fin = \<lparr>ie_version = 4, ie_key_values = [], ie_commit = Some \<lparr>cm_snapshot_id = meta_snapshot_id meta, cm_sys_data = jn,
      cm_vote = Some (vote_to_pb v)\<rparr>\<rparr>"
    using send ch s1 by (auto simp: send_snapshot_in_stream_v004_def Let_def split: sum.splits bool.splits option.splits if_splits)
  have out1: "out1 = map kv_message chunks" using send_chunks_sends [OF s1] fin(1) by blast
  have "length out1 < j" using not1 fin(4) by (cases "j \<le> length out1") auto
  then show all: "take j out = out" using fin(4) by simp
  have "receive_messages T (sl_value S) (map Inr (map kv_message chunks @ [fin]) @ tail) = Inr (es, Some cm)"
    using rc(2) [unfolded all] unfolding fin(4) out1 .
  from receive_messages_closed [OF _ _ this, of "the (ie_commit fin)"]
  have m: "receive_items T (sl_value S) (concat chunks) = Inr es" "cm = the (ie_commit fin)" using fin(5) by simp_all
  have cm: "cm_snapshot_id cm = meta_snapshot_id meta" "cm_sys_data cm = jn" "cm_vote cm = Some (vote_to_pb v)"
    using m(2) fin(5) by simp_all
  from entry_chunks_received [OF T ch [unfolded fin(2)] m(1)] obtain es' where
    e: "no_error (db_inner_range (sl_rotbl S) db)" "reencoded (sl_value S) (ok_items (db_inner_range (sl_rotbl S) db)) = Inr es'" "es = map Data es'"
    by auto
  let ?kvs = "ok_items (db_inner_range (sl_rotbl S) db)"
  have sorted: "sorted_wrt (<) (map fst ?kvs)" using content_lawD(2) [OF R] by (simp add: db_inner_range_def ascending_def)
  then have dist: "distinct (map fst ?kvs)" by (simp add: strict_sorted_iff)
  have content: "map_of ?kvs k = C (db_rotbl db) k" for k
  proof -
    have "(k, raw) \<in> set ?kvs \<longleftrightarrow> C (db_rotbl db) k = Some raw" for raw
      using content_lawD(3) [OF R, of k raw "db_rotbl db" "(Unbounded, Unbounded)"]
        content_lawD(4) [OF R, of "db_rotbl db" "(Unbounded, Unbounded)" k raw] e(1)
      unfolding db_inner_range_def ok_items_iff by (simp add: in_range_def) blast
    with dist show ?thesis by (metis map_of_eq_Some_iff not_Some_eq)
  qed
  note re = reencoded_props [OF e(2) sorted]
  have w: "B w = []" "builder_storage_path L w = snapshot_dir c" using snapshot_okD(2) [OF snap] rc(1) by (auto simp: writer_new_def)
  have jsd: "sd = db_sys_data db" using snapshot_okD(1) [OF snap fin(3)] rc(4) cm(2) by simp
  have "sorted_wrt (<) (map fst (B w @ es'))" using re(1) w(1) by simp
  note wr = write_kv_props [OF snap this w(2) rc(6) [unfolded e(3)]]
  show "v' = v" using rc(3,7) cm(3) by auto
  show "db_sys_data db' = db_sys_data db" using wr(2) jsd by simp
  show "C (db_rotbl db') k = (case C (db_rotbl db) k of None \<Rightarrow> None
      | Some raw \<Rightarrow> if marked raw = TombStone then None else ok_of (reencode (sl_value S) raw))"
    using wr(1) w(1) re(3) [of k] content [of k] by simp
  show "\<exists>m. reencode (sl_value S) raw = Inr m" if "C (db_rotbl db) k = Some raw" "marked raw \<noteq> TombStone"
    using re(4) [of k raw] content [of k] that map_of_SomeD [of ?kvs k raw] by simp
  show "\<exists>i. snapshot_id_from_str (meta_snapshot_id meta) = Some i \<and> db_path db' = snapshot_path c (snapshot_id_display i) \<and>
      meta' = \<lparr>meta_last_log_id = last_applied (db_sys_data db), meta_last_membership = last_membership (db_sys_data db),
        meta_snapshot_id = snapshot_id_display i\<rparr>"
    using rc(5,8) cm(1) jsd wr(4) by simp
  show "\<exists>jn. F g' (db_path db') = Some (C (db_rotbl db'), jn) \<and> sys_of_json L jn = Some (db_sys_data db)"
    using wr(5) jsd by simp
qed

lemma reencoded_table:
  assumes V: "value_lib_ok (sl_value S)"
    and content: "\<And>k. C (db_rotbl db') k = (case C (db_rotbl db) k of None \<Rightarrow> None
      | Some raw \<Rightarrow> if marked raw = TombStone then None else ok_of (reencode (sl_value S) raw))"
    and all: "\<forall>k raw. C (db_rotbl db) k = Some raw \<and> marked raw \<noteq> TombStone \<longrightarrow> (\<exists>m. reencode (sl_value S) raw = Inr m)"
  shows "db_versions (user_keys S) C (Some db') k \<subseteq> db_versions (user_keys S) C (Some db) k"
    "db_versions (expire_keys S) C (Some db') e \<subseteq> db_versions (expire_keys S) C (Some db) e"
    "value_of (db_shown (user_keys S) C (Some db') k) = value_of (db_shown (user_keys S) C (Some db) k)"
    "value_of (db_shown (expire_keys S) C (Some db') e) = value_of (db_shown (expire_keys S) C (Some db) e)"
    "db_wf S C (Some db) \<Longrightarrow> db_wf S C (Some db')"
proof -
  have tomb: "seq_marked_decode (sl_value S) raw = Inr (SeqMarked (internal_seq raw) TombStone)"
    "seq_marked_string_decode (sl_value S) raw = Inr (SeqMarked (internal_seq raw) TombStone)" if "marked raw = TombStone" for raw
    using that by (simp_all add: seq_marked_decode_def seq_marked_string_decode_def)
  have get: "C (db_rotbl db') str = None \<and> (C (db_rotbl db) str = None \<or> (\<exists>raw. C (db_rotbl db) str = Some raw \<and> marked raw = TombStone)) \<or>
    (\<exists>raw m. C (db_rotbl db) str = Some raw \<and> C (db_rotbl db') str = Some m \<and>
      seq_marked_decode (sl_value S) m = seq_marked_decode (sl_value S) raw \<and>
      seq_marked_string_decode (sl_value S) m = seq_marked_string_decode (sl_value S) raw)" for str
  proof (cases "C (db_rotbl db) str")
    case (Some raw)
    show ?thesis
    proof (cases "marked raw = TombStone")
      case False
      then obtain m where "reencode (sl_value S) raw = Inr m" using all Some by blast
      with reencode_decodes [OF V this] content [of str] Some False show ?thesis by simp
    qed (use content [of str] Some in simp)
  qed (use content [of str] in simp)
  have nf: "value_of not_found = None" "value_of (SeqMarked s TombStone) = None" for s by (simp_all add: value_of_def not_found_def)
  show "db_versions (user_keys S) C (Some db') k \<subseteq> db_versions (user_keys S) C (Some db) k"
    using get [of "encode_key user_key_prefix user_key_encode k"] by (auto simp: db_versions_def user_keys_def)
  show "db_versions (expire_keys S) C (Some db') e \<subseteq> db_versions (expire_keys S) C (Some db) e"
    using get [of "encode_key expire_key_prefix expire_key_encode e"] by (auto simp: db_versions_def expire_keys_def)
  show "value_of (db_shown (user_keys S) C (Some db') k) = value_of (db_shown (user_keys S) C (Some db) k)"
    using get [of "encode_key user_key_prefix user_key_encode k"] tomb(1) by (auto simp: db_shown_def user_keys_def nf)
  show "value_of (db_shown (expire_keys S) C (Some db') e) = value_of (db_shown (expire_keys S) C (Some db) e)"
    using get [of "encode_key expire_key_prefix expire_key_encode e"] tomb(2) by (auto simp: db_shown_def expire_keys_def nf)
  show "db_wf S C (Some db')" if wf: "db_wf S C (Some db)"
    unfolding db_wf_def
  proof (intro allI impI, elim conjE)
    fix d str raw'
    assume a: "Some db' = Some d" "C (db_rotbl d) str = Some raw'"
    then obtain raw where raw: "C (db_rotbl db) str = Some raw"
      "seq_marked_decode (sl_value S) raw' = seq_marked_decode (sl_value S) raw"
      "seq_marked_string_decode (sl_value S) raw' = seq_marked_string_decode (sl_value S) raw"
      using get [of str] by auto
    from wf raw(1) show "(\<exists>k m. str = encode_key user_key_prefix user_key_encode k \<and> seq_marked_decode (sl_value S) raw' = Inr m) \<or>
      (\<exists>k m. str = encode_key expire_key_prefix expire_key_encode k \<and> seq_marked_string_decode (sl_value S) raw' = Inr m)"
      unfolding db_wf_def raw(2,3) by blast
  qed
qed

lemma install_transferred:
  assumes libs: "libs_ok S VU VE C" and ok: "store_ok S VU VE C p (install_snapshot_v003 S db)"
    and sys: "db_sys_data db' = db_sys_data db"
    and content: "\<And>k. C (db_rotbl db') k = (case C (db_rotbl db) k of None \<Rightarrow> None
      | Some raw \<Rightarrow> if marked raw = TombStone then None else ok_of (reencode (sl_value S) raw))"
    and all: "\<forall>k raw. C (db_rotbl db) k = Some raw \<and> marked raw \<noteq> TombStone \<longrightarrow> (\<exists>m. reencode (sl_value S) raw = Inr m)"
  shows "store_ok S VU VE C p (install_snapshot_v003 S db')"
    "seen (user_keys S) C (install_snapshot_v003 S db') = seen (user_keys S) C (install_snapshot_v003 S db)"
    "seen (expire_keys S) C (install_snapshot_v003 S db') = seen (expire_keys S) C (install_snapshot_v003 S db)"
proof -
  note T = libs_okD [OF libs] and st = store_okD [OF ok]
  note r = reencoded_table [where C = C and db = db and db' = db' and S = S, OF T(4) content all]
  have sub: "sp_sub (user_keys S) (lm_writable (install_snapshot_v003 S d)) = t_default (sp_table (user_keys S))"
    "sp_sub (expire_keys S) (lm_writable (install_snapshot_v003 S d)) = t_default (sp_table (expire_keys S))" for d
    by simp_all
  note ui = install_versions [OF T(5) sub(1)] and ei = install_versions [OF T(6) sub(2)]
  have seq: "lm_curr_seq (install_snapshot_v003 S db') = lm_curr_seq (install_snapshot_v003 S db)"
    using sys by (simp add: lm_curr_seq_def)
  show "seen (user_keys S) C (install_snapshot_v003 S db') = seen (user_keys S) C (install_snapshot_v003 S db)"
    "seen (expire_keys S) C (install_snapshot_v003 S db') = seen (expire_keys S) C (install_snapshot_v003 S db)"
    using r(3,4) by (simp_all add: seen_def fun_eq_iff ui(2) ei(2))
  have g: "good (db_versions (user_keys S) C (Some db) k)" "good (db_versions (expire_keys S) C (Some db) e)" for k e
    using st(2) [of k] st(4) [of e] by (simp_all add: lm_inv_def ui(1) ei(1))
  have "space_ok VU (user_keys S) C (install_snapshot_v003 S db')" "space_ok VE (expire_keys S) C (install_snapshot_v003 S db')"
    using ui(3) [OF good_subset [OF g(1) r(1)]] ei(3) [OF good_subset [OF g(2) r(2)]]
      upto_mono [OF st(3) [unfolded ui(1)] r(1) order_refl] upto_mono [OF st(5) [unfolded ei(1)] r(2) order_refl]
    by (simp_all add: space_ok_def seq ui(1) ei(1))
  moreover have "texts_ok VE S C (install_snapshot_v003 S db')"
    using st(6) subsetD [OF r(2)] by (simp add: texts_ok_def ei(1)) blast
  moreover have "indexes_ok p (install_snapshot_v003 S db')"
    by (simp add: indexes_ok_def newest_level_index_def)
  ultimately show "store_ok S VU VE C p (install_snapshot_v003 S db')"
    using r(5) st(7) by (simp add: store_ok_def)
qed

text \<open>
  C14: A snapshot that is streamed to another node carries the whole state.  The store \<open>lm\<close> builds a
  snapshot; its entries are sent in messages, of which any part may arrive before the stream ends or
  breaks.  When the receiver reports a snapshot, all messages have arrived and the vote is the one
  that was sent.  A peer that is behind and installs the snapshot then shows for every key what \<open>lm\<close>
  showed, with the same system data up to the counts of keys, and satisfies the invariant.
\<close>

theorem snapshot_streamed_same:
  assumes "libs_ok S VU VE C" "snapshot_ok L C B F" "entries_ok T" "store_ok S VU VE C n lm" "n \<noteq> u64_max"
    and "do_build_snapshot S L c f n lm t ts = Inr ((meta, db), lm', n', f')"
    and "send_snapshot_in_stream_v004 L T S cancel accept v meta db = (out, r)" "set tail \<subseteq> {Inl ()}"
    and "do_install_snapshot_v004 L T (sl_value S) c' g ts' (map Inr (take j out) @ tail) = Inr ((v', meta', db'), g')"
    and "install_snapshot S L c' g' peer meta' db' = Inr (peer', g'')"
    and "map_option log_id_key (last_applied (lv_sys_data (lm_writable peer))) < map_option log_id_key (last_applied (lv_sys_data (lm_writable lm)))"
  shows "take j out = out \<and> v' = v \<and> store_ok S VU VE C p peer' \<and>
    seen (user_keys S) C peer' = seen (user_keys S) C lm \<and> seen (expire_keys S) C peer' = seen (expire_keys S) C lm \<and>
    (\<exists>counts. lv_sys_data (lm_writable peer') = (lv_sys_data (lm_writable lm))\<lparr>key_counts := counts\<rparr>) \<and>
    meta_last_log_id meta' = last_applied (lv_sys_data (lm_writable lm))"
proof -
  obtain counts where b: "db_sys_data db = (lv_sys_data (lm_writable lm))\<lparr>key_counts := counts\<rparr>"
    "\<And>db2 p. C (db_rotbl db2) = C (db_rotbl db) \<Longrightarrow> db_sys_data db2 = db_sys_data db \<Longrightarrow>
      store_ok S VU VE C p (install_snapshot_v003 S db2) \<and> lm_curr_seq (install_snapshot_v003 S db2) = lm_curr_seq lm \<and>
      seen (user_keys S) C (install_snapshot_v003 S db2) = seen (user_keys S) C lm \<and>
      seen (expire_keys S) C (install_snapshot_v003 S db2) = seen (expire_keys S) C lm"
    by (rule build_snapshot_props [OF assms(1,2,4,5,6)]) blast
  note r = v004_received [OF assms(3) libs_okD(3) [OF assms(1)] assms(2,7,8,9)]
  obtain jn where jn: "F g' (db_path db') = Some (C (db_rotbl db'), jn)" "sys_of_json L jn = Some (db_sys_data db)"
    using r(7) by blast
  obtain db2 where db2: "C (db_rotbl db2) = C (db_rotbl db')" "db_sys_data db2 = db_sys_data db" "peer' = do_install_snapshot S peer db2"
    by (rule install_opens [OF assms(2) jn assms(10)]) blast
  have p: "peer' = install_snapshot_v003 S db2"
    using assms(11) b(1) db2(2,3) by (auto simp: do_install_snapshot_def Let_def)
  have c2: "C (db_rotbl db2) k = (case C (db_rotbl db) k of None \<Rightarrow> None
      | Some raw \<Rightarrow> if marked raw = TombStone then None else ok_of (reencode (sl_value S) raw))" for k
    using r(4) db2(1) by simp
  have all: "\<forall>k raw. C (db_rotbl db) k = Some raw \<and> marked raw \<noteq> TombStone \<longrightarrow> (\<exists>m. reencode (sl_value S) raw = Inr m)"
    using r(5) by blast
  have ok: "store_ok S VU VE C p (install_snapshot_v003 S db)" using b(2) by blast
  note i = install_transferred [OF assms(1) ok db2(2) c2 all, folded p]
  have "lv_sys_data (lm_writable peer') = (lv_sys_data (lm_writable lm))\<lparr>key_counts := counts\<rparr>" using p db2(2) b(1) by simp
  moreover have "meta_last_log_id meta' = last_applied (lv_sys_data (lm_writable lm))" using r(6) b(1) by auto
  moreover have "seen (user_keys S) C peer' = seen (user_keys S) C lm" "seen (expire_keys S) C peer' = seen (expire_keys S) C lm"
    using i(2,3) b(2) [of db] by simp_all
  ultimately show ?thesis using r(1,3) i(1) by blast
qed

section \<open>A transfer in memory\<close>

definition tdemo_vote :: vote where
  "tdemo_vote = \<lparr>vote_term = 1, vote_node_id = 2, vote_committed = True\<rparr>"

definition tdemo_end :: "rstring \<times> vote \<times> snapshot_meta" where
  "tdemo_end = (ascii ''rotbl::v001'', tdemo_vote, idemo_meta)"

text \<open>Files that are read at most three bytes at a time; one end of a stream has a text.\<close>

definition tdemo_lib ::
  "('f \<Rightarrow> rstring \<Rightarrow> bytes option) \<Rightarrow> ('f \<Rightarrow> rstring \<times> bytes \<Rightarrow> 'f io_result) \<Rightarrow> ('f, bytes, rstring \<times> bytes) transfer_lib" where
  "tdemo_lib bytes_of sync =
    \<lparr>open_file = (\<lambda>f p. ok_or OtherError (bytes_of f p)), file_read = (\<lambda>h n. Inr (take (min n 3) h, drop (min n 3) h)),
     file_create_new = (\<lambda>f p. Inr ((p, []), f)), file_write_all = (\<lambda>h b. Inr (fst h, snd h @ b)), file_sync_all = sync,
     json_of_end = (\<lambda>e. if e = tdemo_end then Some [7] else None), end_of_json = (\<lambda>j. if j = [7] then Some tdemo_end else None),
     data_of_marked = (\<lambda>m. case marked m of TombStone \<Rightarrow> None | Normal b \<Rightarrow> Some (SeqData (internal_seq m) b)),
     seqv_of_data = (\<lambda>d. \<lparr>sv_seq = sd_seq d, sv_meta = fst (sd_data d), sv_data = snd (sd_data d)\<rparr>),
     marked_of_seqv = (\<lambda>v. SeqMarked (sv_seq v) (Normal (sv_meta v, sv_data v)))\<rparr>"

type_synonym byte_files = "(rstring \<times> bytes) list"

definition tdemo_bytes :: "(byte_files, bytes, rstring \<times> bytes) transfer_lib" where
  "tdemo_bytes = tdemo_lib map_of (\<lambda>f h. Inr (h # f))"

definition tdemo_dir :: "(byte_files, unit, unit) snapshot_lib" where
  "tdemo_dir = \<lparr>json_of_sys = (\<lambda>s. None), sys_of_json = (\<lambda>s. None), builder_new = (\<lambda>f d p. Inl OtherError),
    builder_storage_path = (\<lambda>w. []), builder_rel_path = (\<lambda>w. []), builder_append = (\<lambda>w k v. Inl OtherError),
    builder_commit = (\<lambda>f w m. Inl OtherError), rotbl_open = (\<lambda>f d p. Inl OtherError), rotbl_user_data = (\<lambda>r. []),
    fs_create_dir_all = (\<lambda>f d. Inr f), fs_rename = (\<lambda>f a b. Inl OtherError), fs_read_dir = (\<lambda>f d. Inl OtherError),
    fs_remove_file = (\<lambda>f p. Inl OtherError)\<rparr>"

definition tdemo_file :: byte_files where
  "tdemo_file = [(db_path idemo_db, [10, 20, 30, 40, 50])]"

lemma tdemo_bytes_ok: "transfer_ok tdemo_bytes (\<lambda>h. h) (\<lambda>h. h) map_of"
  by (auto simp: transfer_ok_def tdemo_bytes_def tdemo_lib_def ok_or_Inr_iff split: if_splits)

lemma tdemo_entries_ok: "entries_ok (tdemo_lib bytes_of sync)"
  by (simp add: entries_ok_def tdemo_lib_def)

definition tdemo_chunks :: "snapshot_chunk_request list" where
  "tdemo_chunks = [new_chunk [10, 20, 30, 40], new_chunk [50], \<lparr>rpc_meta = Some [7], chunk = []\<rparr>]"

lemma tdemo_stream:
  "snapshot_chunk_stream_v003 tdemo_bytes tdemo_file (\<lambda>i. False) (\<lambda>i. True) (Some 4) tdemo_vote idemo_meta idemo_db = Some (tdemo_chunks, Inr ())"
proof -
  have rd: "file_read tdemo_bytes h n = Inr (take (min n 3) h, drop (min n 3) h)" for h n by (simp add: tdemo_bytes_def tdemo_lib_def)
  have fill: "fill_buf tdemo_bytes 4 [10, 20, 30, 40, 50] [] = Inr ([10, 20, 30, 40], [50])" "fill_buf tdemo_bytes 4 [50] [] = Inr ([50], [])"
    "fill_buf tdemo_bytes 4 [] [] = Inr ([], [])"
    by (simp_all add: fill_buf.simps rd)
  have "chunk_loop tdemo_bytes (\<lambda>i. False) (\<lambda>i. True) 4 0 [10, 20, 30, 40, 50] [] = Some ([new_chunk [10, 20, 30, 40], new_chunk [50]], Inr True)"
    by (simp add: chunk_loop.simps fill)
  moreover have "open_file tdemo_bytes tdemo_file (db_path idemo_db) = Inr [10, 20, 30, 40, 50]"
    by (simp add: tdemo_bytes_def tdemo_lib_def tdemo_file_def)
  moreover have "new_end_chunk tdemo_bytes tdemo_vote idemo_meta = Some \<lparr>rpc_meta = Some [7], chunk = []\<rparr>"
    by (simp add: new_end_chunk_def tdemo_bytes_def tdemo_lib_def tdemo_end_def)
  ultimately show ?thesis by (simp add: snapshot_chunk_stream_v003_def Let_def tdemo_chunks_def)
qed

lemma tdemo_receive: "\<exists>x g'. receive_binary_snapshot tdemo_dir tdemo_bytes cdemo_config [] 5 tdemo_chunks = Inr (x, g')"
proof -
  have d: "fs_create_dir_all tdemo_dir f p = Inr f" for f p by (simp add: tdemo_dir_def)
  have t: "file_create_new tdemo_bytes f p = Inr ((p, []), f)" "file_write_all tdemo_bytes h b = Inr (fst h, snd h @ b)"
    "file_sync_all tdemo_bytes f h = Inr (h # f)" "end_of_json tdemo_bytes [7] = Some tdemo_end" for f p h b
    by (simp_all add: tdemo_bytes_def tdemo_lib_def)
  show ?thesis
    by (simp add: receive_binary_snapshot_def new_receiver_def ensure_snapshot_dir_def d t Let_def rmap_def tdemo_chunks_def
        receive_def receiver_new_def update_stat_def load_finish_chunk_def new_chunk_def tdemo_end_def)
qed

theorem chunk_stream_returns_witness:
  "transfer_ok tdemo_bytes (\<lambda>h. h) (\<lambda>h. h) map_of \<and>
   (\<exists>r. snapshot_chunk_stream_v003 tdemo_bytes tdemo_file (\<lambda>i. i = 1) (\<lambda>i. True) (Some 4) tdemo_vote idemo_meta idemo_db = Some r)"
  using chunk_stream_returns [OF tdemo_bytes_ok] tdemo_bytes_ok by blast

theorem received_is_complete_witness:
  "transfer_ok tdemo_bytes (\<lambda>h. h) (\<lambda>h. h) map_of \<and>
   snapshot_chunk_stream_v003 tdemo_bytes tdemo_file (\<lambda>i. False) (\<lambda>i. True) (Some 4) tdemo_vote idemo_meta idemo_db = Some (tdemo_chunks, Inr ()) \<and>
   (\<exists>x g'. receive_binary_snapshot tdemo_dir tdemo_bytes cdemo_config [] 5 tdemo_chunks = Inr (x, g') \<and> rc_vote x = tdemo_vote \<and>
     map_of g' (rc_storage_path x @ ascii ''/'' @ rc_temp_rel_path x) = Some [10, 20, 30, 40, 50])"
proof -
  obtain x g' where x: "receive_binary_snapshot tdemo_dir tdemo_bytes cdemo_config [] 5 tdemo_chunks = Inr (x, g')"
    using tdemo_receive by blast
  have s: "Some 4 \<noteq> Some (0 :: nat)" by simp
  from received_is_complete [OF tdemo_bytes_ok s tdemo_stream _ x] x tdemo_bytes_ok tdemo_stream show ?thesis
    by (simp add: tdemo_file_def)
qed

definition tdemo_tables :: "(mem_files, bytes, rstring \<times> bytes) transfer_lib" where
  "tdemo_tables = tdemo_lib (\<lambda>f p. None) (\<lambda>f h. Inl OtherError)"

definition tdemo_messages :: "install_entry list" where
  "tdemo_messages =
    [\<lparr>ie_version = 4, ie_key_values = [stream_item_new (fst sdemo_stored) (Some (seqv_to_pb \<lparr>sv_seq = 1, sv_meta = None, sv_data = [5]\<rparr>))],
      ie_commit = None\<rparr>,
     \<lparr>ie_version = 4, ie_key_values = [], ie_commit = Some \<lparr>cm_snapshot_id = snapshot_id_display idemo_id, cm_sys_data = idemo_text,
       cm_vote = Some (vote_to_pb tdemo_vote)\<rparr>\<rparr>]"

lemma tdemo_decode: "meta_value_decode small_values [1, 2, 5] = Inr (None, [5])" "meta_value_encode small_values (None, [5]) = Inr [1, 2, 5]"
proof -
  show e: "meta_value_encode small_values (None, [5]) = Inr [1, 2, 5]"
    by (simp add: meta_value_encode_def small_values_def meta_text_def pack_def unary_def)
  show "meta_value_decode small_values [1, 2, 5] = Inr (None, [5])" by (rule meta_value_roundtrip [OF small_values_ok e])
qed

lemma tdemo_send:
  "send_snapshot_in_stream_v004 mem_snapshots tdemo_tables mem_lib (\<lambda>i. False) (\<lambda>i. True) tdemo_vote idemo_meta idemo_db = (tdemo_messages, Inr ())"
proof -
  have rng: "db_inner_range at_lib idemo_db = [Inr sdemo_stored]"
    by (simp add: db_inner_range_def idemo_db_def at_lib_def sdemo_stored_def mem_keys_def in_range_def)
  have item: "entry_item tdemo_tables small_values sdemo_stored = Inr (Some (stream_item_new (fst sdemo_stored)
      (Some (seqv_to_pb \<lparr>sv_seq = 1, sv_meta = None, sv_data = [5]\<rparr>))))"
    by (simp add: entry_item_def tdemo_tables_def tdemo_lib_def sdemo_stored_def seq_data_decode_def tdemo_decode rmap_def)
  have "json_of_sys mem_snapshots (db_sys_data idemo_db) = Some idemo_text" using idemo_json(1) by (simp add: mem_snapshots_def)
  then show ?thesis
    by (simp add: send_snapshot_in_stream_v004_def rng item tdemo_messages_def idemo_meta_def)
qed

lemma tdemo_install:
  "do_install_snapshot_v004 mem_snapshots tdemo_tables small_values cdemo_config [] 7 (map Inr tdemo_messages) =
    Inr ((tdemo_vote, idemo_meta, idemo_db), idemo_files)"
proof -
  have m: "marked_of_seqv tdemo_tables v = SeqMarked (sv_seq v) (Normal (sv_meta v, sv_data v))" for v
    by (simp add: tdemo_tables_def tdemo_lib_def)
  have "receive_messages tdemo_tables small_values (map Inr tdemo_messages) =
    Inr ([Data sdemo_stored], Some \<lparr>cm_snapshot_id = snapshot_id_display idemo_id, cm_sys_data = idemo_text, cm_vote = Some (vote_to_pb tdemo_vote)\<rparr>)"
    by (simp add: tdemo_messages_def stream_item_new_def m seqv_roundtrip seq_marked_encode_def tdemo_decode rmap_def)
      (simp add: sdemo_stored_def)
  moreover have "writer_new mem_snapshots cdemo_config [] 7 = Inr ((snapshot_dir cdemo_config, temp_snapshot_id 7, []), [])"
    by (simp add: writer_new_def mem_snapshots_def)
  moreover have "sys_of_json mem_snapshots idemo_text = Some (db_sys_data idemo_db)"
    by (simp add: mem_snapshots_def idemo_json(2))
  moreover have "write_kv mem_snapshots cdemo_config [] (snapshot_dir cdemo_config, temp_snapshot_id 7, [])
      [Data sdemo_stored, Finish (idemo_id, db_sys_data idemo_db)] = Inr (idemo_db, idemo_files)"
    using idemo_writes .
  moreover have "last_applied (db_sys_data idemo_db) = Some (new_log_id 1 2 5)" "last_membership (db_sys_data idemo_db) = last_membership sys_data_default"
    by (simp_all add: idemo_db_def small_sys_def)
  ultimately show ?thesis
    by (simp add: do_install_snapshot_v004_def snapshot_id_roundtrip idemo_meta_def)
qed

lemma tdemo_finish:
  "\<exists>peer' g. install_snapshot mem_lib mem_snapshots cdemo_config idemo_files (leveled_map_default mem_lib) idemo_meta idemo_db = Inr (peer', g)"
proof -
  have "db_path idemo_db = snapshot_path cdemo_config (snapshot_id_display idemo_id)"
    by (simp add: db_path_def idemo_db_def snapshot_path_def)
  then have "move_to_final_path mem_snapshots cdemo_config idemo_files (db_path idemo_db) (snapshot_id_display idemo_id) =
    Inr ((snapshot_dir cdemo_config, snapshot_fn (snapshot_id_display idemo_id)), idemo_files)"
    by (simp add: move_to_final_path_def mem_snapshots_def Let_def idemo_files_def snapshot_path_def)
  then show ?thesis by (simp add: install_snapshot_def idemo_meta_def idemo_open)
qed

theorem snapshot_streamed_same_witness:
  "libs_ok mem_lib vt_versions vt_versions at_content \<and> snapshot_ok mem_snapshots at_content (\<lambda>w. snd (snd w)) mem_tables \<and>
   entries_ok tdemo_tables \<and> store_ok mem_lib vt_versions vt_versions at_content 1 idemo_map \<and>
   do_install_snapshot_v004 mem_snapshots tdemo_tables (sl_value mem_lib) cdemo_config [] 7 (map Inr tdemo_messages) =
     Inr ((tdemo_vote, idemo_meta, idemo_db), idemo_files) \<and>
   (\<exists>peer' g. install_snapshot mem_lib mem_snapshots cdemo_config idemo_files (leveled_map_default mem_lib) idemo_meta idemo_db = Inr (peer', g) \<and>
     seen (user_keys mem_lib) at_content peer' = seen (user_keys mem_lib) at_content idemo_map)"
proof -
  obtain lm' where b: "do_build_snapshot mem_lib mem_snapshots cdemo_config [] 1 idemo_map 9 7 = Inr ((idemo_meta, idemo_db), lm', 2, idemo_files)"
    using idemo_build by blast
  obtain peer' g where i: "install_snapshot mem_lib mem_snapshots cdemo_config idemo_files (leveled_map_default mem_lib) idemo_meta idemo_db = Inr (peer', g)"
    using tdemo_finish by blast
  have n: "(1 :: u64) \<noteq> u64_max" by (simp add: u64_max_numeral)
  have less: "map_option log_id_key (last_applied (lv_sys_data (lm_writable (leveled_map_default mem_lib)))) <
      map_option log_id_key (last_applied (lv_sys_data (lm_writable idemo_map)))"
    by (simp add: leveled_map_default_def level_default_def sys_data_default_def idemo_map_def idemo_level_def idemo_sys_def)
  have e: "entries_ok tdemo_tables" by (simp add: tdemo_tables_def tdemo_entries_ok)
  have r: "do_install_snapshot_v004 mem_snapshots tdemo_tables (sl_value mem_lib) cdemo_config [] 7
      (map Inr (take (length tdemo_messages) tdemo_messages) @ []) = Inr ((tdemo_vote, idemo_meta, idemo_db), idemo_files)"
    using tdemo_install by simp
  have "set [] \<subseteq> {Inl () :: unit + install_entry}" by simp
  from snapshot_streamed_same [OF mem_lib_ok mem_snapshots_ok e idemo_store_ok n b tdemo_send this r i less]
  show ?thesis using mem_lib_ok mem_snapshots_ok e idemo_store_ok r i by auto
qed

end
