(* ===== verification/Kv_Api.thy ===== *)
theory Kv_Api
  imports Store_Run
begin

text \<open>
  Reads of the state machine by its clients (\<open>sm_v003/sm_v003_kv_api.rs\<close> and the provided methods of
  \<open>kvapi/src/kv_api_ext.rs\<close>): get and list on a view of the leveled store at the current sequence
  number, without tombstones and without values that have expired by the clock of the node.

  The conversion of a stored version to a value and the test of its expiry are functions of the
  crates \<open>state_machine_api\<close> and \<open>seq_marked\<close>; they are fields of \<open>kv_lib\<close>.  A stream is the list of its
  items; \<open>add_cooperative_yielding\<close> only lets other tasks run.
\<close>

section \<open>Functions of other crates\<close>

record kv_lib =
  kv_into_seqv :: "meta_value seq_marked \<Rightarrow> bytes seqv option"
  kv_is_expired :: "bytes seqv \<Rightarrow> u64 \<Rightarrow> bool"
  kv_opt_is_expired :: "bytes seqv option \<Rightarrow> u64 \<Rightarrow> bool"

text \<open>A tombstone has no value; an optional value is expired when it is a value that is expired.\<close>

definition kv_lib_ok :: "kv_lib \<Rightarrow> bool" where
  "kv_lib_ok K \<longleftrightarrow>
    (\<forall>s. kv_into_seqv K (SeqMarked s TombStone) = None) \<and>
    (\<forall>s m v. kv_into_seqv K (SeqMarked s (Normal (m, v))) = Some \<lparr>sv_seq = s, sv_meta = m, sv_data = v\<rparr>) \<and>
    (\<forall>v t. kv_opt_is_expired K (Some v) t = kv_is_expired K v t)"

section \<open>Streams\<close>

fun try_filter :: "('a \<Rightarrow> bool) \<Rightarrow> 'a strm \<Rightarrow> 'a strm" where
  "try_filter P [] = []"
| "try_filter P (Inl e # rest) = Inl e # try_filter P rest"
| "try_filter P (Inr a # rest) = (if P a then Inr a # try_filter P rest else try_filter P rest)"

definition map_ok :: "('a \<Rightarrow> 'b) \<Rightarrow> 'a strm \<Rightarrow> 'b strm" where
  "map_ok f = map (rmap f)"

definition and_then :: "('a \<Rightarrow> 'b io_result) \<Rightarrow> 'a strm \<Rightarrow> 'b strm" where
  "and_then f = map (\<lambda>x. rbind x f)"

fun try_collect :: "'a strm \<Rightarrow> 'a list io_result" where
  "try_collect [] = Inr []"
| "try_collect (x # rest) = rbind x (\<lambda>a. rbind (try_collect rest) (\<lambda>as. Inr (a # as)))"

text \<open>The limit is cast to \<open>usize\<close>, which has 64 bits.\<close>

definition limit_stream :: "'a strm \<Rightarrow> u64 option \<Rightarrow> 'a strm" where
  "limit_stream strm limit = (case limit of Some n \<Rightarrow> take (unat n) strm | None \<Rightarrow> strm)"

text \<open>The flag of the scan says that an error was passed on.\<close>

fun fail_fast_from :: "bool \<Rightarrow> 'a strm \<Rightarrow> 'a strm" where
  "fail_fast_from stop [] = []"
| "fail_fast_from stop (x # rest) = (if stop then [] else x # fail_fast_from (isl x) rest)"

definition fail_fast :: "'a strm \<Rightarrow> 'a strm" where
  "fail_fast = fail_fast_from False"

section \<open>The read interface of the state machine\<close>

record ('a, 'b, 'r) state_machine_snapshot =
  sn_seq :: u64
  sn_map :: "('a, 'b, 'r) leveled_map"

definition to_state_machine_snapshot :: "('a, 'b, 'r) leveled_map \<Rightarrow> ('a, 'b, 'r) state_machine_snapshot" where
  "to_state_machine_snapshot lm = \<lparr>sn_seq = lm_curr_seq lm, sn_map = lm\<rparr>"

definition snapshot_get ::
  "('a, 'b, 'r) store_lib \<Rightarrow> ('a, 'b, 'r) state_machine_snapshot \<Rightarrow> rstring \<Rightarrow> meta_value seq_marked io_result" where
  "snapshot_get S sn k = lm_get S (user_keys S) (sn_map sn) k (sn_seq sn)"

definition snapshot_range ::
  "('a, 'b, 'r) store_lib \<Rightarrow> ('a, 'b, 'r) state_machine_snapshot \<Rightarrow> rstring bound \<times> rstring bound \<Rightarrow>
   (rstring \<times> meta_value seq_marked) strm" where
  "snapshot_range S sn r = lm_range S (user_keys S) (sn_map sn) r (sn_seq sn)"

definition kvapi_list_kv ::
  "('a, 'b, 'r) store_lib \<Rightarrow> kv_lib \<Rightarrow> u64 \<Rightarrow> ('a, 'b, 'r) leveled_map \<Rightarrow> rstring \<Rightarrow> u64 option \<Rightarrow> stream_item strm" where
  "kvapi_list_kv S K local_now_ms lm p limit =
    (let snapshot_view = to_state_machine_snapshot lm;
         strm =
           (case prefix_right_bound p of
              Some right \<Rightarrow> snapshot_range S snapshot_view (Included p, Excluded right)
            | None \<Rightarrow> snapshot_range S snapshot_view (Included p, Unbounded));
         strm = try_filter_map (\<lambda>(k, m). map_option (\<lambda>v. (k, v)) (kv_into_seqv K m)) strm;
         strm = try_filter (\<lambda>(k, v). \<not> kv_is_expired K v local_now_ms) strm
     in limit_stream (map_ok stream_item_of_pair strm) limit)"

definition non_expired :: "kv_lib \<Rightarrow> bytes seqv option \<Rightarrow> u64 \<Rightarrow> bytes seqv option" where
  "non_expired K v now_ms = (if kv_opt_is_expired K v now_ms then None else v)"

definition get_many_kv ::
  "('a, 'b, 'r) store_lib \<Rightarrow> kv_lib \<Rightarrow> u64 \<Rightarrow> ('a, 'b, 'r) leveled_map \<Rightarrow> rstring strm \<Rightarrow> stream_item strm" where
  "get_many_kv S K local_now_ms lm keys =
    (let snapshot = to_state_machine_snapshot lm in
     and_then (\<lambda>key. rbind (snapshot_get S snapshot key) (\<lambda>got.
       Inr (stream_item_of_option (key, non_expired K (kv_into_seqv K got) local_now_ms)))) (fail_fast keys))"

section \<open>Provided methods\<close>

definition get_kv_stream ::
  "('a, 'b, 'r) store_lib \<Rightarrow> kv_lib \<Rightarrow> u64 \<Rightarrow> ('a, 'b, 'r) leveled_map \<Rightarrow> rstring list \<Rightarrow> stream_item strm" where
  "get_kv_stream S K now lm keys = get_many_kv S K now lm (map Inr keys)"

text \<open>An incomplete stream is an \<open>io::Error\<close>; the rest of the stream is drained.\<close>

definition get_kv ::
  "('a, 'b, 'r) store_lib \<Rightarrow> kv_lib \<Rightarrow> u64 \<Rightarrow> ('a, 'b, 'r) leveled_map \<Rightarrow> rstring \<Rightarrow> bytes seqv option io_result" where
  "get_kv S K now lm key =
    (case get_kv_stream S K now lm [key] of
       [] \<Rightarrow> Inl UnexpectedEof
     | item # rest \<Rightarrow> rbind item (\<lambda>it. rbind (try_collect rest) (\<lambda>_. Inr (map_option seqv_from_pb (si_value it)))))"

definition mget_kv ::
  "('a, 'b, 'r) store_lib \<Rightarrow> kv_lib \<Rightarrow> u64 \<Rightarrow> ('a, 'b, 'r) leveled_map \<Rightarrow> rstring list \<Rightarrow> bytes seqv option list io_result" where
  "mget_kv S K now lm keys =
    rbind (try_collect (map_ok (\<lambda>it. map_option seqv_from_pb (si_value it)) (get_kv_stream S K now lm keys))) (\<lambda>vs.
      if length vs \<noteq> length keys then Inl UnexpectedEof else Inr vs)"

text \<open>The \<open>unwrap\<close> of the value panics when a listed item has none.\<close>

definition list_kv_collect ::
  "('a, 'b, 'r) store_lib \<Rightarrow> kv_lib \<Rightarrow> u64 \<Rightarrow> ('a, 'b, 'r) leveled_map \<Rightarrow> rstring \<Rightarrow> u64 option \<Rightarrow>
   (rstring \<times> bytes seqv) list io_result" where
  "list_kv_collect S K now lm p limit =
    try_collect (and_then (\<lambda>it. ok_or Panicked (into_pair it)) (kvapi_list_kv S K now lm p limit))"

section \<open>Lemmas on streams\<close>

lemma no_error_iff: "no_error strm \<longleftrightarrow> (\<exists>xs. strm = map Inr xs)"
proof
  assume "no_error strm"
  then have "strm = map Inr (map projr strm)" by (induction strm) (auto simp: no_error_def)
  then show "\<exists>xs. strm = map Inr xs" by blast
qed (auto simp: no_error_def list_all_iff)

lemma try_collect_Inr: "try_collect strm = Inr xs \<longleftrightarrow> strm = map Inr xs"
  by (induction strm arbitrary: xs) auto

lemma strm_ops_Inr [simp]:
  "try_filter P (map Inr xs) = map Inr (filter P xs)"
  "try_filter_map f (map Inr xs) = map Inr (List.map_filter f xs)"
  "map_ok g (map Inr xs) = map Inr (map g xs)"
  "and_then h (map Inr xs) = map h xs"
  "fail_fast (map Inr xs) = map Inr xs"
proof -
  show "try_filter P (map Inr xs) = map Inr (filter P xs)" by (induction xs) auto
  show "try_filter_map f (map Inr xs) = map Inr (List.map_filter f xs)"
    by (induction xs) (auto simp: map_filter_simps split: option.splits)
  have "fail_fast_from False (map Inr xs) = map Inr xs" by (induction xs) auto
  then show "fail_fast (map Inr xs) = map Inr xs" by (simp add: fail_fast_def)
qed (simp_all add: map_ok_def and_then_def)

lemma strm_ops_error:
  "no_error (try_filter P strm) \<Longrightarrow> no_error strm"
  "no_error (try_filter_map f strm') \<Longrightarrow> no_error strm'"
  "no_error (map_ok g strm'') \<Longrightarrow> no_error strm''"
  "and_then h strm3 = map Inr ys \<Longrightarrow> no_error strm3"
proof -
  show "no_error (try_filter P strm) \<Longrightarrow> no_error strm"
    by (induction P strm rule: try_filter.induct) (auto simp: no_error_def split: if_splits)
  show "no_error (try_filter_map f strm') \<Longrightarrow> no_error strm'"
    by (induction f strm' rule: try_filter_map.induct) (auto simp: no_error_def split: option.splits)
  show "no_error (map_ok g strm'') \<Longrightarrow> no_error strm''"
    by (auto simp: no_error_def map_ok_def list_all_iff rmap_def isl_def)
  show "no_error strm3" if "and_then h strm3 = map Inr ys"
    using that
  proof (induction strm3 arbitrary: ys)
    case (Cons x strm3)
    then show ?case by (cases ys) (auto simp: no_error_def and_then_def)
  qed (simp add: no_error_def)
qed

section \<open>What a client sees\<close>

text \<open>The value of a key at the time \<open>now\<close>.\<close>

definition live ::
  "('a, 'b, 'r) store_lib \<Rightarrow> ('r \<Rightarrow> rstring \<Rightarrow> bytes seq_marked option) \<Rightarrow> kv_lib \<Rightarrow> u64 \<Rightarrow> ('a, 'b, 'r) leveled_map \<Rightarrow>
   rstring \<Rightarrow> bytes seqv option" where
  "live S C K now lm k =
    (case seen (user_keys S) C lm k of
       None \<Rightarrow> None
     | Some (s, m, v) \<Rightarrow>
         (let sv = \<lparr>sv_seq = s, sv_meta = m, sv_data = v\<rparr> in if kv_is_expired K sv now then None else Some sv))"

lemma kv_into_seqv_value:
  assumes "kv_lib_ok K"
  shows "kv_into_seqv K x = map_option (\<lambda>(s, m, v). \<lparr>sv_seq = s, sv_meta = m, sv_data = v\<rparr>) (value_of x)"
  using assms by (cases x; cases "marked x") (auto simp: kv_lib_ok_def value_of_def)

lemma non_expired_value:
  assumes "kv_lib_ok K"
  shows "non_expired K v now = (case v of None \<Rightarrow> None | Some sv \<Rightarrow> if kv_is_expired K sv now then None else Some sv)"
  using assms by (cases v) (auto simp: kv_lib_ok_def non_expired_def)

lemma live_shown:
  assumes "kv_lib_ok K" "value_of x = seen (user_keys S) C lm k"
  shows "non_expired K (kv_into_seqv K x) now = live S C K now lm k"
  by (auto simp: non_expired_value [OF assms(1)] kv_into_seqv_value [OF assms(1)] assms(2) live_def Let_def split: option.splits)

lemma live_item_value: "map_option seqv_from_pb (si_value (stream_item_of_option (k, v))) = v"
  by (cases v) (simp_all add: stream_item_of_option_def stream_item_new_def)

lemma get_many_live:
  assumes "libs_ok S VU VE C" "kv_lib_ok K" "try_collect (get_kv_stream S K now lm keys) = Inr items"
  shows "items = map (\<lambda>k. stream_item_of_option (k, live S C K now lm k)) keys"
proof -
  let ?f = "\<lambda>key. rbind (lm_get S (user_keys S) lm key (lm_curr_seq lm)) (\<lambda>got.
     Inr (stream_item_of_option (key, non_expired K (kv_into_seqv K got) now)))"
  have "map ?f keys = map Inr items"
    using assms(3) by (simp add: try_collect_Inr get_kv_stream_def get_many_kv_def to_state_machine_snapshot_def snapshot_get_def)
  then show ?thesis
  proof (induction keys arbitrary: items)
    case (Cons k keys)
    then obtain i items' where items: "items = i # items'" "?f k = Inr i" "map ?f keys = map Inr items'"
      by (cases items) auto
    from items(2) obtain got where got: "lm_get S (user_keys S) lm k (lm_curr_seq lm) = Inr got"
      "i = stream_item_of_option (k, non_expired K (kv_into_seqv K got) now)" by auto
    have "value_of got = seen (user_keys S) C lm k"
      by (rule get_seen [OF assms(1) got(1) libs_okD(5) [OF assms(1)]])
    with got(2) items Cons.IH [OF items(3)] show ?case by (simp add: live_shown [OF assms(2)])
  qed simp
qed

text \<open>The keys and values that a listing without a limit shows.\<close>

definition live_items :: "kv_lib \<Rightarrow> u64 \<Rightarrow> (rstring \<times> meta_value seq_marked) list \<Rightarrow> (rstring \<times> bytes seqv) list" where
  "live_items K now xs =
    filter (\<lambda>(k, v). \<not> kv_is_expired K v now) (List.map_filter (\<lambda>(k, m). map_option (\<lambda>v. (k, v)) (kv_into_seqv K m)) xs)"

lemma live_items_Cons:
  "live_items K now ((k, m) # xs) =
    (case kv_into_seqv K m of None \<Rightarrow> [] | Some v \<Rightarrow> if kv_is_expired K v now then [] else [(k, v)]) @ live_items K now xs"
  by (auto simp: live_items_def map_filter_simps split: option.splits)

lemma live_items_keys: "fst ` set (live_items K now xs) \<subseteq> fst ` set xs"
proof (induction xs)
  case (Cons x xs)
  obtain k m where "x = (k, m)" by fastforce
  with Cons show ?case by (auto simp: live_items_Cons split: option.splits if_splits)
qed (simp add: live_items_def map_filter_simps)

lemma live_items_sorted: "sorted_wrt (<) (map fst xs) \<Longrightarrow> sorted_wrt (<) (map fst (live_items K now xs))"
proof (induction xs)
  case (Cons x xs)
  obtain k m where x: "x = (k, m)" by fastforce
  have "\<forall>y \<in> fst ` set xs. k < y" using Cons.prems by (simp add: x)
  then have "\<forall>y \<in> set (map fst (live_items K now xs)). k < y"
    using live_items_keys [of K now xs] by (simp only: set_map) blast
  with Cons show ?case by (auto simp: x live_items_Cons sorted_wrt_append split: option.splits if_splits)
qed (simp add: live_items_def map_filter_simps)

lemma live_items_set:
  "(k, v) \<in> set (live_items K now xs) \<longleftrightarrow> (\<exists>m. (k, m) \<in> set xs \<and> kv_into_seqv K m = Some v \<and> \<not> kv_is_expired K v now)"
  by (induction xs) (auto simp: live_items_Cons live_items_def map_filter_simps split: option.splits if_splits)

lemma live_Some:
  assumes "kv_lib_ok K" "m = lm_shown (user_keys S) C lm k (lm_curr_seq lm)"
  shows "live S C K now lm k = Some v \<longleftrightarrow> kv_into_seqv K m = Some v \<and> \<not> kv_is_expired K v now"
  using live_shown [OF assms(1), of m S C lm k now] assms(2)
  by (auto simp: seen_def non_expired_value [OF assms(1)] split: option.splits if_splits)

lemma listed_range:
  assumes "list_kv_collect S K now lm p limit = Inr xs"
  shows "let strm = lm_range S (user_keys S) lm (prefix_bounds p) (lm_curr_seq lm) in
    limit = None \<longrightarrow> no_error strm \<and> xs = live_items K now (ok_items strm)"
    and "let strm = lm_range S (user_keys S) lm (prefix_bounds p) (lm_curr_seq lm) in
    no_error strm \<longrightarrow> list_kv_collect S K now lm p (Some n) = Inr (take (unat n) (live_items K now (ok_items strm)))"
proof -
  let ?strm = "lm_range S (user_keys S) lm (prefix_bounds p) (lm_curr_seq lm)"
  let ?flt = "\<lambda>s. try_filter (\<lambda>(k, v). \<not> kv_is_expired K v now) (try_filter_map (\<lambda>(k, m). map_option (\<lambda>v. (k, v)) (kv_into_seqv K m)) s)"
  have listed: "kvapi_list_kv S K now lm p l = limit_stream (map_ok stream_item_of_pair (?flt ?strm)) l" for l
    by (cases "prefix_right_bound p")
      (simp_all add: kvapi_list_kv_def to_state_machine_snapshot_def snapshot_range_def prefix_bounds_def)
  have pair: "ok_or Panicked (into_pair (stream_item_of_pair x)) = Inr x" for x
    by (cases x) (simp add: into_pair_def stream_item_of_pair_def stream_item_new_def)
  have all: "list_kv_collect S K now lm p l = Inr (case l of None \<Rightarrow> live_items K now ys | Some n \<Rightarrow> take (unat n) (live_items K now ys))"
    if "?strm = map Inr ys" for ys l
  proof -
    have "kvapi_list_kv S K now lm p l = limit_stream (map Inr (map stream_item_of_pair (live_items K now ys))) l"
      unfolding listed that live_items_def by (simp only: strm_ops_Inr)
    then show ?thesis
      by (cases l) (simp_all add: list_kv_collect_def limit_stream_def try_collect_Inr and_then_def pair take_map comp_def)
  qed
  have none: "no_error ?strm" if "limit = None"
  proof -
    from assms(1) that have "and_then (\<lambda>it. ok_or Panicked (into_pair it)) (map_ok stream_item_of_pair (?flt ?strm)) = map Inr xs"
      by (simp add: list_kv_collect_def listed limit_stream_def try_collect_Inr)
    from strm_ops_error(2) [OF strm_ops_error(1) [OF strm_ops_error(3) [OF strm_ops_error(4) [OF this]]]] show ?thesis .
  qed
  show "let strm = ?strm in limit = None \<longrightarrow> no_error strm \<and> xs = live_items K now (ok_items strm)"
    unfolding Let_def
  proof (intro impI conjI)
    assume l: "limit = None"
    then show "no_error ?strm" by (rule none)
    then obtain ys where ys: "?strm = map Inr ys" by (auto simp only: no_error_iff)
    with all [OF this, of limit] assms(1) l show "xs = live_items K now (ok_items ?strm)" by (simp only: ok_items_map_Inr) simp
  qed
  show "let strm = ?strm in no_error strm \<longrightarrow> list_kv_collect S K now lm p (Some n) = Inr (take (unat n) (live_items K now (ok_items strm)))"
    unfolding Let_def
  proof
    assume "no_error ?strm"
    then obtain ys where ys: "?strm = map Inr ys" by (auto simp only: no_error_iff)
    with all [OF this, of "Some n"] show "list_kv_collect S K now lm p (Some n) = Inr (take (unat n) (live_items K now (ok_items ?strm)))"
      by (simp only: ok_items_map_Inr) simp
  qed
qed


section \<open>Properties\<close>

text \<open>
  C9: Reads through the interface of the state machine.  A listing by a prefix that succeeds has, in
  ascending order, exactly the keys that start with the prefix and hold a value which has not
  expired, with these values; with a limit it is the beginning of this list.  For a prefix whose last
  character below the maximum is U+D7FF it has all such keys from the prefix on.  Reads of one key or
  of many keys that succeed return the same values.
\<close>

theorem kvapi_reads_exact:
  assumes "libs_ok S VU VE C" "store_ok S VU VE C n lm" "kv_lib_ok K"
    and "\<forall>k. live S C K now lm k \<noteq> None \<longrightarrow> valid_str k"
    and "list_kv_collect S K now lm p None = Inr xs"
  shows "sorted_wrt (<) (map fst xs) \<and> (\<forall>k v. (k, v) \<in> set xs \<longleftrightarrow> listed_by p k \<and> live S C K now lm k = Some v) \<and>
    (\<forall>m. list_kv_collect S K now lm p (Some m) = Inr (take (unat m) xs)) \<and>
    (\<forall>k v. get_kv S K now lm k = Inr v \<longrightarrow> v = live S C K now lm k) \<and>
    (\<forall>ks vs. mget_kv S K now lm ks = Inr vs \<longrightarrow> vs = map (live S C K now lm) ks)"
proof -
  let ?r = "prefix_bounds p" and ?s = "lm_curr_seq lm"
  let ?strm = "lm_range S (user_keys S) lm ?r ?s"
  have strm: "no_error ?strm" "xs = live_items K now (ok_items ?strm)"
    using listed_range(1) [OF assms(5)] by (simp_all add: Let_def)
  have rs: "range_shows ?r (\<lambda>k. lm_shown (user_keys S) C lm k ?s) (ok_items ?strm)"
    by (rule user_range_shows [OF assms(1,2) strm(1)])
  have mem: "(k, v) \<in> set xs \<longleftrightarrow> listed_by p k \<and> live S C K now lm k = Some v" for k v
  proof -
    let ?m = "lm_shown (user_keys S) C lm k ?s"
    have found: "?m \<noteq> not_found" if "kv_into_seqv K ?m = Some v"
      using that by (auto simp: kv_into_seqv_value [OF assms(3)])
    have "(k, v) \<in> set xs \<longleftrightarrow> in_range ?r k \<and> live S C K now lm k = Some v"
      unfolding strm(2) live_items_set live_Some [OF assms(3) refl] using rs found unfolding range_shows_def by metis
    moreover have "in_range ?r k \<longleftrightarrow> listed_by p k" if "live S C K now lm k = Some v"
      using that assms(4) by (intro prefix_bounds_listed) simp
    ultimately show ?thesis by blast
  qed
  have sorted: "sorted_wrt (<) (map fst xs)"
    unfolding strm(2) using rs by (intro live_items_sorted) (simp add: range_shows_def)
  have limit: "list_kv_collect S K now lm p (Some m) = Inr (take (unat m) xs)" for m
    using listed_range(2) [OF assms(5)] strm by (simp add: Let_def)
  have get: "v = live S C K now lm k" if "get_kv S K now lm k = Inr v" for k v
  proof -
    from that obtain it where "try_collect (get_kv_stream S K now lm [k]) = Inr [it]" "v = map_option seqv_from_pb (si_value it)"
      by (auto simp: get_kv_def get_kv_stream_def get_many_kv_def try_collect_Inr fail_fast_def and_then_def split: list.splits)
    with get_many_live [OF assms(1,3) this(1)] show ?thesis by (simp add: live_item_value)
  qed
  have mget: "vs = map (live S C K now lm) ks" if "mget_kv S K now lm ks = Inr vs" for ks vs
  proof -
    let ?strm = "get_kv_stream S K now lm ks" and ?g = "\<lambda>it. map_option seqv_from_pb (si_value it)"
    have *: "map_ok ?g ?strm = map Inr vs"
      using that by (auto simp: mget_kv_def try_collect_Inr split: if_splits)
    then have "no_error (map_ok ?g ?strm)" by (simp only: no_error_map_Inr)
    from strm_ops_error(3) [OF this] obtain items where items: "?strm = map Inr items" by (auto simp: no_error_iff)
    with * have "(map Inr (map ?g items) :: bytes seqv option strm) = map Inr vs" by (simp only: strm_ops_Inr)
    from arg_cong [OF this, of "map projr"] have "vs = map ?g items" by (simp add: comp_def)
    moreover have "items = map (\<lambda>k. stream_item_of_option (k, live S C K now lm k)) ks"
      by (rule get_many_live [OF assms(1,3)]) (simp add: items try_collect_Inr)
    ultimately show ?thesis by (simp add: live_item_value)
  qed
  from sorted mem limit get mget show ?thesis by blast
qed


section \<open>A small store\<close>

definition kdemo_lib :: kv_lib where
  "kdemo_lib =
    \<lparr>kv_into_seqv = (\<lambda>m. map_option (\<lambda>(s, km, v). \<lparr>sv_seq = s, sv_meta = km, sv_data = v\<rparr>) (value_of m)),
     kv_is_expired = (\<lambda>v t. case sv_meta v of
        Some km \<Rightarrow> (case expire_at km of Some e \<Rightarrow> e < t | None \<Rightarrow> False) | None \<Rightarrow> False),
     kv_opt_is_expired = (\<lambda>v t. case v of Some sv \<Rightarrow>
        (case sv_meta sv of Some km \<Rightarrow> (case expire_at km of Some e \<Rightarrow> e < t | None \<Rightarrow> False) | None \<Rightarrow> False)
      | None \<Rightarrow> False)\<rparr>"

lemma kdemo_lib_ok: "kv_lib_ok kdemo_lib"
  by (simp add: kv_lib_ok_def kdemo_lib_def)

definition kdemo_value :: "bytes seqv" where
  "kdemo_value = \<lparr>sv_seq = 2, sv_meta = fst (sdemo_value 7), sv_data = snd (sdemo_value 7)\<rparr>"

lemma kdemo_range:
  "lm_range mem_lib (user_keys mem_lib) (mc_map sdemo5) (Included [97], Excluded [98]) 2 = [Inr (sdemo_entry 2 7)]"
proof -
  have "db_range mem_lib (user_keys mem_lib) sdemo_db (Included [97], Excluded [98]) 2 = [Inr (sdemo_entry 1 5)]"
    by (simp add: db_range_def sdemo_db_def at_lib_def mem_keys_def sdemo_stored_def encode_range_def in_range_def
      encode_key_def decode_key_def user_key_prefix_def user_key_encode_def user_key_decode_def expire_key_prefix_def
      seq_marked_decode_def meta_value_decode_def small_values_def unpack_def sdemo_entry_def sdemo_value_def)
  then have "immutable_data_range mem_lib (user_keys mem_lib) (immutable_data_new [] (Some sdemo_db)) (Included [97], Excluded [98]) 2 =
      [Inr (sdemo_entry 1 5)]"
    by (simp add: immutable_data_range_def newest_to_oldest_def vt_coalesce_def vt_range_def mem_keys_def
        sdemo_entry_def in_range_def vt_get_def vt_seen_def)
  then show ?thesis
    by (simp add: lm_range_def sdemo5_def sdemo_level_def sdemo_entry_def vt_coalesce_def vt_range_def mem_keys_def in_range_def
        vt_get_def vt_seen_def vt_max_def sm_le_def)
qed

lemma kdemo_seq: "lm_curr_seq (mc_map sdemo5) = 2"
  by (simp add: lm_curr_seq_def curr_seq_def sdemo5_def sdemo_level_def)

lemma kdemo_ok: "store_ok mem_lib vt_versions vt_versions at_content (mc_next sdemo5) (mc_map sdemo5)"
  using sdemo5_ok by (simp add: machine_ok_def)

lemma kdemo_bound: "prefix_right_bound [97] = Some [98]"
  by (simp add: prefix_right_bound_def is_scalar_def)

lemma kdemo_keys: "\<forall>k. live mem_lib at_content kdemo_lib now (mc_map sdemo5) k \<noteq> None \<longrightarrow> valid_str k"
proof (intro allI impI)
  fix k
  let ?m = "lm_shown (user_keys mem_lib) at_content (mc_map sdemo5) k 2"
  assume "live mem_lib at_content kdemo_lib now (mc_map sdemo5) k \<noteq> None"
  then have "?m \<noteq> not_found" by (auto simp: live_def seen_def kdemo_seq)
  moreover have "range_shows (Unbounded, Unbounded) (\<lambda>k. lm_shown (user_keys mem_lib) at_content (mc_map sdemo5) k 2) [sdemo_entry 2 7]"
    using user_range_shows [OF mem_lib_ok kdemo_ok, where r = "(Unbounded, Unbounded)" and s = 2] by (simp add: kdemo_seq sdemo_range no_error_def)
  ultimately have "(k, ?m) = sdemo_entry 2 7" unfolding range_shows_def by (simp add: in_range_def)
  then show "valid_str k" by (simp add: sdemo_entry_def valid_str_def is_scalar_def)
qed

lemma kdemo_list: "list_kv_collect mem_lib kdemo_lib 0 (mc_map sdemo5) [97] None = Inr [([97], kdemo_value)]"
  by (simp add: list_kv_collect_def kvapi_list_kv_def kdemo_bound to_state_machine_snapshot_def kdemo_seq snapshot_range_def kdemo_range
      sdemo_entry_def sdemo_value_def kdemo_lib_def kdemo_value_def limit_stream_def map_ok_def and_then_def into_pair_def
      stream_item_of_pair_def stream_item_new_def)

theorem kvapi_reads_exact_witness:
  "list_kv_collect mem_lib kdemo_lib 0 (mc_map sdemo5) [97] None = Inr [([97], kdemo_value)] \<and>
   live mem_lib at_content kdemo_lib 0 (mc_map sdemo5) [97] = Some kdemo_value \<and>
   live mem_lib at_content kdemo_lib 0 (mc_map sdemo5) [97, 98] = None \<and>
   list_kv_collect mem_lib kdemo_lib 0 (mc_map sdemo5) [97] (Some 0) = Inr []"
proof -
  note kvapi_reads_exact [OF mem_lib_ok kdemo_ok kdemo_lib_ok kdemo_keys kdemo_list]
  then have reads: "(k, v) \<in> set [([97], kdemo_value)] \<longleftrightarrow> prefix [97] k \<and> live mem_lib at_content kdemo_lib 0 (mc_map sdemo5) k = Some v"
    "list_kv_collect mem_lib kdemo_lib 0 (mc_map sdemo5) [97] (Some m) = Inr (take (unat m) [([97], kdemo_value)])" for k v m
    by (simp_all add: listed_by_def no_next_char_def is_scalar_def del: set_simps)
  have "live mem_lib at_content kdemo_lib 0 (mc_map sdemo5) [97, 98] = None"
    using reads(1) [of "[97, 98]"] by (cases "live mem_lib at_content kdemo_lib 0 (mc_map sdemo5) [97, 98]") auto
  with reads(1) [of "[97]" kdemo_value] reads(2) [of 0] kdemo_list show ?thesis by simp
qed

end
