(* ===== verification/Meta_Node.thy ===== *)
theory Meta_Node
  imports Kv_Api Network Applier
begin

text \<open>
  The request path of a meta node (\<open>meta_node/meta_node.rs\<close>, \<open>meta_service/meta_leader.rs\<close>,
  \<open>meta_service/forwarder.rs\<close>, \<open>message.rs\<close>, \<open>util.rs\<close> of the service): finding the leader, handling a
  request as the leader or forwarding it with a quota and retries, and changing the members of the
  cluster.

  Raft (\<open>openraft\<close>), the transport, JSON and the clock are library code: the record \<open>node_env\<close>.  The
  type \<open>'w\<close> is the world of the node, which calls may change; \<open>ne_sm\<close> is the state machine in it.
  Computations that may wait for ever or panic return an option, \<open>None\<close> for not returning.  Messages
  of errors, metrics, logs and pauses are left out.
\<close>

section \<open>Requests and replies\<close>

record join_request =
  jr_node_id :: u64
  jr_endpoint :: endpoint
  jr_grpc_api_advertise_address :: "rstring option"
  jr_role :: "rstring option"

definition join_request_new :: "u64 \<Rightarrow> endpoint \<Rightarrow> rstring option \<Rightarrow> join_request" where
  "join_request_new i e a =
    \<lparr>jr_node_id = i, jr_endpoint = e, jr_grpc_api_advertise_address = a, jr_role = None\<rparr>"

definition join_role :: "join_request \<Rightarrow> rstring" where
  "join_role r = (case jr_role r of Some x \<Rightarrow> x | None \<Rightarrow> ascii ''voter'')"

datatype forward_request_body =
    Ping
  | Join join_request
  | Leave u64
  | Write log_entry
  | GetKV rstring
  | MGetKV "rstring list"
  | ListKV rstring

datatype forward_response =
    Pong
  | JoinDone
  | LeaveDone
  | AppliedStateResp applied_state
  | GetKVReply "bytes seqv option"
  | MGetKVReply "bytes seqv option list"
  | ListKVReply "(rstring \<times> bytes seqv) list"

record 'q forward_request =
  forward_to_leader :: u64
  fr_body :: 'q

definition can_forward :: "('q, 'z) forward_request_scheme \<Rightarrow> bool" where
  "can_forward r \<longleftrightarrow> 0 < forward_to_leader r"

text \<open>\<open>None\<close> is \<open>CanNotForwardError\<close>.\<close>

definition fr_next :: "'q forward_request \<Rightarrow> 'q forward_request option" where
  "fr_next r = (if can_forward r then Some (r\<lparr>forward_to_leader := forward_to_leader r - 1\<rparr>) else None)"

section \<open>Errors\<close>

datatype meta_network_error = ConnectionError | GetNodeAddrError | InvalidArgumentError | InvalidReplyError

datatype change_membership_error = CM_InProgress | CM_EmptyMembership | CM_LearnerNotFound

datatype meta_data_error = WriteError | ChangeMembershipError change_membership_error | ReadError

text \<open>The leader hint of \<open>ForwardToLeader\<close>.\<close>

datatype meta_operation_error =
    MO_ForwardToLeader "u64 option"
  | MO_WriteError
  | MO_ChangeMembershipError change_membership_error
  | MO_ReadError

datatype meta_api_error =
    API_ForwardToLeader "u64 option"
  | API_CanNotForward
  | API_NetworkError meta_network_error
  | API_DataError meta_data_error
  | API_RemoteError meta_data_error

datatype forward_rpc_error = RPC_NetworkError meta_network_error | RPC_RemoteError meta_api_error

datatype forward_request_error = FR_CanNotForward | FR_NetworkError meta_network_error | FR_DataError meta_data_error

datatype client_write_error = CW_ForwardToLeader "u64 option" | CW_ChangeMembershipError change_membership_error

datatype raft_error = RaftAPIError client_write_error | RaftFatal

fun peel :: "meta_operation_error \<Rightarrow> u64 option + meta_data_error" where
  "peel (MO_ForwardToLeader l) = Inl l"
| "peel MO_WriteError = Inr WriteError"
| "peel (MO_ChangeMembershipError e) = Inr (ChangeMembershipError e)"
| "peel MO_ReadError = Inr ReadError"

fun operation_error_of_raft :: "raft_error \<Rightarrow> meta_operation_error" where
  "operation_error_of_raft (RaftAPIError (CW_ForwardToLeader l)) = MO_ForwardToLeader l"
| "operation_error_of_raft (RaftAPIError (CW_ChangeMembershipError e)) = MO_ChangeMembershipError e"
| "operation_error_of_raft RaftFatal = MO_WriteError"

fun request_error_of_rpc :: "forward_rpc_error \<Rightarrow> forward_request_error" where
  "request_error_of_rpc (RPC_NetworkError e) = FR_NetworkError e"
| "request_error_of_rpc (RPC_RemoteError (API_DataError e)) = FR_DataError e"
| "request_error_of_rpc (RPC_RemoteError (API_RemoteError e)) = FR_DataError e"
| "request_error_of_rpc (RPC_RemoteError (API_NetworkError e)) = FR_NetworkError e"
| "request_error_of_rpc (RPC_RemoteError API_CanNotForward) = FR_CanNotForward"
| "request_error_of_rpc (RPC_RemoteError (API_ForwardToLeader l)) = FR_CanNotForward"

fun api_error_of_request :: "forward_request_error \<Rightarrow> meta_api_error" where
  "api_error_of_request FR_CanNotForward = API_CanNotForward"
| "api_error_of_request (FR_NetworkError e) = API_NetworkError e"
| "api_error_of_request (FR_DataError e) = API_DataError e"

fun is_retryable :: "meta_api_error \<Rightarrow> bool" where
  "is_retryable API_CanNotForward = True"
| "is_retryable (API_RemoteError (ChangeMembershipError CM_InProgress)) = True"
| "is_retryable (API_RemoteError _) = False"
| "is_retryable (API_ForwardToLeader _) = True"
| "is_retryable (API_NetworkError _) = True"
| "is_retryable (API_DataError (ChangeMembershipError _)) = True"
| "is_retryable (API_DataError _) = False"

section \<open>Libraries\<close>

text \<open>
  The status of a failed call is given as the network error that it is converted to.  The metrics of raft that the node reads, and what it observes when it waits for them to change: the
  values with the time in milliseconds at which each is examined, the end of the list when no further
  change arrives, \<open>Closed\<close> when the sender is gone.
\<close>

record raft_metrics =
  current_leader :: "u64 option"
  membership_config :: membership

datatype metric_event = Metrics raft_metrics nat | Closed

datatype change_members = AddNodes u64 | AddVoters u64 | RemoveVoters u64 | RemoveNodes u64

datatype initialize_result = Initialized | NotAllowed | NotInMembers | InitializeFatal

record ('a, 'b, 'r, 'c, 'w) node_env =
  ne_store :: "('a, 'b, 'r) store_lib"
  ne_kv :: kv_lib
  ne_sm :: "'w \<Rightarrow> ('a, 'b, 'r) leveled_map"
  ne_now_ms :: "'w \<Rightarrow> u64"
  ne_metrics :: "'w \<Rightarrow> raft_metrics"
  ne_wait_metrics :: "'w \<Rightarrow> metric_event list \<times> 'w"
  ne_client_write :: "'w \<Rightarrow> log_entry \<Rightarrow> (raft_error + applied_state) \<times> 'w"
  ne_change_membership :: "'w \<Rightarrow> change_members \<Rightarrow> bool \<Rightarrow> (raft_error + unit) \<times> 'w"
  ne_initialize :: "'w \<Rightarrow> u64 \<Rightarrow> initialize_result \<times> 'w"
  ne_connect :: "'w \<Rightarrow> rstring \<Rightarrow> 'c option \<times> 'w"
  ne_call_forward :: "'w \<Rightarrow> 'c \<Rightarrow> forward_request_body forward_request \<Rightarrow> (meta_network_error + raft_reply) \<times> 'w"
  ne_response_of_json :: "rstring \<Rightarrow> forward_response option"
  ne_api_error_of_json :: "rstring \<Rightarrow> meta_api_error option"

definition voter_ids :: "membership \<Rightarrow> u64 set" where
  "voter_ids m = set (concat (joint_config m))"

definition ne_sys_data :: "('a, 'b, 'r, 'c, 'w) node_env \<Rightarrow> 'w \<Rightarrow> sys_data" where
  "ne_sys_data X w = lv_sys_data (lm_writable (ne_sm X w))"

section \<open>The leader\<close>

definition leader_write ::
  "('a, 'b, 'r, 'c, 'w) node_env \<Rightarrow> 'w \<Rightarrow> log_entry \<Rightarrow> (raft_error + applied_state) \<times> 'w" where
  "leader_write X w e = ne_client_write X w (e\<lparr>le_time_ms := Some (ne_now_ms X w)\<rparr>)"

definition join ::
  "('a, 'b, 'r, 'c, 'w) node_env \<Rightarrow> 'w \<Rightarrow> join_request \<Rightarrow> (raft_error + unit) \<times> 'w" where
  "join X w req =
    (let role = join_role req; node_id = jr_node_id req in
     if node_id \<in> voter_ids (membership_config (ne_metrics X w)) then (Inr (), w)
     else
       let ent = log_entry_new (AddNode node_id
             (with_grpc_advertise_address (node_new (show_nat (unat node_id)) (jr_endpoint req)) (jr_grpc_api_advertise_address req))
             False)
       in case leader_write X w ent of
            (Inl e, w1) \<Rightarrow> (Inl e, w1)
          | (Inr st, w1) \<Rightarrow>
              (let msg = (if role = ascii ''learner'' then AddNodes node_id else AddVoters node_id)
               in ne_change_membership X w1 msg False))"

text \<open>\<open>None\<close> is the panic of \<open>unwrap\<close> on a membership without any configuration.\<close>

definition can_leave :: "('a, 'b, 'r, 'c, 'w) node_env \<Rightarrow> 'w \<Rightarrow> u64 \<Rightarrow> bool option" where
  "can_leave X w i =
    (let configs = joint_config (sm_membership (last_membership (ne_sys_data X w))) in
     if configs = [] then None
     else let last_config = last configs in Some (\<not> (i \<in> set last_config \<and> length last_config = 1)))"

definition leave ::
  "('a, 'b, 'r, 'c, 'w) node_env \<Rightarrow> u64 \<Rightarrow> 'w \<Rightarrow> u64 \<Rightarrow> ((meta_operation_error + unit) \<times> 'w) option" where
  "leave X self w node_id =
    (if node_id = self then Some (Inl MO_ReadError, w)
     else case can_leave X w node_id of
       None \<Rightarrow> None
     | Some False \<Rightarrow> Some (Inr (), w)
     | Some True \<Rightarrow>
         let m = sm_membership (last_membership (ne_sys_data X w));
             msg = (if node_id \<in> voter_ids m then RemoveVoters node_id else RemoveNodes node_id)
         in case ne_change_membership X w msg False of
              (Inl e, w1) \<Rightarrow> Some (Inl (operation_error_of_raft e), w1)
            | (Inr _, w1) \<Rightarrow>
                (case leader_write X w1 (log_entry_new (RemoveNode node_id)) of
                   (Inl e, w2) \<Rightarrow> Some (Inl (operation_error_of_raft e), w2)
                 | (Inr _, w2) \<Rightarrow> Some (Inr (), w2)))"

text \<open>A read that fails is a \<open>MetaDataReadError\<close>.\<close>

definition read_reply ::
  "('v \<Rightarrow> forward_response) \<Rightarrow> 'v io_result \<Rightarrow> 'w \<Rightarrow> ((meta_operation_error + forward_response) \<times> 'w) option" where
  "read_reply f r w = Some ((case r of Inl e \<Rightarrow> Inl MO_ReadError | Inr v \<Rightarrow> Inr (f v)), w)"

definition leader_handle ::
  "('a, 'b, 'r, 'c, 'w) node_env \<Rightarrow> u64 \<Rightarrow> 'w \<Rightarrow> forward_request_body forward_request \<Rightarrow>
   ((meta_operation_error + forward_response) \<times> 'w) option" where
  "leader_handle X self w req =
    (let S = ne_store X; K = ne_kv X; now = ne_now_ms X w; sm = ne_sm X w in
     case fr_body req of
       Ping \<Rightarrow> Some (Inr Pong, w)
     | Join r \<Rightarrow>
         (case join X w r of
            (Inl e, w1) \<Rightarrow> Some (Inl (operation_error_of_raft e), w1)
          | (Inr _, w1) \<Rightarrow> Some (Inr JoinDone, w1))
     | Leave i \<Rightarrow>
         (case leave X self w i of
            None \<Rightarrow> None
          | Some (Inl e, w1) \<Rightarrow> Some (Inl e, w1)
          | Some (Inr _, w1) \<Rightarrow> Some (Inr LeaveDone, w1))
     | Write e \<Rightarrow>
         (case leader_write X w e of
            (Inl e, w1) \<Rightarrow> Some (Inl (operation_error_of_raft e), w1)
          | (Inr st, w1) \<Rightarrow> Some (Inr (AppliedStateResp st), w1))
     | GetKV k \<Rightarrow> read_reply GetKVReply (get_kv S K now sm k) w
     | MGetKV ks \<Rightarrow> read_reply MGetKVReply (mget_kv S K now sm ks) w
     | ListKV p \<Rightarrow> read_reply ListKVReply (list_kv_collect S K now sm p None) w)"

section \<open>Finding the leader\<close>

text \<open>
  A leader that is not a voter does not count.  The deadline is set in the first round; it is only
  examined when the metrics have changed.  \<open>Inl ()\<close> is the closed channel.
\<close>

definition voting_leader :: "raft_metrics \<Rightarrow> u64 option" where
  "voting_leader m =
    Option.bind (current_leader m) (\<lambda>l. if l \<in> voter_ids (membership_config m) then Some l else None)"

fun get_leader_loop :: "nat option \<Rightarrow> metric_event list \<Rightarrow> (unit + u64 option) option" where
  "get_leader_loop expires [] = None"
| "get_leader_loop expires (Closed # rest) = Some (Inl ())"
| "get_leader_loop expires (Metrics m now # rest) =
    (case voting_leader m of
       Some l \<Rightarrow> Some (Inr (Some l))
     | None \<Rightarrow>
         (let e = (case expires of None \<Rightarrow> now + 2000 | Some e \<Rightarrow> e)
          in if e < now then Some (Inr None) else get_leader_loop (Some e) rest))"

definition get_leader :: "('a, 'b, 'r, 'c, 'w) node_env \<Rightarrow> 'w \<Rightarrow> ((unit + u64 option) \<times> 'w) option" where
  "get_leader X w =
    (let (events, w1) = ne_wait_metrics X w in map_option (\<lambda>r. (r, w1)) (get_leader_loop None events))"

text \<open>The leader as which the node may act, or the leader it knows of.\<close>

definition assume_leader ::
  "('a, 'b, 'r, 'c, 'w) node_env \<Rightarrow> u64 \<Rightarrow> 'w \<Rightarrow> ((u64 option + unit) \<times> 'w) option" where
  "assume_leader X self w =
    (case get_leader X w of
       None \<Rightarrow> None
     | Some (Inl _, w1) \<Rightarrow> Some (Inl None, w1)
     | Some (Inr leader_id, w1) \<Rightarrow>
         if leader_id = Some self then Some (Inr (), w1) else Some (Inl leader_id, w1))"

section \<open>Forwarding\<close>

definition reply_to_api_result ::
  "(rstring \<Rightarrow> 't option) \<Rightarrow> (rstring \<Rightarrow> meta_api_error option) \<Rightarrow> raft_reply \<Rightarrow> meta_api_error + 't" where
  "reply_to_api_result of_json err_of_json msg =
    (if rr_data msg \<noteq> [] then
       (case of_json (rr_data msg) of None \<Rightarrow> Inl (API_NetworkError InvalidReplyError) | Some r \<Rightarrow> Inr r)
     else
       (case err_of_json (rr_error msg) of None \<Rightarrow> Inl (API_NetworkError InvalidReplyError) | Some e \<Rightarrow> Inl e))"

definition get_node :: "('a, 'b, 'r, 'c, 'w) node_env \<Rightarrow> 'w \<Rightarrow> u64 \<Rightarrow> node option" where
  "get_node X w i = nodes (ne_sys_data X w) i"

definition new_raft_client ::
  "('a, 'b, 'r, 'c, 'w) node_env \<Rightarrow> 'w \<Rightarrow> u64 \<Rightarrow> (meta_network_error + endpoint \<times> 'c) \<times> 'w" where
  "new_raft_client X w target =
    (case map_option node_endpoint (get_node X w target) of
       None \<Rightarrow> (Inl GetNodeAddrError, w)
     | Some e \<Rightarrow>
         (case ne_connect X w (ascii ''http://'' @ endpoint_display e) of
            (None, w1) \<Rightarrow> (Inl ConnectionError, w1)
          | (Some c, w1) \<Rightarrow> (Inr (e, c), w1)))"

definition forwarder_forward ::
  "('a, 'b, 'r, 'c, 'w) node_env \<Rightarrow> 'w \<Rightarrow> u64 \<Rightarrow> forward_request_body forward_request \<Rightarrow>
   (forward_rpc_error + endpoint \<times> forward_response) \<times> 'w" where
  "forwarder_forward X w target req =
    (case new_raft_client X w target of
       (Inl e, w1) \<Rightarrow> (Inl (RPC_NetworkError e), w1)
     | (Inr (endpoint, client), w1) \<Rightarrow>
         (case ne_call_forward X w1 client req of
            (Inl e, w2) \<Rightarrow> (Inl (RPC_NetworkError e), w2)
          | (Inr msg, w2) \<Rightarrow>
              (case reply_to_api_result (ne_response_of_json X) (ne_api_error_of_json X) msg of
                 Inl e \<Rightarrow> (Inl (RPC_RemoteError e), w2)
               | Inr resp \<Rightarrow> (Inr (endpoint, resp), w2))))"

definition get_leader_endpoint :: "('a, 'b, 'r, 'c, 'w) node_env \<Rightarrow> 'w \<Rightarrow> u64 option \<Rightarrow> endpoint option" where
  "get_leader_endpoint X w leader_id =
    Option.bind leader_id (\<lambda>l. Option.bind (get_node X w l) (\<lambda>n. Option.bind (grpc_api_advertise_address n) (\<lambda>a.
      case endpoint_parse a of Inl e \<Rightarrow> None | Inr e \<Rightarrow> Some e)))"

text \<open>
  The second half of a round: the request is sent to the leader that is known; after a network error
  the next round follows, if there is one.
\<close>

definition send_to_leader ::
  "('a, 'b, 'r, 'c, 'w) node_env \<Rightarrow>
   ('w \<Rightarrow> u64 \<Rightarrow> 'q forward_request \<Rightarrow> (forward_rpc_error + endpoint \<times> 'p) \<times> 'w) \<Rightarrow>
   ('w \<Rightarrow> ((forward_request_error + endpoint option \<times> 'p) \<times> 'w) option) option \<Rightarrow>
   'q forward_request \<Rightarrow> u64 option \<Rightarrow> 'w \<Rightarrow> ((forward_request_error + endpoint option \<times> 'p) \<times> 'w) option" where
  "send_to_leader X forward next_round req to_leader w =
    (case to_leader of
       None \<Rightarrow> Some (Inl FR_CanNotForward, w)
     | Some leader_id \<Rightarrow>
         (case fr_next req of
            None \<Rightarrow> Some (Inl FR_CanNotForward, w)
          | Some next \<Rightarrow>
              (case forward w leader_id next of
                 (Inr reply, w1) \<Rightarrow> Some (Inr (get_leader_endpoint X w1 (Some leader_id), snd reply), w1)
               | (Inl e, w1) \<Rightarrow>
                   (case (e, next_round) of
                      (RPC_NetworkError _, Some retry) \<Rightarrow> retry w1
                    | _ \<Rightarrow> Some (Inl (request_error_of_rpc e), w1)))))"

text \<open>
  The loop over the retries, which counts down from 20; the source cannot reach the count 0.  The
  handler and the forwarder of the kind of request are arguments.
\<close>

fun forward_loop ::
  "('a, 'b, 'r, 'c, 'w) node_env \<Rightarrow> u64 \<Rightarrow>
   ('w \<Rightarrow> 'q forward_request \<Rightarrow> ((meta_operation_error + 'p) \<times> 'w) option) \<Rightarrow>
   ('w \<Rightarrow> u64 \<Rightarrow> 'q forward_request \<Rightarrow> (forward_rpc_error + endpoint \<times> 'p) \<times> 'w) \<Rightarrow>
   nat \<Rightarrow> 'q forward_request \<Rightarrow> 'w \<Rightarrow> ((forward_request_error + endpoint option \<times> 'p) \<times> 'w) option" where
  "forward_loop X self handle forward 0 req w = None"
| "forward_loop X self handle forward (Suc n) req w =
    (let next_round = (if n = 0 then None else Some (\<lambda>w. forward_loop X self handle forward n req w));
         send = send_to_leader X forward next_round req
     in case assume_leader X self w of
          None \<Rightarrow> None
        | Some (Inl to_leader, w1) \<Rightarrow> send to_leader w1
        | Some (Inr _, w1) \<Rightarrow>
            (case handle w1 req of
               None \<Rightarrow> None
             | Some (Inr reply, w2) \<Rightarrow> Some (Inr (None, reply), w2)
             | Some (Inl e, w2) \<Rightarrow>
                 (case peel e of Inr data_err \<Rightarrow> Some (Inl (FR_DataError data_err), w2) | Inl to_leader \<Rightarrow> send to_leader w2)))"

definition handle_forwardable_request ::
  "('a, 'b, 'r, 'c, 'w) node_env \<Rightarrow> u64 \<Rightarrow>
   ('w \<Rightarrow> 'q forward_request \<Rightarrow> ((meta_operation_error + 'p) \<times> 'w) option) \<Rightarrow>
   ('w \<Rightarrow> u64 \<Rightarrow> 'q forward_request \<Rightarrow> (forward_rpc_error + endpoint \<times> 'p) \<times> 'w) \<Rightarrow>
   'q forward_request \<Rightarrow> 'w \<Rightarrow> ((forward_request_error + endpoint option \<times> 'p) \<times> 'w) option" where
  "handle_forwardable_request X self handle forward req w = forward_loop X self handle forward 20 req w"

text \<open>The service that receives a forwarded request; the reply carries the result as JSON.\<close>

definition service_forward ::
  "('a, 'b, 'r, 'c, 'w) node_env \<Rightarrow> u64 \<Rightarrow>
   ('w \<Rightarrow> u64 \<Rightarrow> forward_request_body forward_request \<Rightarrow> (forward_rpc_error + endpoint \<times> forward_response) \<times> 'w) \<Rightarrow>
   forward_request_body forward_request \<Rightarrow> 'w \<Rightarrow> ((meta_api_error + forward_response) \<times> 'w) option" where
  "service_forward X self forward req w =
    (case handle_forwardable_request X self (leader_handle X self) forward req w of
       None \<Rightarrow> None
     | Some (Inl e, w1) \<Rightarrow> Some (Inl (api_error_of_request e), w1)
     | Some (Inr (_, resp), w1) \<Rightarrow> Some (Inr resp, w1))"

section \<open>Operations of a node\<close>

definition forward_body ::
  "('a, 'b, 'r, 'c, 'w) node_env \<Rightarrow> u64 \<Rightarrow> u64 \<Rightarrow> forward_request_body \<Rightarrow> 'w \<Rightarrow>
   ((forward_request_error + endpoint option \<times> forward_response) \<times> 'w) option" where
  "forward_body X self quota b w =
    handle_forwardable_request X self (leader_handle X self) (forwarder_forward X) \<lparr>forward_to_leader = quota, fr_body = b\<rparr> w"

text \<open>A reply that is not an applied state panics.\<close>

definition node_write ::
  "('a, 'b, 'r, 'c, 'w) node_env \<Rightarrow> u64 \<Rightarrow> log_entry \<Rightarrow> 'w \<Rightarrow> ((forward_request_error + applied_state) \<times> 'w) option" where
  "node_write X self e w =
    (case forward_body X self 1 (Write e) w of
       None \<Rightarrow> None
     | Some (Inl err, w1) \<Rightarrow> Some (Inl err, w1)
     | Some (Inr (_, AppliedStateResp st), w1) \<Rightarrow> Some (Inr st, w1)
     | Some (Inr _, w1) \<Rightarrow> None)"

definition add_node ::
  "('a, 'b, 'r, 'c, 'w) node_env \<Rightarrow> u64 \<Rightarrow> u64 \<Rightarrow> node \<Rightarrow> 'w \<Rightarrow> ((meta_api_error + applied_state) \<times> 'w) option" where
  "add_node X self node_id n w =
    (case node_write X self (log_entry_new (AddNode node_id n False)) w of
       None \<Rightarrow> None
     | Some (Inl e, w1) \<Rightarrow> Some (Inl (api_error_of_request e), w1)
     | Some (Inr resp, w1) \<Rightarrow>
         (case ne_change_membership X w1 (AddNodes node_id) True of
            (Inl e, w2) \<Rightarrow>
              Some (Inl (case operation_error_of_raft e of
                           MO_ForwardToLeader l \<Rightarrow> API_ForwardToLeader l
                         | MO_WriteError \<Rightarrow> API_DataError WriteError
                         | MO_ChangeMembershipError c \<Rightarrow> API_DataError (ChangeMembershipError c)
                         | MO_ReadError \<Rightarrow> API_DataError ReadError), w2)
          | (Inr _, w2) \<Rightarrow> Some (Inr resp, w2)))"

datatype meta_startup_error = InvalidConfig | MetaServiceError | AddNodeError

definition init_cluster ::
  "('a, 'b, 'r, 'c, 'w) node_env \<Rightarrow> u64 \<Rightarrow> node \<Rightarrow> 'w \<Rightarrow> ((meta_startup_error + unit) \<times> 'w) option" where
  "init_cluster X self n w =
    (let (res, w1) = ne_initialize X w self;
         rest = (if get_node X w1 self = None
                 then (case add_node X self self n w1 of
                         None \<Rightarrow> None
                       | Some (Inl e, w2) \<Rightarrow> Some (Inl AddNodeError, w2)
                       | Some (Inr _, w2) \<Rightarrow> Some (Inr (), w2))
                 else Some (Inr (), w1))
     in case res of
          Initialized \<Rightarrow> rest
        | NotAllowed \<Rightarrow> rest
        | NotInMembers \<Rightarrow> Some (Inl InvalidConfig, w1)
        | InitializeFatal \<Rightarrow> Some (Inl MetaServiceError, w1))"

text \<open>The statuses of the gRPC handlers; redirection carries the endpoint of the leader in its metadata.\<close>

datatype kv_status = NotLeader "endpoint option" | InternalError

definition leader_or_forward ::
  "('a, 'b, 'r, 'c, 'w) node_env \<Rightarrow> u64 \<Rightarrow> 'w \<Rightarrow> ((kv_status + unit) \<times> 'w) option" where
  "leader_or_forward X self w =
    (case assume_leader X self w of
       None \<Rightarrow> None
     | Some (Inr _, w1) \<Rightarrow> Some (Inr (), w1)
     | Some (Inl l, w1) \<Rightarrow> Some (Inl (NotLeader (get_leader_endpoint X w1 l)), w1))"

definition handle_kv_transaction ::
  "('a, 'b, 'r, 'c, 'w) node_env \<Rightarrow> u64 \<Rightarrow> kv_txn \<Rightarrow> 'w \<Rightarrow> ((kv_status + kv_transaction_reply) \<times> 'w) option" where
  "handle_kv_transaction X self txn w =
    (case leader_or_forward X self w of
       None \<Rightarrow> None
     | Some (Inl s, w1) \<Rightarrow> Some (Inl s, w1)
     | Some (Inr _, w1) \<Rightarrow>
         (case leader_write X w1 (log_entry_new (KvTransaction txn)) of
            (Inr (AppliedKvTransactionReply reply), w2) \<Rightarrow> Some (Inr reply, w2)
          | (Inr _, w2) \<Rightarrow> None
          | (Inl (RaftAPIError (CW_ForwardToLeader l)), w2) \<Rightarrow> Some (Inl (NotLeader (get_leader_endpoint X w2 l)), w2)
          | (Inl _, w2) \<Rightarrow> Some (Inl InternalError, w2)))"

section \<open>Joining a cluster\<close>

record node_config =
  cfg_id :: u64
  cfg_join :: "rstring list"
  cfg_learner :: bool
  cfg_advertise_host :: rstring
  cfg_raft_api_port :: u16
  cfg_grpc_advertise_address :: "rstring option"

definition is_in_cluster :: "('a, 'b, 'r, 'c, 'w) node_env \<Rightarrow> u64 \<Rightarrow> 'w \<Rightarrow> bool" where
  "is_in_cluster X self w \<longleftrightarrow> self \<in> voter_ids (sm_membership (last_membership (ne_sys_data X w)))"

definition join_via ::
  "('a, 'b, 'r, 'c, 'w) node_env \<Rightarrow> node_config \<Rightarrow> 'w \<Rightarrow> rstring \<Rightarrow> (meta_api_error + unit) \<times> 'w" where
  "join_via X cfg w address =
    (case ne_connect X w address of
       (None, w1) \<Rightarrow> (Inl (API_NetworkError ConnectionError), w1)
     | (Some c, w1) \<Rightarrow>
         (let req = join_request_new (cfg_id cfg) (endpoint_new (cfg_advertise_host cfg) (cfg_raft_api_port cfg))
                      (cfg_grpc_advertise_address cfg);
              req = (if cfg_learner cfg then req\<lparr>jr_role := Some (ascii ''learner'')\<rparr> else req)
          in case ne_call_forward X w1 c \<lparr>forward_to_leader = 1, fr_body = Join req\<rparr> of
               (Inl e, w2) \<Rightarrow> (Inl (API_NetworkError e), w2)
             | (Inr msg, w2) \<Rightarrow>
                 (case reply_to_api_result (ne_response_of_json X) (ne_api_error_of_json X) msg of
                    Inl e \<Rightarrow> (Inl e, w2)
                  | Inr _ \<Rightarrow> (Inr (), w2))))"

text \<open>Three attempts by one address; \<open>errors\<close> are the ones that are reported in the end.\<close>

fun join_attempts ::
  "('a, 'b, 'r, 'c, 'w) node_env \<Rightarrow> node_config \<Rightarrow> nat \<Rightarrow> 'w \<Rightarrow> rstring \<Rightarrow> (meta_api_error list + unit) \<times> 'w" where
  "join_attempts X cfg 0 w address = (Inl [], w)"
| "join_attempts X cfg (Suc n) w address =
    (case join_via X cfg w address of
       (Inr _, w1) \<Rightarrow> (Inr (), w1)
     | (Inl e, w1) \<Rightarrow> if is_retryable e then join_attempts X cfg n w1 address else (Inl [e], w1))"

fun do_join_cluster ::
  "('a, 'b, 'r, 'c, 'w) node_env \<Rightarrow> node_config \<Rightarrow> rstring list \<Rightarrow> meta_api_error list \<Rightarrow> 'w \<Rightarrow>
   (meta_api_error list + unit) \<times> 'w" where
  "do_join_cluster X cfg [] errors w = (Inl errors, w)"
| "do_join_cluster X cfg (a # as) errors w =
    (if a = cfg_advertise_host cfg @ ascii '':'' @ show_nat (unat (cfg_raft_api_port cfg)) then do_join_cluster X cfg as errors w
     else case join_attempts X cfg 3 w a of
            (Inr _, w1) \<Rightarrow> (Inr (), w1)
          | (Inl es, w1) \<Rightarrow> do_join_cluster X cfg as (errors @ es) w1)"

text \<open>\<open>Inr False\<close> is the result of a node that did not need to join.\<close>

definition join_cluster ::
  "('a, 'b, 'r, 'c, 'w) node_env \<Rightarrow> node_config \<Rightarrow> u64 \<Rightarrow> 'w \<Rightarrow> (meta_api_error list + bool) \<times> 'w" where
  "join_cluster X cfg self w =
    (if cfg_join cfg = [] then (Inr False, w)
     else if is_in_cluster X self w then (Inr False, w)
     else case do_join_cluster X cfg (cfg_join cfg) [] w of
            (Inl es, w1) \<Rightarrow> (Inl es, w1)
          | (Inr _, w1) \<Rightarrow> (Inr True, w1))"

end
