(* ===== verification/Apply_Types.thy ===== *)
theory Apply_Types
  imports Mem_Run
begin

text \<open>
  The shape of replies: every log entry is answered by a reply of the kind that its command asks for,
  and every operation of a transaction by a response of its kind for its key.  Callers rely on it when
  they convert an applied state (\<open>applied_state.rs\<close>) or a response (\<open>txn_op_response_ext.rs\<close>).
\<close>

fun op_response_ok :: "txn_operation \<Rightarrow> txn_op_response \<Rightarrow> bool" where
  "op_response_ok (Get key) (RespGet r) \<longleftrightarrow> tgr_key r = key"
| "op_response_ok (Put t p) (RespPut r) \<longleftrightarrow> tpo_key r = kl_key t"
| "op_response_ok (OpDelete t) (RespDelete r) \<longleftrightarrow> tdo_key r = kl_key t"
| "op_response_ok (DeleteByPrefix pre) (RespDeleteByPrefix r) \<longleftrightarrow> tdp_prefix r = pre"
| "op_response_ok (FetchIncreaseU64 t d f) (RespFetchIncreaseU64 r) \<longleftrightarrow> fir_key r = kl_key t"
| "op_response_ok (PutSequential pre k p) (RespPut r) \<longleftrightarrow> prefix pre (tpo_key r)"
| "op_response_ok _ _ \<longleftrightarrow> False"

text \<open>The branch that is reported, when the first branch has number \<open>i\<close>.\<close>

definition branches_reply_ok :: "nat \<Rightarrow> branch list \<Rightarrow> kv_transaction_reply \<Rightarrow> bool" where
  "branches_reply_ok i bs r \<longleftrightarrow>
    (case executed_branch r of
       None \<Rightarrow> ktr_responses r = []
     | Some j \<Rightarrow> \<exists>k < length bs. j = word_of_nat (i + k) \<and> list_all2 op_response_ok (br_operations (bs ! k)) (ktr_responses r))"

definition txn_reply_ok :: "kv_txn \<Rightarrow> kv_transaction_reply \<Rightarrow> bool" where
  "txn_reply_ok t = branches_reply_ok 0 (branches t)"

fun cmd_reply_ok :: "pb_enums \<Rightarrow> cmd \<Rightarrow> applied_state \<Rightarrow> bool" where
  "cmd_reply_ok E (AddNode i n ov) st \<longleftrightarrow> (\<exists>p r. st = AppliedNode p (Some r))"
| "cmd_reply_ok E (RemoveNode i) st \<longleftrightarrow> (\<exists>p. st = AppliedNode p None)"
| "cmd_reply_ok E (SetFeature f b) st \<longleftrightarrow> st = AppliedNone"
| "cmd_reply_ok E (UpsertKV u) st \<longleftrightarrow> (\<exists>c. st = AppliedKV c)"
| "cmd_reply_ok E (CmdTransaction t) st \<longleftrightarrow> (\<exists>r. st = AppliedKvTransactionReply r \<and> txn_reply_ok (txn_from_legacy E t) r)"
| "cmd_reply_ok E (KvTransaction t) st \<longleftrightarrow> (\<exists>r. st = AppliedKvTransactionReply r \<and> txn_reply_ok t r)"

definition entry_reply_ok :: "pb_enums \<Rightarrow> entry \<Rightarrow> applied_state \<Rightarrow> bool" where
  "entry_reply_ok E e st \<longleftrightarrow>
    (case entry_payload e of Normal_Entry d \<Rightarrow> cmd_reply_ok E (le_cmd d) st | _ \<Rightarrow> st = AppliedNone)"

lemma execute_get_typed: "execute_get X a key = Inr r \<Longrightarrow> tgr_key r = key"
  by (auto simp: execute_get_def)

lemma execute_put_typed: "execute_put X a t p = Inr (r, a') \<Longrightarrow> tpo_key r = kl_key t"
  by (auto simp: execute_put_def Let_def)

lemma execute_delete_typed: "execute_delete X a t = Inr (r, a') \<Longrightarrow> tdo_key r = kl_key t"
  by (auto simp: execute_delete_def Let_def)

lemma execute_delete_by_prefix_typed: "execute_delete_by_prefix X a pre = Inr (r, a') \<Longrightarrow> tdp_prefix r = pre"
  by (auto simp: execute_delete_by_prefix_def)

lemma execute_fetch_increase_typed: "execute_fetch_increase_u64 X a t d f = Inr (r, a') \<Longrightarrow> fir_key r = kl_key t"
  by (auto simp: execute_fetch_increase_u64_def Let_def fetch_increase_response_new_def fetch_increase_response_unchanged_def
      split: if_splits)

lemma execute_put_sequential_typed: "execute_put_sequential X a pre k p = Inr (r, a') \<Longrightarrow> prefix pre (tpo_key r)"
  by (auto simp: execute_put_sequential_def Let_def)

lemmas executed_typed =
  execute_get_typed execute_put_typed execute_delete_typed execute_delete_by_prefix_typed execute_fetch_increase_typed
  execute_put_sequential_typed

lemma execute_op_typed:
  assumes "execute_op X a op = Inr (r, a')"
  shows "op_response_ok op r"
  using assms by (cases op) (auto dest: executed_typed)

lemma execute_ops_typed: "execute_ops X a ops = Inr (rs, a') \<Longrightarrow> list_all2 op_response_ok ops rs"
  by (induction ops arbitrary: a rs) (auto dest: execute_op_typed)

lemma branches_reply_Cons:
  assumes "branches_reply_ok (i + 1) bs r"
  shows "branches_reply_ok i (b # bs) r"
proof (cases "executed_branch r")
  case None
  with assms show ?thesis by (simp add: branches_reply_ok_def)
next
  case (Some j)
  with assms obtain k where "k < length bs" "j = word_of_nat (i + 1 + k)"
    "list_all2 op_response_ok (br_operations (bs ! k)) (ktr_responses r)"
    unfolding branches_reply_ok_def by auto
  with Some show ?thesis
    unfolding branches_reply_ok_def by (auto intro!: exI [of _ "Suc k"])
qed

lemma run_branches_typed: "run_branches X a i bs = Inr (r, a') \<Longrightarrow> branches_reply_ok i bs r"
proof (induction bs arbitrary: i)
  case Nil
  then show ?case by (auto simp: branches_reply_ok_def)
next
  case (Cons b bs)
  from Cons.prems consider
    (run) rs where "execute_ops X a (br_operations b) = Inr (rs, a')"
      "r = \<lparr>executed_branch = Some (word_of_nat i), ktr_responses = rs\<rparr>"
  | (skip) "run_branches X a (i + 1) bs = Inr (r, a')"
    by (auto split: if_splits)
  then show ?case
  proof cases
    case run
    then show ?thesis
      using execute_ops_typed [OF run(1)] by (auto simp: branches_reply_ok_def intro!: exI [of _ "0 :: nat"])
  next
    case skip
    from Cons.IH [OF this] show ?thesis by (rule branches_reply_Cons)
  qed
qed

lemma apply_kv_transaction_typed:
  "apply_kv_transaction X a t = Inr (st, a') \<Longrightarrow> \<exists>r. st = AppliedKvTransactionReply r \<and> txn_reply_ok t r"
  by (auto simp: apply_kv_transaction_def txn_reply_ok_def dest: run_branches_typed)

lemma apply_cmd_typed:
  assumes "apply_cmd E X a c = Inr (st, a')"
  shows "cmd_reply_ok E c st"
  using assms
  by (cases c)
    (auto simp: apply_add_node_def apply_remove_node_def apply_set_feature_def apply_upsert_kv_def Let_def
      dest: apply_kv_transaction_typed split: if_splits)

lemma apply_entry_typed: "apply_entry E X a e = Inr (st, a') \<Longrightarrow> entry_reply_ok E e st"
  by (auto simp: apply_entry_def apply_payload_def entry_reply_ok_def Let_def split: entry_payload.splits dest: apply_cmd_typed)

text \<open>
  C7: Replies are well typed: applying log entries yields one reply for each entry, of the kind of
  its command.  The reply to a transaction names a branch of the transaction and holds one response
  for each of its operations, of the kind of the operation and for its key.
\<close>

theorem apply_entries_typed:
  assumes "apply_entries_loop E X a (map Inr es) = Inr (sts, a')"
  shows "list_all2 (entry_reply_ok E) es sts"
  using assms by (induction es arbitrary: a sts) (auto dest: apply_entry_typed)

theorem apply_entries_typed_witness:
  "demo_entries = map Inr [demo_first, demo_second] \<and> list_all2 (entry_reply_ok prost_enums) [demo_first, demo_second] demo_states"
proof -
  have "demo_entries = map Inr [demo_first, demo_second]" by (simp add: demo_entries_def)
  with apply_entries_typed [OF demo_run [unfolded this]] show ?thesis by simp
qed

end
