(* ===== verification/Meta_Node_Correct.thy ===== *)
theory Meta_Node_Correct
  imports Meta_Node Apply_Types
begin

text \<open>
  Properties of the request path of a meta node: waiting for a leader and forwarding end, a request
  visits no more nodes than its quota allows, changes of the members are made in a safe order, and
  transactions are answered.
\<close>

section \<open>Waiting for a leader\<close>

text \<open>
  What makes the wait end: the channel is closed, a voter is the leader, or the metrics change once
  more after the deadline.
\<close>

definition decisive :: "metric_event list \<Rightarrow> bool" where
  "decisive evs \<longleftrightarrow>
    Closed \<in> set evs \<or>
    (\<exists>m t. Metrics m t \<in> set evs \<and> voting_leader m \<noteq> None) \<or>
    (\<exists>m t m' t'. evs \<noteq> [] \<and> hd evs = Metrics m t \<and> Metrics m' t' \<in> set evs \<and> t + 2000 < t')"

lemma get_leader_loop_ends:
  assumes "Closed \<in> set evs \<or>
    (\<exists>m t. Metrics m t \<in> set evs \<and> voting_leader m \<noteq> None) \<or>
    (\<exists>m t. Metrics m t \<in> set evs \<and> e < t)"
  shows "get_leader_loop (Some e) evs \<noteq> None"
  using assms by (induction "Some e" evs rule: get_leader_loop.induct) (auto simp: Let_def split: option.splits)

lemma get_leader_loop_decisive: "decisive evs \<Longrightarrow> get_leader_loop None evs \<noteq> None"
proof (cases evs rule: list.exhaust)
  case (Cons x rest)
  assume d: "decisive evs"
  show ?thesis
  proof (cases x)
    case (Metrics m t)
    with d Cons get_leader_loop_ends [of rest "t + 2000"] show ?thesis
      unfolding decisive_def by (auto simp: Let_def split: option.splits)
  qed (simp add: Cons)
qed (simp add: decisive_def)

lemma get_leader_returns: "decisive (fst (ne_wait_metrics X w)) \<Longrightarrow> \<exists>r. get_leader X w = Some (r, snd (ne_wait_metrics X w))"
  using get_leader_loop_decisive [of "fst (ne_wait_metrics X w)"] by (auto simp: get_leader_def split: prod.splits)

lemma assume_leader_cases:
  assumes "get_leader X w = Some (r, w1)"
  obtains l where "assume_leader X self w = Some (Inl l, w1)" | "assume_leader X self w = Some (Inr (), w1)" "r = Inr (Some self)"
proof (cases "r = Inr (Some self)")
  case True
  with assms that(2) show thesis by (simp add: assume_leader_def)
next
  case False
  with assms show thesis
    by (intro that(1) [of "case r of Inl _ \<Rightarrow> None | Inr l \<Rightarrow> l"]) (auto simp: assume_leader_def split: sum.splits)
qed

section \<open>Forwarding\<close>

lemma send_returns:
  assumes "\<And>retry w. next_round = Some retry \<Longrightarrow> \<exists>r w'. retry w = Some (r, w') \<and> g w' \<le> g w + n"
    and "\<And>w t q. g (snd (forward w t q)) = Suc (g w)"
  shows "\<exists>r w'. send_to_leader X forward next_round req to_leader w = Some (r, w') \<and> g w' \<le> g w + Suc n"
proof (cases to_leader)
  case (Some l)
  show ?thesis
  proof (cases "fr_next req")
    case (Some q)
    obtain r w1 where f: "forward w l q = (r, w1)" by fastforce
    then have g: "g w1 = Suc (g w)" using assms(2) [of w l q] by simp
    show ?thesis
    proof (cases "\<exists>e retry. r = Inl (RPC_NetworkError e) \<and> next_round = Some retry")
      case True
      then obtain e retry where "r = Inl (RPC_NetworkError e)" "next_round = Some retry" by blast
      with assms(1) [of retry w1] f g Some \<open>to_leader = Some l\<close> show ?thesis by (auto simp: send_to_leader_def)
    next
      case False
      with f g Some \<open>to_leader = Some l\<close> show ?thesis
        by (auto simp: send_to_leader_def split: sum.splits option.splits forward_rpc_error.splits)
    qed
  qed (simp add: send_to_leader_def Some)
qed (simp add: send_to_leader_def)

lemma forward_loop_returns:
  assumes live: "\<And>w. decisive (fst (ne_wait_metrics X w))" and handle: "\<And>w q. handle w q \<noteq> None"
    and g: "\<And>w t q. g (snd (forward w t q)) = Suc (g w)" "\<And>w. g (snd (ne_wait_metrics X w)) = g w"
      "\<And>w q r w'. handle w q = Some (r, w') \<Longrightarrow> g w' = g w"
  shows "\<exists>r w'. forward_loop X self handle forward (Suc n) req w = Some (r, w') \<and> g w' \<le> g w + Suc n"
proof (induction n arbitrary: w)
  have step: "\<exists>r w'. forward_loop X self handle forward (Suc n) req w = Some (r, w') \<and> g w' \<le> g w + Suc n"
    if next_ok: "\<And>w. n \<noteq> 0 \<Longrightarrow> \<exists>r w'. forward_loop X self handle forward n req w = Some (r, w') \<and> g w' \<le> g w + n" for n w
  proof -
    let ?next = "if n = 0 then None else Some (\<lambda>w. forward_loop X self handle forward n req w)"
    have next_ok': "\<exists>r w'. retry w = Some (r, w') \<and> g w' \<le> g w + n" if "?next = Some retry" for retry w
      using next_ok [of w] that by (auto split: if_splits)
    have send: "\<exists>r w'. send_to_leader X forward ?next req l w = Some (r, w') \<and> g w' \<le> g w + Suc n" for l w
      using next_ok' g(1) by (rule send_returns)
    obtain r where "get_leader X w = Some (r, snd (ne_wait_metrics X w))"
      using get_leader_returns [OF live] by blast
    then show ?thesis
    proof (rule assume_leader_cases [where self = self])
      fix l
      assume "assume_leader X self w = Some (Inl l, snd (ne_wait_metrics X w))"
      with send [of l "snd (ne_wait_metrics X w)"] g(2) [of w] show ?thesis
        by (simp add: Let_def)
    next
      let ?w = "snd (ne_wait_metrics X w)"
      assume a: "assume_leader X self w = Some (Inr (), ?w)"
      obtain r w2 where h: "handle ?w req = Some (r, w2)" using handle [of ?w req] by auto
      then have gw: "g w2 = g w" using g(2,3) by simp
      show ?thesis
      proof (cases r)
        case (Inr reply)
        with a h gw show ?thesis by (simp add: Let_def)
      next
        case (Inl e)
        with a h gw send [of _ w2] show ?thesis
          by (cases "peel e") (simp_all add: Let_def)
      qed
    qed
  qed
  case 0
  show ?case by (rule step) simp
  case (Suc n)
  show ?case by (rule step) (rule Suc.IH)
qed

text \<open>
  C12: A forwardable request is always answered, after at most 20 calls to other nodes (\<open>g\<close> counts
  them), provided that every wait for the metrics of raft sees a voter as the leader, a closed channel
  or a change after the deadline, and that the handler of the leader returns.
\<close>

theorem forwarding_returns:
  assumes "\<And>w. decisive (fst (ne_wait_metrics X w))" "\<And>w q. handle w q \<noteq> None"
    and "\<And>w t q. g (snd (forward w t q)) = Suc (g w)" "\<And>w. g (snd (ne_wait_metrics X w)) = g w"
    and "\<And>w q r w'. handle w q = Some (r, w') \<Longrightarrow> g w' = g w"
  shows "\<exists>r w'. handle_forwardable_request X self handle forward req w = Some (r, w') \<and> g w' \<le> g w + 20"
  using forward_loop_returns [where n = 19, OF assms] by (simp add: handle_forwardable_request_def del: forward_loop.simps)

section \<open>A cluster of nodes\<close>

text \<open>
  Forwarding in a cluster with the nodes \<open>N\<close>: the target serves the request and may forward it again,
  \<open>k\<close> times in a row; what happens beyond this is \<open>f\<close>.  A connection may fail (\<open>lost\<close>).
\<close>

fun relay ::
  "(u64 \<Rightarrow> ('a, 'b, 'r, 'c, 'w) node_env) \<Rightarrow> (u64 \<Rightarrow> endpoint) \<Rightarrow> ('w \<Rightarrow> 'w option) \<Rightarrow>
   ('w \<Rightarrow> u64 \<Rightarrow> forward_request_body forward_request \<Rightarrow> (forward_rpc_error + endpoint \<times> forward_response) \<times> 'w) \<Rightarrow>
   nat \<Rightarrow> 'w \<Rightarrow> u64 \<Rightarrow> forward_request_body forward_request \<Rightarrow> (forward_rpc_error + endpoint \<times> forward_response) \<times> 'w" where
  "relay N E lost f 0 = f"
| "relay N E lost f (Suc k) = (\<lambda>w t q.
    (case lost w of
       Some w1 \<Rightarrow> (Inl (RPC_NetworkError ConnectionError), w1)
     | None \<Rightarrow>
         (case service_forward (N t) t (relay N E lost f k) q w of
            None \<Rightarrow> (Inl (RPC_NetworkError ConnectionError), w)
          | Some (Inl e, w1) \<Rightarrow> (Inl (RPC_RemoteError e), w1)
          | Some (Inr resp, w1) \<Rightarrow> (Inr (E t, resp), w1))))"

lemma send_to_leader_cong:
  assumes "\<And>w t q. fr_next req = Some q \<Longrightarrow> F w t q = F' w t q"
  shows "send_to_leader X F r req l w = send_to_leader X F' r req l w"
  using assms by (simp add: send_to_leader_def split: option.splits)

lemma forward_loop_cong:
  assumes "\<And>w t q. fr_next req = Some q \<Longrightarrow> F w t q = F' w t q"
  shows "forward_loop X self handle F n req w = forward_loop X self handle F' n req w"
proof (induction n arbitrary: w)
  case (Suc n)
  then have "(\<lambda>w. forward_loop X self handle F n req w) = (\<lambda>w. forward_loop X self handle F' n req w)" by blast
  moreover have "send_to_leader X F r req = send_to_leader X F' r req" for r
    by (intro ext) (rule send_to_leader_cong [OF assms])
  ultimately show ?case by (simp only: forward_loop.simps)
qed simp

lemma service_forward_cong:
  assumes "\<And>w t q. fr_next req = Some q \<Longrightarrow> F w t q = F' w t q"
  shows "service_forward X self F req w = service_forward X self F' req w"
proof -
  have "forward_loop X self (leader_handle X self) F 20 req w = forward_loop X self (leader_handle X self) F' 20 req w"
    by (rule forward_loop_cong) (rule assms)
  then show ?thesis by (simp only: service_forward_def handle_forwardable_request_def)
qed

lemma fr_next_quota: "fr_next req = Some q \<Longrightarrow> Suc (unat (forward_to_leader q)) = unat (forward_to_leader req)"
  by (auto simp: fr_next_def can_forward_def unat_minus_one unat_gt_0 word_gt_0 split: if_splits)

lemma relay_quota: "unat (forward_to_leader q) < k \<Longrightarrow> relay N E lost f k w t q = relay N E lost f' k w t q"
proof (induction k arbitrary: w t q)
  case (Suc k)
  have "service_forward (N t) t (relay N E lost f k) q w = service_forward (N t) t (relay N E lost f' k) q w" for w
  proof (rule service_forward_cong)
    fix w t' q'
    assume "fr_next q = Some q'"
    with Suc.prems show "relay N E lost f k w t' q' = relay N E lost f' k w t' q'"
      by (intro Suc.IH) (auto dest: fr_next_quota)
  qed
  from this [of w] show ?case by (cases "lost w") simp_all
qed simp

text \<open>
  C11: Requests do not travel in circles: whatever the nodes of a cluster believe about the leader, a
  request with quota \<open>q\<close> is passed on at most \<open>q\<close> times in a row.  What nodes would do with a request
  that has been passed on \<open>k\<close> times does not matter for \<open>k\<close> at least \<open>q\<close>.
\<close>

theorem forwarding_depth:
  assumes "unat (forward_to_leader req) \<le> k"
  shows "service_forward (N i) i (relay N E lost f k) req w = service_forward (N i) i (relay N E lost f' k) req w"
proof (rule service_forward_cong)
  fix w t q
  assume "fr_next req = Some q"
  with assms show "relay N E lost f k w t q = relay N E lost f' k w t q"
    by (intro relay_quota) (auto dest: fr_next_quota)
qed

section \<open>Changes of the members\<close>

text \<open>What the leader asks of raft, each with the error that it got, if any.\<close>

datatype raft_action = Wrote log_entry "raft_error option" | Changed change_members "raft_error option"

definition failure :: "raft_error + 'v \<Rightarrow> raft_error option" where
  "failure r = (case r of Inl e \<Rightarrow> Some e | Inr _ \<Rightarrow> None)"

lemma failure_simps [simp]: "failure (Inl e) = Some e" "failure (Inr v) = None"
  by (simp_all add: failure_def)

definition records_acts :: "('a, 'b, 'r, 'c, 'w) node_env \<Rightarrow> ('w \<Rightarrow> raft_action list) \<Rightarrow> bool" where
  "records_acts X acts \<longleftrightarrow>
    (\<forall>w e r w'. ne_client_write X w e = (r, w') \<longrightarrow> acts w' = acts w @ [Wrote e (failure r)]) \<and>
    (\<forall>w c b r w'. ne_change_membership X w c b = (r, w') \<longrightarrow> acts w' = acts w @ [Changed c (failure r)])"

lemma records_actsD:
  assumes "records_acts X acts"
  shows "ne_client_write X w e = (r, w') \<Longrightarrow> acts w' = acts w @ [Wrote e (failure r)]"
    and "ne_change_membership X w c b = (r', w') \<Longrightarrow> acts w' = acts w @ [Changed c (failure r')]"
  using assms unfolding records_acts_def by blast+

definition add_node_entry :: "('a, 'b, 'r, 'c, 'w) node_env \<Rightarrow> 'w \<Rightarrow> join_request \<Rightarrow> log_entry" where
  "add_node_entry X w req =
    (log_entry_new (AddNode (jr_node_id req)
       (with_grpc_advertise_address (node_new (show_nat (unat (jr_node_id req))) (jr_endpoint req)) (jr_grpc_api_advertise_address req))
       False))\<lparr>le_time_ms := Some (ne_now_ms X w)\<rparr>"

text \<open>
  The two steps of a join.  The node is written first; the membership is changed only after this has
  succeeded, and the error of the step that failed is returned.
\<close>

definition joined_in_order ::
  "(raft_error + unit) \<Rightarrow> raft_action list \<Rightarrow> log_entry \<Rightarrow> change_members \<Rightarrow> bool" where
  "joined_in_order r done ent change \<longleftrightarrow>
    (\<exists>e. done = [Wrote ent (Some e)] \<and> r = Inl e) \<or>
    (\<exists>e. done = [Wrote ent None, Changed change (Some e)] \<and> r = Inl e) \<or>
    (done = [Wrote ent None, Changed change None] \<and> r = Inr ())"

text \<open>The two steps of a leave, in the other order.\<close>

definition left_in_order ::
  "(meta_operation_error + unit) \<Rightarrow> raft_action list \<Rightarrow> change_members \<Rightarrow> u64 \<Rightarrow> bool" where
  "left_in_order r done change i \<longleftrightarrow>
    (\<exists>e. done = [Changed change (Some e)] \<and> r = Inl (operation_error_of_raft e)) \<or>
    (\<exists>t e. done = [Changed change None, Wrote ((log_entry_new (RemoveNode i))\<lparr>le_time_ms := t\<rparr>) (Some e)] \<and>
      r = Inl (operation_error_of_raft e)) \<or>
    (\<exists>t. done = [Changed change None, Wrote ((log_entry_new (RemoveNode i))\<lparr>le_time_ms := t\<rparr>) None] \<and> r = Inr ())"

lemma join_actions:
  assumes "records_acts X acts" "join X w req = (r, w')"
    and new: "jr_node_id req \<notin> voter_ids (membership_config (ne_metrics X w))"
  shows "\<exists>ds. acts w' = acts w @ ds \<and> joined_in_order r ds (add_node_entry X w req)
    (if jr_role req = Some (ascii ''learner'') then AddNodes (jr_node_id req) else AddVoters (jr_node_id req))"
proof -
  let ?ent = "add_node_entry X w req"
  let ?c = "if jr_role req = Some (ascii ''learner'') then AddNodes (jr_node_id req) else AddVoters (jr_node_id req)"
  have role: "join_role req = ascii ''learner'' \<longleftrightarrow> jr_role req = Some (ascii ''learner'')"
    by (auto simp: join_role_def split: option.splits)
  obtain r1 w1 where w1: "ne_client_write X w ?ent = (r1, w1)" by fastforce
  obtain r2 w2 where w2: "ne_change_membership X w1 ?c False = (r2, w2)" by fastforce
  have "join X w req = (case r1 of Inl e \<Rightarrow> (Inl e, w1) | Inr st \<Rightarrow> (r2, w2))"
    using new w1 w2 unfolding join_def Let_def leader_write_def role add_node_entry_def [symmetric] by (cases r1) simp_all
  with assms(2) have rw: "(r, w') = (case r1 of Inl e \<Rightarrow> (Inl e, w1) | Inr st \<Rightarrow> (r2, w2))" by simp
  note acts = records_actsD(1) [OF assms(1) w1] records_actsD(2) [OF assms(1) w2]
  show ?thesis
  proof (cases r1)
    case (Inl e)
    with rw acts show ?thesis by (simp add: joined_in_order_def)
  next
    case (Inr st)
    with rw acts show ?thesis by (cases r2) (simp_all add: joined_in_order_def)
  qed
qed

lemma leave_actions:
  assumes "records_acts X acts" "leave X self w i = Some (r, w')" "i \<noteq> self" "can_leave X w i = Some True"
  shows "\<exists>ds. acts w' = acts w @ ds \<and> left_in_order r ds
    (if i \<in> voter_ids (sm_membership (last_membership (ne_sys_data X w))) then RemoveVoters i else RemoveNodes i) i"
proof -
  let ?c = "if i \<in> voter_ids (sm_membership (last_membership (ne_sys_data X w))) then RemoveVoters i else RemoveNodes i"
  obtain r1 w1 where w1: "ne_change_membership X w ?c False = (r1, w1)" by fastforce
  let ?ent = "(log_entry_new (RemoveNode i))\<lparr>le_time_ms := Some (ne_now_ms X w1)\<rparr>"
  obtain r2 w2 where w2: "ne_client_write X w1 ?ent = (r2, w2)" by fastforce
  have "leave X self w i =
    (case r1 of
       Inl e \<Rightarrow> Some (Inl (operation_error_of_raft e), w1)
     | Inr _ \<Rightarrow> (case r2 of Inl e \<Rightarrow> Some (Inl (operation_error_of_raft e), w2) | Inr _ \<Rightarrow> Some (Inr (), w2)))"
    using assms(3,4) w1 w2 by (simp add: leave_def Let_def leader_write_def split: sum.splits)
  with assms(2) have rw: "Some (r, w') =
    (case r1 of
       Inl e \<Rightarrow> Some (Inl (operation_error_of_raft e), w1)
     | Inr _ \<Rightarrow> (case r2 of Inl e \<Rightarrow> Some (Inl (operation_error_of_raft e), w2) | Inr _ \<Rightarrow> Some (Inr (), w2)))" by simp
  note acts = records_actsD(2) [OF assms(1) w1] records_actsD(1) [OF assms(1) w2]
  show ?thesis
  proof (cases r1)
    case (Inl e)
    with rw acts show ?thesis by (simp add: left_in_order_def)
  next
    case (Inr st)
    with rw acts show ?thesis by (cases r2) (auto simp: left_in_order_def)
  qed
qed

text \<open>
  C10: Changes of the members are made in a safe order (\<open>acts\<close> lists the writes and the changes that
  the leader asks of raft, with their errors).  To join, the address of a node that is not a voter is
  written first; only when this has succeeded the node is added, as a learner when it asks for this
  role and as a voter otherwise; the join succeeds only when both have succeeded, and returns the
  first error.  To leave, a node is removed from the membership first, as a voter or as a learner;
  only when this has succeeded its address is removed, with errors returned likewise.  Nothing is
  asked of raft when a voter joins, when the leader is told to remove itself, and when the node is
  the only one of the last configuration.
\<close>

theorem membership_changes_ordered:
  assumes "records_acts X acts" "join X w req = (r1, w1)" "leave X self w i = Some (r2, w2)"
  shows "(if jr_node_id req \<in> voter_ids (membership_config (ne_metrics X w)) then r1 = Inr () \<and> w1 = w
    else \<exists>ds. acts w1 = acts w @ ds \<and> joined_in_order r1 ds (add_node_entry X w req)
      (if jr_role req = Some (ascii ''learner'') then AddNodes (jr_node_id req) else AddVoters (jr_node_id req))) \<and>
    (let m = sm_membership (last_membership (ne_sys_data X w)); cfg = last (joint_config m) in
    if i = self then r2 = Inl MO_ReadError \<and> w2 = w
    else if i \<in> set cfg \<and> length cfg = 1 then r2 = Inr () \<and> w2 = w
    else \<exists>ds. acts w2 = acts w @ ds \<and> left_in_order r2 ds (if i \<in> voter_ids m then RemoveVoters i else RemoveNodes i) i)"
proof
  show "if jr_node_id req \<in> voter_ids (membership_config (ne_metrics X w)) then r1 = Inr () \<and> w1 = w
    else \<exists>ds. acts w1 = acts w @ ds \<and> joined_in_order r1 ds (add_node_entry X w req)
      (if jr_role req = Some (ascii ''learner'') then AddNodes (jr_node_id req) else AddVoters (jr_node_id req))"
    using join_actions [OF assms(1,2)] assms(2) by (auto simp: join_def)
  show "let m = sm_membership (last_membership (ne_sys_data X w)); cfg = last (joint_config m) in
    if i = self then r2 = Inl MO_ReadError \<and> w2 = w
    else if i \<in> set cfg \<and> length cfg = 1 then r2 = Inr () \<and> w2 = w
    else \<exists>ds. acts w2 = acts w @ ds \<and> left_in_order r2 ds (if i \<in> voter_ids m then RemoveVoters i else RemoveNodes i) i"
  proof (cases "i \<noteq> self \<and> can_leave X w i = Some True")
    case True
    then have "\<not> (i \<in> set (last (joint_config (sm_membership (last_membership (ne_sys_data X w))))) \<and>
        length (last (joint_config (sm_membership (last_membership (ne_sys_data X w))))) = 1)"
      by (auto simp: can_leave_def Let_def split: if_splits)
    with True leave_actions [OF assms(1,3)] show ?thesis unfolding Let_def by presburger
  next
    case False
    with assms(3) show ?thesis by (auto simp: leave_def can_leave_def Let_def split: if_splits)
  qed
qed

section \<open>Transactions\<close>

text \<open>
  What raft promises of \<open>client_write\<close>: the response is what the state machine has yielded when the
  entry was applied, at some index of the log and in some state.
\<close>

definition raft_applies :: "pb_enums \<Rightarrow> 's env \<Rightarrow> ('a, 'b, 'r, 'c, 'w) node_env \<Rightarrow> bool" where
  "raft_applies E Y X \<longleftrightarrow>
    (\<forall>w d st w'. ne_client_write X w d = (Inr st, w') \<longrightarrow>
      (\<exists>lid a a'. apply_entry E Y a \<lparr>entry_log_id = lid, entry_payload = Normal_Entry d\<rparr> = Inr (st, a')))"

lemma apply_entry_transaction:
  assumes "apply_entry E Y a \<lparr>entry_log_id = lid, entry_payload = Normal_Entry d\<rparr> = Inr (st, a')" "le_cmd d = KvTransaction txn"
  shows "\<exists>b b'. apply_kv_transaction Y b txn = Inr (st, b')"
  using assms by (auto simp: apply_entry_def apply_payload_def Let_def)

text \<open>
  C13: A transaction is answered.  When the wait for a leader ends, and raft responds to a write with
  what the state machine yields for the entry, then \<open>handle_kv_transaction\<close> returns and does not panic
  on a response of another kind.  A node that is not the leader answers with the leader that it
  knows of and asks nothing of raft.  A reply is the outcome of executing the transaction on a state
  of the state machine; it names a branch of the transaction with one response for each of its
  operations.
\<close>

theorem kv_transaction_answered:
  assumes "decisive (fst (ne_wait_metrics X w))" "raft_applies E Y X"
  shows "\<exists>r w'. handle_kv_transaction X self txn w = Some (r, w') \<and>
    (\<forall>l. assume_leader X self w = Some (Inl l, snd (ne_wait_metrics X w)) \<longrightarrow>
      w' = snd (ne_wait_metrics X w) \<and> r = Inl (NotLeader (get_leader_endpoint X w' l))) \<and>
    (\<forall>reply. r = Inr reply \<longrightarrow> txn_reply_ok txn reply \<and>
      (\<exists>a a'. apply_kv_transaction Y a txn = Inr (AppliedKvTransactionReply reply, a')))"
proof -
  let ?w = "snd (ne_wait_metrics X w)"
  obtain r where "get_leader X w = Some (r, ?w)" using get_leader_returns [OF assms(1)] by blast
  then show ?thesis
  proof (rule assume_leader_cases [where self = self])
    fix l
    assume "assume_leader X self w = Some (Inl l, ?w)"
    then show ?thesis by (simp add: handle_kv_transaction_def leader_or_forward_def)
  next
    assume a: "assume_leader X self w = Some (Inr (), ?w)"
    let ?e = "(log_entry_new (KvTransaction txn))\<lparr>le_time_ms := Some (ne_now_ms X ?w)\<rparr>"
    obtain r2 w2 where w2: "ne_client_write X ?w ?e = (r2, w2)" by fastforce
    show ?thesis
    proof (cases r2)
      case (Inl e)
      with a w2 show ?thesis
        by (cases e rule: operation_error_of_raft.cases) (simp_all add: handle_kv_transaction_def leader_or_forward_def leader_write_def)
    next
      case (Inr st)
      then obtain lid c c' where "apply_entry E Y c \<lparr>entry_log_id = lid, entry_payload = Normal_Entry ?e\<rparr> = Inr (st, c')"
        using assms(2) w2 unfolding raft_applies_def by blast
      moreover have "le_cmd ?e = KvTransaction txn" by (simp add: log_entry_new_def)
      ultimately obtain b b' where run: "apply_kv_transaction Y b txn = Inr (st, b')"
        using apply_entry_transaction by blast
      from apply_kv_transaction_typed [OF this] obtain reply where "st = AppliedKvTransactionReply reply" "txn_reply_ok txn reply"
        by blast
      with a w2 Inr run show ?thesis
        by (auto simp: handle_kv_transaction_def leader_or_forward_def leader_write_def)
    qed
  qed
qed

section \<open>A small cluster\<close>

record mdemo_world =
  mw_calls :: nat
  mw_acts :: "raft_action list"

fun mdemo_reply :: "cmd \<Rightarrow> applied_state" where
  "mdemo_reply (AddNode i n ov) = AppliedNode None (Some n)"
| "mdemo_reply (RemoveNode i) = AppliedNode None None"
| "mdemo_reply (SetFeature f b) = AppliedNone"
| "mdemo_reply (UpsertKV u) = AppliedKV (change_new None None)"
| "mdemo_reply (CmdTransaction t) = AppliedKvTransactionReply \<lparr>executed_branch = None, ktr_responses = []\<rparr>"
| "mdemo_reply (KvTransaction t) = AppliedKvTransactionReply \<lparr>executed_branch = None, ktr_responses = []\<rparr>"

definition mdemo_membership :: membership where
  "mdemo_membership = \<lparr>joint_config = [[7, 8]], member_nodes = [7, 8]\<rparr>"

definition mdemo_node ::
  "u64 \<Rightarrow> ('w \<Rightarrow> log_entry \<Rightarrow> (raft_error + applied_state) \<times> 'w) \<Rightarrow> ('w \<Rightarrow> change_members \<Rightarrow> 'w) \<Rightarrow> ('w \<Rightarrow> 'w) \<Rightarrow>
   ((rstring, meta_value) vtable, (expire_key, rstring) vtable, disk_table, unit, 'w) node_env" where
  "mdemo_node l wr change call =
    \<lparr>ne_store = mem_lib, ne_kv = kdemo_lib,
     ne_sm = (\<lambda>w. lm_with_sys_data (mc_map sdemo5) (\<lambda>sd. sd\<lparr>
       last_membership := \<lparr>sm_log_id = None, sm_membership = mdemo_membership\<rparr>\<rparr>)),
     ne_now_ms = (\<lambda>w. 9),
     ne_metrics = (\<lambda>w. \<lparr>current_leader = Some l, membership_config = mdemo_membership\<rparr>),
     ne_wait_metrics = (\<lambda>w. ([Metrics \<lparr>current_leader = Some l, membership_config = mdemo_membership\<rparr> 0], w)),
     ne_client_write = wr,
     ne_change_membership = (\<lambda>w c b. (Inr (), change w c)),
     ne_initialize = (\<lambda>w i. (NotAllowed, w)),
     ne_connect = (\<lambda>w a. (Some (), w)),
     ne_call_forward = (\<lambda>w c q. (Inl ConnectionError, call w)),
     ne_response_of_json = (\<lambda>s. None), ne_api_error_of_json = (\<lambda>s. None)\<rparr>"

definition mdemo_env ::
  "u64 \<Rightarrow> ((rstring, meta_value) vtable, (expire_key, rstring) vtable, disk_table, unit, mdemo_world) node_env" where
  "mdemo_env l = mdemo_node l (\<lambda>w e. (Inr (mdemo_reply (le_cmd e)), w\<lparr>mw_acts := mw_acts w @ [Wrote e None]\<rparr>))
     (\<lambda>w c. w\<lparr>mw_acts := mw_acts w @ [Changed c None]\<rparr>) (\<lambda>w. w\<lparr>mw_calls := Suc (mw_calls w)\<rparr>)"

definition mdemo_start :: mdemo_world where
  "mdemo_start = \<lparr>mw_calls = 0, mw_acts = []\<rparr>"

definition mdemo_forward ::
  "mdemo_world \<Rightarrow> u64 \<Rightarrow> forward_request_body forward_request \<Rightarrow> (forward_rpc_error + endpoint \<times> forward_response) \<times> mdemo_world" where
  "mdemo_forward w t q = (Inl (RPC_NetworkError ConnectionError), w\<lparr>mw_calls := Suc (mw_calls w)\<rparr>)"

lemma mdemo_fields [simp]:
  "ne_wait_metrics (mdemo_env l) w = ([Metrics \<lparr>current_leader = Some l, membership_config = mdemo_membership\<rparr> 0], w)"
  "ne_metrics (mdemo_env l) w = \<lparr>current_leader = Some l, membership_config = mdemo_membership\<rparr>"
  "ne_client_write (mdemo_env l) w e = (Inr (mdemo_reply (le_cmd e)), w\<lparr>mw_acts := mw_acts w @ [Wrote e None]\<rparr>)"
  "ne_change_membership (mdemo_env l) w c b = (Inr (), w\<lparr>mw_acts := mw_acts w @ [Changed c None]\<rparr>)"
  "ne_now_ms (mdemo_env l) w = 9"
  "sm_membership (last_membership (ne_sys_data (mdemo_env l) w)) = mdemo_membership"
  "voter_ids mdemo_membership = {7, 8}"
  by (simp_all add: mdemo_env_def mdemo_node_def mdemo_membership_def voter_ids_def ne_sys_data_def lm_with_sys_data_def)

lemma mdemo_decisive: "l \<in> {7, 8} \<Longrightarrow> decisive (fst (ne_wait_metrics (mdemo_env l) w))"
  by (auto simp: decisive_def voting_leader_def)

lemma mdemo_handle:
  "\<exists>r w'. leader_handle (mdemo_env l) s w q = Some (r, w') \<and> mw_calls w' = mw_calls w"
  by (cases "fr_body q")
    (auto simp: leader_handle_def read_reply_def Let_def join_def leave_def can_leave_def leader_write_def mdemo_membership_def)

theorem forwarding_returns_witness:
  "\<exists>r w'. handle_forwardable_request (mdemo_env 8) 7 (leader_handle (mdemo_env 8) 7) mdemo_forward
      \<lparr>forward_to_leader = 1, fr_body = Ping\<rparr> mdemo_start = Some (r, w') \<and> mw_calls w' \<le> 20"
proof -
  have "leader_handle (mdemo_env 8) 7 w q \<noteq> None" for w q
    using mdemo_handle [of 8 7 w q] by auto
  moreover have "mw_calls w' = mw_calls w" if "leader_handle (mdemo_env 8) 7 w q = Some (r, w')" for w q r w'
    using mdemo_handle [of 8 7 w q] that by auto
  ultimately show ?thesis
    using forwarding_returns [where X = "mdemo_env 8" and handle = "leader_handle (mdemo_env 8) 7" and forward = mdemo_forward
        and g = mw_calls and w = mdemo_start and self = 7 and req = "\<lparr>forward_to_leader = 1, fr_body = Ping\<rparr>"]
      mdemo_decisive [of 8]
    by (simp add: mdemo_forward_def mdemo_start_def)
qed

text \<open>Each of the two nodes takes the other for the leader.\<close>

definition mdemo_circle ::
  "u64 \<Rightarrow> ((rstring, meta_value) vtable, (expire_key, rstring) vtable, disk_table, unit, mdemo_world) node_env" where
  "mdemo_circle t = mdemo_env (if t = 7 then 8 else 7)"

theorem forwarding_depth_witness:
  "unat (forward_to_leader \<lparr>forward_to_leader = 1, fr_body = Ping\<rparr>) \<le> 1 \<and>
   service_forward (mdemo_circle 7) 7 (relay mdemo_circle (\<lambda>t. endpoint_new [] 0) (\<lambda>w. None) mdemo_forward 1)
     \<lparr>forward_to_leader = 1, fr_body = Ping\<rparr> mdemo_start =
   service_forward (mdemo_circle 7) 7
     (relay mdemo_circle (\<lambda>t. endpoint_new [] 0) (\<lambda>w. None) (\<lambda>w t q. (Inl (RPC_RemoteError API_CanNotForward), w)) 1)
     \<lparr>forward_to_leader = 1, fr_body = Ping\<rparr> mdemo_start"
proof
  show "unat (forward_to_leader \<lparr>forward_to_leader = 1, fr_body = Ping\<rparr>) \<le> 1" by simp
  then show "service_forward (mdemo_circle 7) 7 (relay mdemo_circle (\<lambda>t. endpoint_new [] 0) (\<lambda>w. None) mdemo_forward 1)
     \<lparr>forward_to_leader = 1, fr_body = Ping\<rparr> mdemo_start =
   service_forward (mdemo_circle 7) 7
     (relay mdemo_circle (\<lambda>t. endpoint_new [] 0) (\<lambda>w. None) (\<lambda>w t q. (Inl (RPC_RemoteError API_CanNotForward), w)) 1)
     \<lparr>forward_to_leader = 1, fr_body = Ping\<rparr> mdemo_start"
    by (rule forwarding_depth [where i = 7])
qed

theorem membership_changes_ordered_witness:
  "\<exists>r1 w1 r2 w2. join (mdemo_env 7) mdemo_start (join_request_new 9 (endpoint_new [] 0) None) = (r1, w1) \<and>
    leave (mdemo_env 7) 7 mdemo_start 8 = Some (r2, w2) \<and>
    joined_in_order r1 (mw_acts w1) (add_node_entry (mdemo_env 7) mdemo_start (join_request_new 9 (endpoint_new [] 0) None))
      (AddVoters 9) \<and>
    left_in_order r2 (mw_acts w2) (RemoveVoters 8) 8"
proof -
  let ?req = "join_request_new 9 (endpoint_new [] 0) None"
  have rec: "records_acts (mdemo_env 7) mw_acts" by (auto simp: records_acts_def)
  obtain r1 w1 where j: "join (mdemo_env 7) mdemo_start ?req = (r1, w1)" by fastforce
  obtain r2 w2 where l: "leave (mdemo_env 7) 7 mdemo_start 8 = Some (r2, w2)"
    by (simp add: leave_def can_leave_def Let_def leader_write_def mdemo_membership_def)
  have "last (joint_config mdemo_membership) = [7, 8]" by (simp add: mdemo_membership_def)
  with membership_changes_ordered [OF rec j l] j l show ?thesis
    by (simp add: Let_def mdemo_start_def join_request_new_def)
qed

text \<open>A node whose writes are applied by the state machine.\<close>

definition mdemo_write :: "mem applier \<Rightarrow> log_entry \<Rightarrow> (raft_error + applied_state) \<times> mem applier" where
  "mdemo_write a d =
    (case apply_entry prost_enums mem_env a \<lparr>entry_log_id = new_log_id 1 1 1, entry_payload = Normal_Entry d\<rparr> of
       Inl e \<Rightarrow> (Inl RaftFatal, a) | Inr (st, a') \<Rightarrow> (Inr st, a'))"

definition mdemo_txn :: kv_txn where
  "mdemo_txn = \<lparr>branches =
     [branch_then (branch_if (pred_seq (ascii ''a'') Op_Gt 0)) [op_delete (ascii ''a'')],
      branch_then (branch_if (pred_seq (ascii ''a'') Op_Eq 0)) [op_put (ascii ''b'') [2]]]\<rparr>"

theorem kv_transaction_answered_witness:
  "\<exists>w' reply. handle_kv_transaction (mdemo_node 7 mdemo_write (\<lambda>w c. w) (\<lambda>w. w)) 7 mdemo_txn (applier_new demo_sm) =
      Some (Inr reply, w') \<and> executed_branch reply = Some 1 \<and> txn_reply_ok mdemo_txn reply"
proof -
  let ?X = "mdemo_node 7 mdemo_write (\<lambda>w c. w) (\<lambda>w. w)"
  have law: "raft_applies prost_enums mem_env ?X"
    unfolding raft_applies_def by (auto simp: mdemo_node_def mdemo_write_def split: sum.splits)
  have dec: "decisive (fst (ne_wait_metrics ?X w))" for w
    by (auto simp: decisive_def voting_leader_def mdemo_node_def)
  obtain reply w' where run: "handle_kv_transaction ?X 7 mdemo_txn (applier_new demo_sm) = Some (Inr reply, w')"
    "executed_branch reply = Some 1"
    by (simp add: handle_kv_transaction_def leader_or_forward_def assume_leader_def get_leader_def voting_leader_def leader_write_def
        mdemo_node_def mdemo_write_def mdemo_txn_def mdemo_membership_def voter_ids_def log_entry_new_def
        demo_simps applier_simps base_simps mem_simps)
  with kv_transaction_answered [OF dec law, where w = "applier_new demo_sm" and self = 7 and txn = mdemo_txn] show ?thesis by auto
qed

end
