(* ===== verification/Spec2Isabelle.thy ===== *)
theory Spec2Isabelle
  imports Feature_Specs Handshake Codec Log_Entry Txn_Correct Upsert_Txn Network_Correct Transfer_Run Meta_Node_Correct
begin

text \<open>
  \<^bold>\<open>Verification of databend-meta, a replicated key-value store built on raft.\<close>

  \<^bold>\<open>The program.\<close>  A meta node (\<open>crates/server/service\<close>) takes requests of clients, finds the leader of
  the raft cluster and forwards requests to it, and replicates log entries to its peers.  Raft itself
  (the crate \<open>openraft\<close>) calls the state machine (\<open>crates/server/raft-store\<close>), whose applier executes
  the commands of committed entries: upserts, transactions, changes of nodes and features.  The data
  is a leveled store: a writable level in memory, immutable levels in memory, and one sorted table on
  disk, the last snapshot.  Levels are frozen, compacted in memory, and compacted to disk when a
  snapshot is built; a snapshot can be sent to a peer and installed there.  Clients
  (\<open>crates/client\<close>) and servers agree on a version before they talk (\<open>crates/common/version\<close>), and
  messages are protobuf (\<open>crates/common/proto\<close>).

  \<^bold>\<open>Theories and sources.\<close>  Every theory names its source files at its beginning; definitions keep the
  names of the functions and types they model, with a suffix or prefix where a name is taken.

  \<^item> \<open>Prelude\<close>: machine integers at their width (\<open>u64\<close> is a word of 64 bits, \<open>u32\<close> of 32), Rust strings
    as lists of Unicode scalar values, saturating arithmetic, decimal text, results with errors as
    values (\<open>io_error + 'a\<close>, \<open>rbind\<close> for the question mark), and generic lemmas.
  \<^item> \<open>Versions\<close>, \<open>Feature_Specs\<close>, \<open>Handshake\<close>: versions, feature spans, the gRPC and raft feature
    histories (\<open>common/version\<close>), and both sides of the handshake (\<open>grpc_service.rs\<close>,
    \<open>grpc_client.rs\<close>).
  \<^item> \<open>Base\<close>, \<open>Proto_Ext\<close>, \<open>Kv_Transaction\<close>, \<open>Log_Entry\<close>: base values and times (\<open>server/base\<close>),
    protobuf messages and their builders (\<open>common/proto\<close>), native transactions and their conversion,
    log entries, commands and raft messages (\<open>server/types\<close>).
  \<^item> \<open>Codec\<close>, \<open>Value_Codec\<close>: keys, snapshot ids and values as they are stored on disk, and the right
    bound of a prefix (\<open>leveled_store\<close>, \<open>utils.rs\<close>).
  \<^item> \<open>Sm_Api\<close>, \<open>Applier\<close>: the operations on the two indexes of the state machine
    (\<open>state_machine_api_ext.rs\<close>) and the application of log entries (\<open>applier/mod.rs\<close>).  The state is
    passed explicitly: the record \<open>sm\<close> holds the view, the system data, the time of the last cleaning
    and the published changes; the record \<open>applier\<close> adds the context of the command and the changes
    that are not yet published.
  \<^item> \<open>Upsert_Txn\<close>: the upsert of a client, sent as a legacy transaction (\<open>client/types\<close>).
  \<^item> \<open>Levels\<close>, \<open>Store\<close>, \<open>Snapshot\<close>: the levels, the leveled map with its table on disk, commit,
    freezing, compaction, and building, loading, cleaning and installing snapshots
    (\<open>leveled_store\<close>, \<open>immutable_compactor\<close>, \<open>sm_v003\<close>, \<open>snapshot_config.rs\<close>, \<open>service/store\<close>).
  \<^item> \<open>Kv_Api\<close>: the reads that clients see (\<open>sm_v003_kv_api.rs\<close>, \<open>kvapi\<close>).
  \<^item> \<open>Network\<close>, \<open>Snapshot_Transfer\<close>: append, vote and snapshot messages between nodes (\<open>network.rs\<close>,
    \<open>raft_service_impl.rs\<close>).
  \<^item> \<open>Meta_Node\<close>: waiting for a leader, forwarding, join and leave, transactions (\<open>meta_node.rs\<close>,
    \<open>meta_leader.rs\<close>, \<open>forwarder.rs\<close>).
\<close>

text \<open>
  \<^bold>\<open>What the lemmas show.\<close>

  \<^item> \<open>Upsert_Spec\<close>, \<open>Apply_Correct\<close>, \<open>Apply_Effects\<close>, \<open>Apply_Types\<close>, \<open>Txn_Correct\<close>, \<open>Upsert_Txn\<close>: the
    applier.  The visible map gives for every key its value; an upsert refines a specification on this
    map, every sequence of entries keeps the expiration index in agreement with the primary index,
    cleaning removes exactly what has expired, the published changes let a watcher follow the map,
    replies have the kind of their command, and transactions execute the first branch whose predicate
    is true.  The locales of \<open>Apply_Correct\<close> hold what every operation built from upserts keeps; they
    are interpreted on the agreement of the indexes, on the growth of sequence numbers, on freshness,
    on the frame of the state, and on the tracking of changes.
  \<^item> \<open>Level_Reads\<close>, \<open>Store_Reads\<close>, \<open>Store_Merge\<close>, \<open>Store_Compact\<close>, \<open>Store_Keep\<close>, \<open>Store_Steps\<close>,
    \<open>Snapshot_Correct\<close>, \<open>Store_Machine\<close>, \<open>Store_Run\<close>, \<open>Snapshot_Run\<close>: the store.  A read shows the
    latest version that is not after its sequence number; ranges agree with single reads at every
    sequence number; the steps of \<open>Store_Machine\<close>, which interleave as the permits of the source
    allow, refine a map that only commits change; no panic is reachable; compaction in memory bounds
    the number of levels; a snapshot carries the whole state.  The locales \<open>key_space\<close>, \<open>sub_table\<close>
    and \<open>store_space\<close> are the contract of a key type and are interpreted on user keys and on
    expiration keys.
  \<^item> \<open>Kv_Api\<close>, \<open>Network_Correct\<close>, \<open>Transfer_Run\<close>, \<open>Meta_Node_Correct\<close>: listings are exact and
    ascending, an append ends and reports what the peer has, a snapshot is taken only when it is
    complete and then shows the same state, requests are forwarded a bounded number of times and are
    answered, the steps of a change of members are made in order, and a transaction is answered with
    what the state machine yields.
  \<^item> \<open>Versions\<close>, \<open>Feature_Specs\<close>, \<open>Handshake\<close>, \<open>Codec\<close>, \<open>Log_Entry\<close>, \<open>Kv_Transaction\<close>: computed
    version ranges are exact or sound, the handshake connects compatible versions only, encodings are
    invertible and keep the order of keys, and messages are read back as they were sent.

  \<^bold>\<open>Code of other crates.\<close>  Functions of crates that are not part of the repository are fields of records
  that the definitions take as arguments.  Their documented behaviour is stated by predicates, which
  the theorems assume: \<open>env_ok\<close> (the transactional view of both maps, values with sequence numbers,
  JSON numbers), \<open>table_ok\<close> (tables of versions in memory and the merging of streams), \<open>rotbl_ok\<close> (the
  table on disk), \<open>value_lib_ok\<close> (JSON and bincode), collected in \<open>libs_ok\<close>; \<open>snapshot_ok\<close> and
  \<open>transfer_ok\<close> (files and the builder of tables), \<open>kv_lib_ok\<close> (expiry of values), \<open>reads_flexible\<close> (the
  unit of stored expiry times), \<open>pb_enums_ok\<close> (enumerations that prost generates), \<open>raft_applies\<close> (the
  response of raft to a write) and \<open>decisive\<close> (the metrics of raft).  \<open>Mem_View\<close>, \<open>Mem_Run\<close> and
  \<open>Mem_Store\<close> give small instances in memory for which these hold; the witnesses run on them.  The
  invariants \<open>index_ok\<close> and \<open>store_ok\<close> are not assumptions on the outside: the initial states have them
  and every operation keeps them.

  \<^bold>\<open>Prefixes.\<close>  Listing, counting and deletion by prefix use \<open>prefix_right_bound\<close>.  \<open>listed_by\<close> says which
  keys they take: the keys that start with the prefix, except that a prefix whose last character below
  the maximum is U+D7FF takes every key from the prefix on, because the next code point is a
  surrogate and the bound is lost.

  \<^bold>\<open>Loops, bounds and panics.\<close>  Loops over data are structural recursion; \<open>append_loop\<close>, \<open>fill_buf\<close> and the
  merging of equal keys are functions with a proof of termination.  \<open>forward_loop\<close> counts down from
  20, the number of rounds in the source.  \<open>chunk_loop\<close> is a partial function and is proved to return
  for every chunk size but 0.  The wait for a leader is a function of the events that are observed,
  and \<open>None\<close> when they end; it returns for decisive events.  A panic of the source is the error
  \<open>Panicked\<close>, or \<open>None\<close> where the result is an option.  Debug assertions are a flag of the library
  records.  Overflow is the wrap-around of words, as in a release build.

  \<^bold>\<open>Not modelled.\<close>  The raft protocol and its log (crates \<open>openraft\<close> and \<open>raft-log\<close>), the transport (\<open>tonic\<close>),
  the dispatch of watch events to subscribers, timeouts and back-off, tasks and their shutdown,
  configuration, metrics and logs, the upgrade of data of older versions and the sled store, typed
  keys of \<open>kvapi\<close>, and code that only prints.  Streams are the lists of their items, so nothing is said
  about back-pressure.  After an error the state of a step is dropped, as an uncommitted view is; what
  a failing step has already done to the system data, to the time of the last cleaning and to
  subscribers is not described, because raft stops a node whose state machine fails.
\<close>

end
